(* ===== verification/Prelude.thy ===== *)
theory Prelude
  imports Main "HOL-Library.Word"
begin

text \<open>
  Shared ground of the development: the machine integers of the Rust code, the outcome of a Rust
  call (a value, an error, a panic, or no return within the fuel), computations that pass a state,
  and the few generic lemmas on lists and words that several components use.

  Conventions.  A length or an index of a slice that the code only compares and indexes with is a
  \<open>nat\<close>; an integer on which overflow matters is a word of its Rust width.  The flag \<open>oc\<close> of a
  definition is Cargo's \<open>overflow-checks\<close> setting: with it (debug builds) the plain operators
  \<open>+ - *\<close> panic on overflow, without it (the release profile) they wrap.
\<close>

section \<open>Machine integers\<close>

type_synonym u8 = "8 word"
type_synonym u16 = "16 word"
type_synonym u32 = "32 word"
type_synonym u64 = "64 word"
type_synonym usize = "64 word"

section \<open>The outcome of a call\<close>

text \<open>
  \<open>Ok\<close> and \<open>Err\<close> are Rust's \<open>Result\<close>; \<open>Panic\<close> is an unwinding panic; \<open>NoFuel\<close> says that a busy-wait
  of the code did not end within the fuel of the model.
\<close>

datatype ('a, 'e) outcome = Ok 'a | Err 'e | Panic | NoFuel

definition is_ok :: "('a, 'e) outcome \<Rightarrow> bool" where
  "is_ok r = (case r of Ok _ \<Rightarrow> True | _ \<Rightarrow> False)"

definition map_err :: "('e \<Rightarrow> 'f) \<Rightarrow> ('a, 'e) outcome \<Rightarrow> ('a, 'f) outcome" where
  "map_err g r = (case r of Ok a \<Rightarrow> Ok a | Err e \<Rightarrow> Err (g e) | Panic \<Rightarrow> Panic | NoFuel \<Rightarrow> NoFuel)"

definition map_ok :: "('a \<Rightarrow> 'b) \<Rightarrow> ('a, 'e) outcome \<Rightarrow> ('b, 'e) outcome" where
  "map_ok g r = (case r of Ok a \<Rightarrow> Ok (g a) | Err e \<Rightarrow> Err e | Panic \<Rightarrow> Panic | NoFuel \<Rightarrow> NoFuel)"

definition ok_or :: "'e \<Rightarrow> 'a option \<Rightarrow> ('a, 'e) outcome" where
  "ok_or e x = (case x of None \<Rightarrow> Err e | Some a \<Rightarrow> Ok a)"

definition bind_outcome :: "('a, 'e) outcome \<Rightarrow> ('a \<Rightarrow> ('b, 'e) outcome) \<Rightarrow> ('b, 'e) outcome" where
  "bind_outcome r k = (case r of Ok a \<Rightarrow> k a | Err e \<Rightarrow> Err e | Panic \<Rightarrow> Panic | NoFuel \<Rightarrow> NoFuel)"

named_theorems outcome_simps \<open>equations of the outcome and state combinators\<close>

lemma is_ok_simps [simp]:
  "is_ok (Ok a)" "\<not> is_ok (Err e)" "\<not> is_ok Panic" "\<not> is_ok NoFuel"
  by (simp_all add: is_ok_def)

lemma is_ok_iff: "is_ok r \<longleftrightarrow> (\<exists>a. r = Ok a)"
  by (cases r) auto

lemma map_err_simps [simp]:
  "map_err g (Ok a) = Ok a" "map_err g (Err e) = Err (g e)"
  "map_err g Panic = Panic" "map_err g NoFuel = NoFuel"
  by (simp_all add: map_err_def)

lemma map_err_eq_Ok [simp]: "map_err g r = Ok a \<longleftrightarrow> r = Ok a"
  by (cases r) auto

lemma map_ok_simps [simp]:
  "map_ok h (Ok a) = Ok (h a)" "map_ok h (Err e) = Err e"
  "map_ok h Panic = Panic" "map_ok h NoFuel = NoFuel"
  by (simp_all add: map_ok_def)

lemma ok_or_simps [simp]: "ok_or e None = Err e" "ok_or e (Some a) = Ok a"
  by (simp_all add: ok_or_def)

lemma bind_outcome_simps [simp]:
  "bind_outcome (Ok a) k = k a" "bind_outcome (Err e) k = Err e"
  "bind_outcome Panic k = Panic" "bind_outcome NoFuel k = NoFuel"
  by (simp_all add: bind_outcome_def)

lemma bind_outcome_eq_Ok:
  "bind_outcome r k = Ok b \<longleftrightarrow> (\<exists>a. r = Ok a \<and> k a = Ok b)"
  by (cases r) auto

section \<open>Computations that pass a state\<close>

text \<open>
  A method on \<open>&mut self\<close> that returns a \<open>Result\<close> is a function from the state to an outcome and
  the new state.  \<open>bind_s\<close> is sequencing with the \<open>?\<close> operator: an error, a panic or a missing
  return stops the sequence and keeps the state reached.
\<close>

type_synonym ('s, 'a, 'e) comp = "'s \<Rightarrow> ('a, 'e) outcome \<times> 's"

definition ret_s :: "'a \<Rightarrow> ('s, 'a, 'e) comp" where
  "ret_s a s = (Ok a, s)"

definition bind_s :: "('s, 'a, 'e) comp \<Rightarrow> ('a \<Rightarrow> ('s, 'b, 'e) comp) \<Rightarrow> ('s, 'b, 'e) comp" where
  "bind_s m k s =
     (case m s of
        (Ok a, s') \<Rightarrow> k a s'
      | (Err e, s') \<Rightarrow> (Err e, s')
      | (Panic, s') \<Rightarrow> (Panic, s')
      | (NoFuel, s') \<Rightarrow> (NoFuel, s'))"

definition lift_s :: "('a, 'e) outcome \<Rightarrow> ('s, 'a, 'e) comp" where
  "lift_s r s = (r, s)"

definition map_err_s :: "('e \<Rightarrow> 'f) \<Rightarrow> ('s, 'a, 'e) comp \<Rightarrow> ('s, 'a, 'f) comp" where
  "map_err_s g m s = (case m s of (r, s') \<Rightarrow> (map_err g r, s'))"

text \<open>\<open>for x in xs { body(x)?; }\<close> and \<open>xs.into_iter().map(f).collect::<Result<Vec<_>, _>>()\<close>.\<close>

fun for_s :: "('a \<Rightarrow> ('s, unit, 'e) comp) \<Rightarrow> 'a list \<Rightarrow> ('s, unit, 'e) comp" where
  "for_s f [] = ret_s ()"
| "for_s f (x # xs) = bind_s (f x) (\<lambda>_. for_s f xs)"

fun collect_s :: "('a \<Rightarrow> ('s, 'b, 'e) comp) \<Rightarrow> 'a list \<Rightarrow> ('s, 'b list, 'e) comp" where
  "collect_s f [] = ret_s []"
| "collect_s f (x # xs) = bind_s (f x) (\<lambda>y. bind_s (collect_s f xs) (\<lambda>ys. ret_s (y # ys)))"

fun collect_outcome :: "('a \<Rightarrow> ('b, 'e) outcome) \<Rightarrow> 'a list \<Rightarrow> ('b list, 'e) outcome" where
  "collect_outcome f [] = Ok []"
| "collect_outcome f (x # xs) =
     bind_outcome (f x) (\<lambda>y. bind_outcome (collect_outcome f xs) (\<lambda>ys. Ok (y # ys)))"

lemma ret_s_apply [outcome_simps]: "ret_s a s = (Ok a, s)"
  by (simp add: ret_s_def)

lemma lift_s_apply [outcome_simps]: "lift_s r s = (r, s)"
  by (simp add: lift_s_def)

lemma bind_s_Ok [outcome_simps]: "m s = (Ok a, s') \<Longrightarrow> bind_s m k s = k a s'"
  by (simp add: bind_s_def)

lemma bind_s_ret [simp]: "bind_s (ret_s a) k = k a"
  by (rule ext) (simp add: bind_s_def ret_s_def)

lemma bind_s_ret_right [simp]: "bind_s m ret_s = m"
  by (rule ext) (auto simp: bind_s_def ret_s_def split: prod.splits outcome.splits)

lemma bind_s_ret_unit [simp]: "bind_s m (\<lambda>_. ret_s ()) = m"
  by (rule ext) (auto simp: bind_s_def ret_s_def split: prod.splits outcome.splits)

lemma bind_s_assoc: "bind_s (bind_s m k) h = bind_s m (\<lambda>a. bind_s (k a) h)"
  by (rule ext) (auto simp: bind_s_def split: prod.splits outcome.splits)

lemma bind_s_eq_Ok:
  "bind_s m k s = (Ok b, s'') \<longleftrightarrow> (\<exists>a s'. m s = (Ok a, s') \<and> k a s' = (Ok b, s''))"
  by (auto simp: bind_s_def split: prod.splits outcome.splits)

lemma for_s_append: "for_s f (xs @ ys) = bind_s (for_s f xs) (\<lambda>_. for_s f ys)"
  by (induction xs) (simp_all add: bind_s_assoc)

lemma collect_outcome_Ok_iff:
  "collect_outcome f xs = Ok ys \<longleftrightarrow>
     length ys = length xs \<and> (\<forall>i < length xs. f (xs ! i) = Ok (ys ! i))"
proof (induction xs arbitrary: ys)
  case Nil
  then show ?case by auto
next
  case (Cons x xs)
  show ?case
  proof (cases ys)
    case Nil
    then show ?thesis by (auto simp: bind_outcome_eq_Ok)
  next
    case (Cons y ys')
    have "collect_outcome f (x # xs) = Ok ys \<longleftrightarrow> f x = Ok y \<and> collect_outcome f xs = Ok ys'"
      by (auto simp: bind_outcome_eq_Ok Cons)
    also have "\<dots> \<longleftrightarrow> length ys = length (x # xs) \<and>
        (\<forall>i < length (x # xs). f ((x # xs) ! i) = Ok (ys ! i))"
      by (auto simp: Cons Cons.IH less_Suc_eq_0_disj)
    finally show ?thesis .
  qed
qed

section \<open>Checked and plain arithmetic on words\<close>

definition checked_add :: "'w::len word \<Rightarrow> 'w word \<Rightarrow> 'w word option" where
  "checked_add a b = (if unat a + unat b < 2 ^ LENGTH('w) then Some (a + b) else None)"

definition checked_mul :: "'w::len word \<Rightarrow> 'w word \<Rightarrow> 'w word option" where
  "checked_mul a b = (if unat a * unat b < 2 ^ LENGTH('w) then Some (a * b) else None)"

definition saturating_sub :: "'w::len word \<Rightarrow> 'w word \<Rightarrow> 'w word" where
  "saturating_sub a b = (if b \<le> a then a - b else 0)"

definition plain_add :: "bool \<Rightarrow> 'w::len word \<Rightarrow> 'w word \<Rightarrow> ('w word, 'e) outcome" where
  "plain_add oc a b = (if oc \<and> 2 ^ LENGTH('w) \<le> unat a + unat b then Panic else Ok (a + b))"

definition plain_sub :: "bool \<Rightarrow> 'w::len word \<Rightarrow> 'w word \<Rightarrow> ('w word, 'e) outcome" where
  "plain_sub oc a b = (if oc \<and> a < b then Panic else Ok (a - b))"

definition plain_mul :: "bool \<Rightarrow> 'w::len word \<Rightarrow> 'w word \<Rightarrow> ('w word, 'e) outcome" where
  "plain_mul oc a b = (if oc \<and> 2 ^ LENGTH('w) \<le> unat a * unat b then Panic else Ok (a * b))"

lemma checked_add_Some:
  fixes a b c :: "'w::len word"
  shows "checked_add a b = Some c \<longleftrightarrow> unat a + unat b < 2 ^ LENGTH('w) \<and> unat c = unat a + unat b"
  by (auto simp: checked_add_def unat_word_ariths word_unat_eq_iff)

lemma checked_mul_Some:
  fixes a b c :: "'w::len word"
  shows "checked_mul a b = Some c \<longleftrightarrow> unat a * unat b < 2 ^ LENGTH('w) \<and> unat c = unat a * unat b"
  by (auto simp: checked_mul_def unat_word_ariths word_unat_eq_iff)

lemma unat_saturating_sub: "unat (saturating_sub a b) = unat a - unat b"
  by (auto simp: saturating_sub_def unat_sub word_le_nat_alt)

lemma plain_add_no_overflow:
  fixes a b :: "'w::len word"
  assumes "unat a + unat b < 2 ^ LENGTH('w)"
  shows "plain_add oc a b = Ok (a + b)"
  using assms by (simp add: plain_add_def)

section \<open>Big-endian bytes\<close>

text \<open>
  \<open>to_be_bytes\<close> of an unsigned integer of \<open>k\<close> bytes (given by its value) and \<open>from_be_bytes\<close>.
\<close>

fun be_bytes :: "nat \<Rightarrow> nat \<Rightarrow> u8 list" where
  "be_bytes 0 n = []"
| "be_bytes (Suc k) n = be_bytes k (n div 256) @ [word_of_nat n]"

definition from_be_bytes :: "u8 list \<Rightarrow> nat" where
  "from_be_bytes bs = foldl (\<lambda>a b. a * 256 + unat b) 0 bs"

lemma unat_u8_bound: "unat (b :: u8) < 256"
  using unsigned_less [where 'a = nat and w = b] by simp

lemma unat_u32_bound: "unat (w :: u32) < 2 ^ 32"
  using unsigned_less [where 'a = nat and w = w] by simp

lemma unat_u64_bound: "unat (w :: u64) < 2 ^ 64"
  using unsigned_less [where 'a = nat and w = w] by simp

lemma length_be_bytes [simp]: "length (be_bytes k n) = k"
  by (induction k arbitrary: n) auto

lemma from_be_bytes_simps [simp]:
  "from_be_bytes [] = 0" "from_be_bytes (bs @ [b]) = from_be_bytes bs * 256 + unat b"
  by (simp_all add: from_be_bytes_def)

lemma from_be_bytes_be_bytes [simp]: "from_be_bytes (be_bytes k n) = n mod 256 ^ k"
proof (induction k arbitrary: n)
  case 0
  then show ?case by simp
next
  case (Suc k)
  have "n mod (256 * 256 ^ k) = 256 * (n div 256 mod 256 ^ k) + n mod 256"
    by (rule mod_mult2_eq)
  then show ?case
    by (simp add: Suc.IH unat_of_nat algebra_simps)
qed

lemma be_bytes_from_be_bytes [simp]: "be_bytes (length bs) (from_be_bytes bs) = bs"
proof (induction bs rule: rev_induct)
  case Nil
  then show ?case by simp
next
  case (snoc b bs)
  have b: "unat b < 256"
    by (rule unat_u8_bound)
  have "(word_of_nat 256 :: u8) = 0"
    by (simp add: word_unat_eq_iff unat_of_nat)
  then have z: "(256 :: u8) = 0"
    by simp
  from b have "(from_be_bytes bs * 256 + unat b) div 256 = from_be_bytes bs"
    by simp
  moreover have "(word_of_nat (from_be_bytes bs * 256 + unat b) :: u8) = b"
    by (simp add: z)
  ultimately show ?case
    using snoc.IH by simp
qed

lemma from_be_bytes_bound: "from_be_bytes bs < 256 ^ length bs"
proof -
  have "from_be_bytes (be_bytes (length bs) (from_be_bytes bs)) < 256 ^ length bs"
    unfolding from_be_bytes_be_bytes by simp
  then show ?thesis by simp
qed

section \<open>Decimal numbers, as \<open>format!\<close> prints them\<close>

fun show_nat :: "nat \<Rightarrow> string" where
  "show_nat n =
     (if n < 10 then [char_of (48 + n)] else show_nat (n div 10) @ [char_of (48 + n mod 10)])"

declare show_nat.simps [simp del]

section \<open>Lists\<close>

text \<open>The number of occurrences over a concatenation, used when programs are concatenated.\<close>

lemma sum_list_map_le_length:
  fixes f :: "'a \<Rightarrow> nat"
  assumes "\<And>x. x \<in> set xs \<Longrightarrow> f x \<le> 1"
  shows "sum_list (map f xs) \<le> length xs"
  using assms by (induction xs) fastforce+

lemma nth_the_index:
  assumes "x \<in> set xs"
  obtains i where "i < length xs" "xs ! i = x"
  using assms by (auto simp: in_set_conv_nth)

end
