(* ===== verification/Ibv_Error.thy ===== *)
theory Ibv_Error
  imports Prelude
begin

text \<open>
  \<open>src/ibverbs/error.rs\<close>: the error type of every ibverbs operation and the classification of a raw
  \<open>errno\<close>.  The numeric errno constants come from the \<open>libc\<close> crate, which is not part of the
  repository, so they are a record that the definitions take as an argument; the only thing some
  lemmas need of them is that the constants they compare are different numbers.
\<close>

section \<open>libc's errno constants (a parameter)\<close>

record libc_errno =
  EINVAL :: int
  ENOMEM :: int
  EMFILE :: int
  EAGAIN :: int
  EACCES :: int
  EPERM :: int
  ENOENT :: int

definition errno_distinct :: "libc_errno \<Rightarrow> bool" where
  "errno_distinct c \<longleftrightarrow>
     distinct [EINVAL c, ENOMEM c, EMFILE c, EAGAIN c, EACCES c, EPERM c, ENOENT c]"

section \<open>IbvError\<close>

text \<open>\<open>Driver\<close> carries the raw number that \<open>io::Error::from_raw_os_error\<close> wraps.\<close>

datatype ibv_error =
    InvalidInput string
  | Resource string
  | Permission string
  | NotFound string
  | Driver int

text \<open>The \<open>match\<close> of the code, arm by arm in its order.\<close>

definition from_errno_with_msg :: "libc_errno \<Rightarrow> int \<Rightarrow> string \<Rightarrow> ibv_error" where
  "from_errno_with_msg c errno msg =
     (if errno = EINVAL c then InvalidInput (msg @ '' (driver rejected params)'')
      else if errno = ENOMEM c then Resource (msg @ '' (out of memory)'')
      else if errno = EMFILE c then Resource (msg @ '' (too many open files/objects)'')
      else if errno = EAGAIN c then Resource (msg @ '' (temporary resource shortage)'')
      else if errno = EACCES c \<or> errno = EPERM c then Permission msg
      else if errno = ENOENT c then NotFound msg
      else Driver errno)"

text \<open>The category an application branches on, without the message.\<close>

datatype error_class = CInvalidInput | CResource | CPermission | CNotFound | CDriver

fun class_of :: "ibv_error \<Rightarrow> error_class" where
  "class_of (InvalidInput _) = CInvalidInput"
| "class_of (Resource _) = CResource"
| "class_of (Permission _) = CPermission"
| "class_of (NotFound _) = CNotFound"
| "class_of (Driver _) = CDriver"

lemma class_from_errno:
  assumes "errno_distinct c"
  shows "class_of (from_errno_with_msg c errno msg) = CInvalidInput \<longleftrightarrow> errno = EINVAL c"
    and "class_of (from_errno_with_msg c errno msg) = CResource \<longleftrightarrow>
           errno \<in> {ENOMEM c, EMFILE c, EAGAIN c}"
    and "class_of (from_errno_with_msg c errno msg) = CPermission \<longleftrightarrow> errno \<in> {EACCES c, EPERM c}"
    and "class_of (from_errno_with_msg c errno msg) = CNotFound \<longleftrightarrow> errno = ENOENT c"
    and "class_of (from_errno_with_msg c errno msg) = CDriver \<longleftrightarrow>
           errno \<notin> {EINVAL c, ENOMEM c, EMFILE c, EAGAIN c, EACCES c, EPERM c, ENOENT c}"
  using assms by (auto simp: errno_distinct_def from_errno_with_msg_def)

lemma from_errno_Driver:
  "from_errno_with_msg c errno msg = Driver n \<Longrightarrow> n = errno"
  by (auto simp: from_errno_with_msg_def split: if_splits)

end
