(* ===== verification/Work.thy ===== *)
theory Work
  imports Ibv_Error
begin

text \<open>
  \<open>src/ibverbs/work/\<close>: the status codes of a failed work request, the success value, and the
  completion that pairs a work-request id with the result.  A raw \<open>ibv_wc\<close> of \<open>ibverbs-sys\<close> is
  represented by the four values the code reads from it through that crate's accessors.
\<close>

section \<open>error.rs: WorkErrorCode\<close>

datatype work_error_class =
    LocalProgrammingError | LocalResourceError | RemoteError | TransportErrorClass
  | TimeoutClass | Fatal | Unknown

datatype work_error_code =
    LocalLengthError | LocalQueuePairOperationError | LocalEecOperationError
  | LocalProtectionError | WorkRequestFlushError | MemoryWindowBindError | BadResponseError
  | LocalAccessError | RemoteInvalidRequestError | RemoteAccessError | RemoteOperationError
  | RetryExceededError | RnrRetryExceededError | LocalRddViolationError
  | RemoteInvalidReadRequestError | RemoteAbortError | InvalidEecnError | InvalidEecStateError
  | FatalError | ResponseTimeoutError | GeneralError | TagMatchingError
  | TagMatchingRendezvousIncomplete | UnknownError

text \<open>The discriminants (\<open>#[repr(u32)]\<close>); \<open>UnknownError\<close> follows 23 implicitly.\<close>

fun work_error_code_num :: "work_error_code \<Rightarrow> u32" where
  "work_error_code_num LocalLengthError = 1"
| "work_error_code_num LocalQueuePairOperationError = 2"
| "work_error_code_num LocalEecOperationError = 3"
| "work_error_code_num LocalProtectionError = 4"
| "work_error_code_num WorkRequestFlushError = 5"
| "work_error_code_num MemoryWindowBindError = 6"
| "work_error_code_num BadResponseError = 7"
| "work_error_code_num LocalAccessError = 8"
| "work_error_code_num RemoteInvalidRequestError = 9"
| "work_error_code_num RemoteAccessError = 10"
| "work_error_code_num RemoteOperationError = 11"
| "work_error_code_num RetryExceededError = 12"
| "work_error_code_num RnrRetryExceededError = 13"
| "work_error_code_num LocalRddViolationError = 14"
| "work_error_code_num RemoteInvalidReadRequestError = 15"
| "work_error_code_num RemoteAbortError = 16"
| "work_error_code_num InvalidEecnError = 17"
| "work_error_code_num InvalidEecStateError = 18"
| "work_error_code_num FatalError = 19"
| "work_error_code_num ResponseTimeoutError = 20"
| "work_error_code_num GeneralError = 21"
| "work_error_code_num TagMatchingError = 22"
| "work_error_code_num TagMatchingRendezvousIncomplete = 23"
| "work_error_code_num UnknownError = 24"

definition all_work_error_codes :: "work_error_code list" where
  "all_work_error_codes =
     [LocalLengthError, LocalQueuePairOperationError, LocalEecOperationError,
      LocalProtectionError, WorkRequestFlushError, MemoryWindowBindError, BadResponseError,
      LocalAccessError, RemoteInvalidRequestError, RemoteAccessError, RemoteOperationError,
      RetryExceededError, RnrRetryExceededError, LocalRddViolationError,
      RemoteInvalidReadRequestError, RemoteAbortError, InvalidEecnError, InvalidEecStateError,
      FatalError, ResponseTimeoutError, GeneralError, TagMatchingError,
      TagMatchingRendezvousIncomplete, UnknownError]"

text \<open>
  The derived \<open>From<u32>\<close> (\<open>num_enum::FromPrimitive\<close> with \<open>#[num_enum(default)]\<close>): the variant
  with that discriminant, the default variant for every other number.
\<close>

definition work_error_code_from :: "u32 \<Rightarrow> work_error_code" where
  "work_error_code_from n =
     (case find (\<lambda>c. work_error_code_num c = n) all_work_error_codes of
        None \<Rightarrow> UnknownError | Some c \<Rightarrow> c)"

fun error_code_class :: "work_error_code \<Rightarrow> work_error_class" where
  "error_code_class LocalLengthError = LocalProgrammingError"
| "error_code_class LocalProtectionError = LocalProgrammingError"
| "error_code_class LocalAccessError = LocalProgrammingError"
| "error_code_class LocalQueuePairOperationError = LocalProgrammingError"
| "error_code_class LocalEecOperationError = LocalProgrammingError"
| "error_code_class InvalidEecnError = LocalProgrammingError"
| "error_code_class InvalidEecStateError = LocalProgrammingError"
| "error_code_class LocalRddViolationError = LocalProgrammingError"
| "error_code_class WorkRequestFlushError = LocalResourceError"
| "error_code_class MemoryWindowBindError = LocalResourceError"
| "error_code_class RemoteInvalidRequestError = RemoteError"
| "error_code_class RemoteInvalidReadRequestError = RemoteError"
| "error_code_class RemoteAccessError = RemoteError"
| "error_code_class RemoteOperationError = RemoteError"
| "error_code_class RemoteAbortError = RemoteError"
| "error_code_class RetryExceededError = TransportErrorClass"
| "error_code_class RnrRetryExceededError = TransportErrorClass"
| "error_code_class ResponseTimeoutError = TimeoutClass"
| "error_code_class FatalError = Fatal"
| "error_code_class GeneralError = Unknown"
| "error_code_class TagMatchingError = Unknown"
| "error_code_class TagMatchingRendezvousIncomplete = Unknown"
| "error_code_class BadResponseError = Unknown"
| "error_code_class UnknownError = Unknown"

definition error_code_hint :: "work_error_code \<Rightarrow> string" where
  "error_code_hint c =
     (case c of
        LocalLengthError \<Rightarrow> ''SGE length exceeds MR bounds or WR length is invalid''
      | LocalProtectionError \<Rightarrow>
          ''Memory region permissions do not allow this operation (check LOCAL_WRITE / REMOTE_READ / REMOTE_WRITE flags)''
      | LocalAccessError \<Rightarrow> ''DMA failed due to invalid or unmapped memory''
      | LocalQueuePairOperationError \<Rightarrow>
          ''Work request posted in invalid QP state or illegal opcode''
      | WorkRequestFlushError \<Rightarrow> ''QP entered error state; outstanding WRs were flushed''
      | MemoryWindowBindError \<Rightarrow> ''Memory window bind failed (invalid MR or access flags)''
      | RemoteInvalidRequestError \<Rightarrow>
          ''Remote QP rejected the request (bad rkey, addr, or opcode)''
      | RemoteInvalidReadRequestError \<Rightarrow>
          ''Remote rejected RDMA read (address or length invalid)''
      | RemoteAccessError \<Rightarrow> ''Remote memory protection violation (check rkey and permissions)''
      | RemoteOperationError \<Rightarrow> ''Remote QP failed processing the request''
      | RetryExceededError \<Rightarrow>
          ''Packet retry limit exceeded (link issue or remote QP unresponsive)''
      | RnrRetryExceededError \<Rightarrow>
          ''Receiver Not Ready retry limit exceeded (remote CQ/WQ stalled)''
      | ResponseTimeoutError \<Rightarrow> ''No response before timeout (QP stalled or fabric issue)''
      | FatalError \<Rightarrow> ''Fatal QP or device error; QP is no longer usable''
      | _ \<Rightarrow> ''No additional diagnostic information available'')"

section \<open>error.rs: WorkError, success.rs: WorkSuccess, completion.rs: WorkCompletion\<close>

record work_error =
  we_raw_status :: u32
  we_vendor_code :: u32

definition work_error_new :: "u32 \<Rightarrow> u32 \<Rightarrow> work_error" where
  "work_error_new st v = \<lparr>we_raw_status = st, we_vendor_code = v\<rparr>"

definition we_code :: "work_error \<Rightarrow> work_error_code" where
  "we_code e = work_error_code_from (we_raw_status e)"

record work_success =
  ws_imm_data :: "u32 option"
  ws_scattered_bytes :: nat

definition work_success_new :: "u32 option \<Rightarrow> nat \<Rightarrow> work_success" where
  "work_success_new imm n = \<lparr>ws_imm_data = imm, ws_scattered_bytes = n\<rparr>"

text \<open>
  Byte order of a 32-bit value.  \<open>u32::to_be\<close> and \<open>u32::from_be\<close> both swap the four bytes on a
  little-endian host and do nothing on a big-endian one; \<open>le\<close> is the host's endianness.
\<close>

definition swap_bytes32 :: "u32 \<Rightarrow> u32" where
  "swap_bytes32 w = word_of_nat (from_be_bytes (rev (be_bytes 4 (unat w))))"

definition to_be32 :: "bool \<Rightarrow> u32 \<Rightarrow> u32" where
  "to_be32 le w = (if le then swap_bytes32 w else w)"

definition from_be32 :: "bool \<Rightarrow> u32 \<Rightarrow> u32" where
  "from_be32 le w = (if le then swap_bytes32 w else w)"

definition immediate_data :: "bool \<Rightarrow> work_success \<Rightarrow> u32 option" where
  "immediate_data le s = map_option (from_be32 le) (ws_imm_data s)"

text \<open>What \<open>ibv_wc::wr_id/error/imm_data/len\<close> of \<open>ibverbs-sys\<close> return for a completion.\<close>

record ibv_wc =
  wc_wr_id :: u64
  wc_error :: "(u32 \<times> u32) option"
  wc_imm_data :: "u32 option"
  wc_len :: nat

text \<open>\<open>Result<WorkSuccess, WorkError>\<close>, a plain value: \<open>Inl\<close> the error, \<open>Inr\<close> the success.\<close>

type_synonym work_result = "work_error + work_success"

record work_completion =
  wcp_wr_id :: u64
  wcp_result :: work_result

definition work_completion_new :: "ibv_wc \<Rightarrow> work_completion" where
  "work_completion_new wc =
     \<lparr>wcp_wr_id = wc_wr_id wc,
      wcp_result =
        (case wc_error wc of
           Some (error_code, vendor_code) \<Rightarrow> Inl (work_error_new error_code vendor_code)
         | None \<Rightarrow> Inr (work_success_new (wc_imm_data wc) (wc_len wc)))\<rparr>"

section \<open>Lemmas\<close>

lemma swap_bytes32_involution [simp]: "swap_bytes32 (swap_bytes32 w) = w"
proof -
  let ?bs = "rev (be_bytes 4 (unat w))"
  have "from_be_bytes ?bs < 2 ^ 32"
    using from_be_bytes_bound [of ?bs] by simp
  then have "unat (swap_bytes32 w) = from_be_bytes ?bs"
    by (simp add: swap_bytes32_def unat_of_nat)
  then have "be_bytes 4 (unat (swap_bytes32 w)) = ?bs"
    using be_bytes_from_be_bytes [of ?bs] by simp
  moreover have "unat w < 2 ^ 32"
    by (rule unat_u32_bound)
  ultimately show ?thesis
    by (simp add: swap_bytes32_def [of "swap_bytes32 w"] from_be_bytes_be_bytes)
qed

lemma from_be32_to_be32 [simp]: "from_be32 le (to_be32 le w) = w"
  by (simp add: from_be32_def to_be32_def)

lemma work_error_code_from_num: "work_error_code_from (work_error_code_num c) = c"
  by (cases c) (simp_all add: work_error_code_from_def all_work_error_codes_def)

lemma work_error_code_num_from:
  assumes "work_error_code_from n \<noteq> UnknownError"
  shows "work_error_code_num (work_error_code_from n) = n"
proof (cases "find (\<lambda>c. work_error_code_num c = n) all_work_error_codes")
  case None
  with assms show ?thesis by (simp add: work_error_code_from_def)
next
  case (Some c)
  then have "work_error_code_num c = n" by (auto simp: find_Some_iff)
  with Some show ?thesis by (simp add: work_error_code_from_def)
qed

text \<open>The four bytes of a value in the memory of a host.\<close>

definition host_bytes :: "bool \<Rightarrow> u32 \<Rightarrow> u8 list" where
  "host_bytes le w = (if le then rev (be_bytes 4 (unat w)) else be_bytes 4 (unat w))"

lemma host_bytes_swap: "host_bytes True (swap_bytes32 w) = be_bytes 4 (unat w)"
proof -
  let ?bs = "rev (be_bytes 4 (unat w))"
  have "from_be_bytes ?bs < 2 ^ 32"
    using from_be_bytes_bound [of ?bs] by simp
  then have "unat (swap_bytes32 w) = from_be_bytes ?bs"
    by (simp add: swap_bytes32_def unat_of_nat)
  then show ?thesis
    using be_bytes_from_be_bytes [of ?bs] by (simp add: host_bytes_def)
qed

text \<open>\<open>to_be\<close> puts the most significant byte first, on every host.\<close>

lemma host_bytes_to_be32: "host_bytes le (to_be32 le w) = be_bytes 4 (unat w)"
  using host_bytes_swap [of w] by (simp add: to_be32_def host_bytes_def)

lemma immediate_bytes:
  assumes "host_bytes le (to_be32 le w) = host_bytes le' x"
  shows "from_be32 le' x = w"
proof -
  have "to_be32 le' (from_be32 le' x) = x" by (simp add: to_be32_def from_be32_def)
  then have "be_bytes 4 (unat w) = host_bytes le' (to_be32 le' (from_be32 le' x))"
    using assms by (simp add: host_bytes_to_be32)
  then have "from_be_bytes (be_bytes 4 (unat w)) = from_be_bytes (be_bytes 4 (unat (from_be32 le' x)))"
    by (simp only: host_bytes_to_be32)
  then have "unat w = unat (from_be32 le' x)"
    using unat_u32_bound [of w] unat_u32_bound [of "from_be32 le' x"] by simp
  then show ?thesis by (simp add: word_unat_eq_iff)
qed

end
