(* ===== verification/Verbs.thy ===== *)
theory Verbs
  imports Work
begin

text \<open>
  The boundary to \<open>libibverbs\<close> (crate \<open>ibverbs-sys\<close>) and to the machine.  None of that code is in
  the repository, so it is a parameter: the record \<open>verbs\<close> holds one function per foreign call the
  code makes, over an abstract machine state \<open>'h\<close> (driver, device, remote peers, DMA memory and
  clock).  The argument structures are those the Rust code fills in, field by field.

  The model's world adds to the machine state the heap cells that the Rust code shares through
  \<open>Rc<RefCell<_>>\<close>; they are declared where their contents are (theory \<open>Completion_Queue\<close>).
\<close>

unbundle bit_operations_syntax

section \<open>Structures passed to the driver\<close>

record ibv_sge =
  sge_addr :: u64
  sge_length :: u32
  sge_lkey :: u32

datatype ibv_wr_opcode =
    IBV_WR_SEND | IBV_WR_SEND_WITH_IMM | IBV_WR_RDMA_WRITE | IBV_WR_RDMA_WRITE_WITH_IMM
  | IBV_WR_RDMA_READ

text \<open>
  \<open>sg_list\<close> is a pointer to the list given here, \<open>num_sge\<close> its length cast to \<open>i32\<close>; \<open>rdma\<close> and
  \<open>imm\<close> are the two unions, \<open>None\<close> where the code leaves the default.
\<close>

record ibv_send_wr =
  swr_wr_id :: u64
  swr_sg_list :: "ibv_sge list"
  swr_num_sge :: u32
  swr_opcode :: ibv_wr_opcode
  swr_signaled :: bool
  swr_rdma :: "(u64 \<times> u32) option"
  swr_imm :: "u32 option"

record ibv_recv_wr =
  rwr_wr_id :: u64
  rwr_sg_list :: "ibv_sge list"
  rwr_num_sge :: u32

datatype ibv_qp_state = IBV_QPS_INIT | IBV_QPS_RTR | IBV_QPS_RTS

datatype ibv_qp_attr_mask =
    IBV_QP_STATE | IBV_QP_PKEY_INDEX | IBV_QP_PORT | IBV_QP_ACCESS_FLAGS | IBV_QP_AV
  | IBV_QP_PATH_MTU | IBV_QP_DEST_QPN | IBV_QP_RQ_PSN | IBV_QP_MAX_DEST_RD_ATOMIC
  | IBV_QP_MIN_RNR_TIMER | IBV_QP_TIMEOUT | IBV_QP_RETRY_CNT | IBV_QP_RNR_RETRY
  | IBV_QP_MAX_QP_RD_ATOMIC | IBV_QP_SQ_PSN

record ibv_ah_attr =
  ah_dlid :: u16
  ah_is_global :: u8
  ah_sl :: u8
  ah_src_path_bits :: u8
  ah_port_num :: u8

record ibv_qp_attr =
  qa_qp_state :: ibv_qp_state
  qa_pkey_index :: u16
  qa_port_num :: u8
  qa_qp_access_flags :: u32
  qa_path_mtu :: u8
  qa_dest_qp_num :: u32
  qa_rq_psn :: u32
  qa_max_dest_rd_atomic :: u8
  qa_min_rnr_timer :: u8
  qa_ah_attr :: ibv_ah_attr
  qa_timeout :: u8
  qa_retry_cnt :: u8
  qa_rnr_retry :: u8
  qa_max_rd_atomic :: u8
  qa_sq_psn :: u32

record ibv_qp_cap =
  cap_max_send_wr :: u32
  cap_max_recv_wr :: u32
  cap_max_send_sge :: u32
  cap_max_recv_sge :: u32
  cap_max_inline_data :: u32

text \<open>The queue pair type is always \<open>IBV_QPT_RC\<close>; \<open>sq_sig_all\<close> is 0.\<close>

record ibv_qp_init_attr =
  ia_send_cq :: nat
  ia_recv_cq :: nat
  ia_cap :: ibv_qp_cap
  ia_sq_sig_all :: nat

record ibv_mr =
  mr_addr :: usize
  mr_length :: usize
  mr_lkey :: u32
  mr_rkey :: u32

datatype ibv_port_state = IBV_PORT_ACTIVE | IBV_PORT_ARMED | IBV_PORT_OTHER string

record access_consts =
  IBV_ACCESS_LOCAL_WRITE :: u32
  IBV_ACCESS_REMOTE_WRITE :: u32
  IBV_ACCESS_REMOTE_READ :: u32

section \<open>The foreign functions\<close>

text \<open>
  Handles (device contexts, protection domains, completion queues, queue pairs) are numbers.  A
  function that returns a pointer returns \<open>None\<close> for a null pointer.  \<open>v_poll_cq cq ne buf\<close>
  returns the count (negative on error) and the buffer after the call.  \<open>v_volatile_u64 a\<close> reads a
  64-bit cell that the device writes by DMA; \<open>v_now\<close> reads the monotonic clock in nanoseconds.
  The array of \<open>ibv_get_device_list\<close> is the list of its device pointers; a device name is the bytes
  before the terminating zero.
\<close>

record 'h verbs =
  v_errno_consts :: libc_errno
  v_access_consts :: access_consts
  v_little_endian :: bool
  v_default_wc :: ibv_wc
  v_default_ah :: ibv_ah_attr
  v_default_qp_attr :: ibv_qp_attr
  v_last_errno :: "'h \<Rightarrow> int option"
  v_create_cq :: "nat \<Rightarrow> int \<Rightarrow> 'h \<Rightarrow> nat option \<times> 'h"
  v_poll_cq :: "nat \<Rightarrow> int \<Rightarrow> ibv_wc list \<Rightarrow> 'h \<Rightarrow> (int \<times> ibv_wc list) \<times> 'h"
  v_create_qp :: "nat \<Rightarrow> ibv_qp_init_attr \<Rightarrow> 'h \<Rightarrow> (nat \<times> u32) option \<times> 'h"
  v_modify_qp :: "nat \<Rightarrow> ibv_qp_attr \<Rightarrow> ibv_qp_attr_mask list \<Rightarrow> 'h \<Rightarrow> int \<times> 'h"
  v_post_send :: "nat \<Rightarrow> ibv_send_wr \<Rightarrow> 'h \<Rightarrow> int \<times> 'h"
  v_post_recv :: "nat \<Rightarrow> ibv_recv_wr \<Rightarrow> 'h \<Rightarrow> int \<times> 'h"
  v_alloc_pd :: "nat \<Rightarrow> 'h \<Rightarrow> nat option \<times> 'h"
  v_reg_mr :: "nat \<Rightarrow> usize \<Rightarrow> usize \<Rightarrow> u32 \<Rightarrow> 'h \<Rightarrow> ibv_mr option \<times> 'h"
  v_reg_dmabuf_mr :: "nat \<Rightarrow> u64 \<Rightarrow> usize \<Rightarrow> u64 \<Rightarrow> int \<Rightarrow> u32 \<Rightarrow> 'h \<Rightarrow> ibv_mr option \<times> 'h"
  v_get_device_list :: "'h \<Rightarrow> (nat list option \<times> int) \<times> 'h"
  v_free_device_list :: "nat list \<Rightarrow> 'h \<Rightarrow> 'h"
  v_device_name :: "nat \<Rightarrow> string option"
  v_device_guid :: "nat \<Rightarrow> u64"
  v_context_device :: "nat \<Rightarrow> nat"
  v_open_device :: "nat \<Rightarrow> 'h \<Rightarrow> nat option \<times> 'h"
  v_close_device :: "nat \<Rightarrow> 'h \<Rightarrow> int \<times> 'h"
  v_dealloc_pd :: "nat \<Rightarrow> 'h \<Rightarrow> int \<times> 'h"
  v_destroy_cq :: "nat \<Rightarrow> 'h \<Rightarrow> int \<times> 'h"
  v_destroy_qp :: "nat \<Rightarrow> 'h \<Rightarrow> int \<times> 'h"
  v_dereg_mr :: "ibv_mr \<Rightarrow> 'h \<Rightarrow> int \<times> 'h"
  v_query_port :: "nat \<Rightarrow> u8 \<Rightarrow> 'h \<Rightarrow> (int \<times> ibv_port_state \<times> u16) \<times> 'h"
  v_volatile_u64 :: "u64 \<Rightarrow> 'h \<Rightarrow> u64 \<times> 'h"
  v_now :: "'h \<Rightarrow> nat \<times> 'h"

text \<open>
  \<open>IbvError::from_errno_with_msg(io::Error::last_os_error().raw_os_error().expect(..), msg)\<close>, the
  error of a call that returned a null pointer; the \<open>expect\<close> is the panic.
\<close>

definition null_pointer_error :: "'h verbs \<Rightarrow> 'h \<Rightarrow> string \<Rightarrow> ('a, ibv_error) outcome" where
  "null_pointer_error v h msg =
     (case v_last_errno v h of
        None \<Rightarrow> Panic
      | Some errno \<Rightarrow> Err (from_errno_with_msg (v_errno_consts v) errno msg))"

lemma null_pointer_error_not_Ok [simp]: "null_pointer_error v h msg \<noteq> Ok a"
  by (simp add: null_pointer_error_def split: option.splits)

end
