(* ===== verification/Device.thy ===== *)
theory Device
  imports Verbs
begin

text \<open>
  \<open>src/ibverbs/device/\<close>: the port query that guards a context and gives the LID of an endpoint
  (\<open>context.rs\<close>), and the GUID wrapper (\<open>guid.rs\<close>).
\<close>

section \<open>context.rs\<close>

record dev_context =
  ctx_handle :: nat

definition IB_PORT :: u8 where
  "IB_PORT = 1"

text \<open>\<open>ContextInner::query_port\<close>; of the port attributes only the LID is used by callers.\<close>

definition query_port :: "'h verbs \<Rightarrow> dev_context \<Rightarrow> ('h, u16, ibv_error) comp" where
  "query_port v ctx h =
     (case v_query_port v (ctx_handle ctx) IB_PORT h of
        ((errno, state, lid), h') \<Rightarrow>
          if errno \<noteq> 0
          then (Err (from_errno_with_msg (v_errno_consts v) errno ''Failed to query port''), h')
          else
            (case state of
               IBV_PORT_ACTIVE \<Rightarrow> (Ok lid, h')
             | IBV_PORT_ARMED \<Rightarrow> (Ok lid, h')
             | IBV_PORT_OTHER s \<Rightarrow>
                 (Err (Resource (''Port is in state '' @ s @ '' (expected ACTIVE or ARMED)'')), h')))"

section \<open>protection_domain.rs\<close>

record protection_domain =
  pd_context :: dev_context
  pd_handle :: nat

definition pd_allocate :: "'h verbs \<Rightarrow> dev_context \<Rightarrow> ('h, protection_domain, ibv_error) comp" where
  "pd_allocate v ctx h =
     (case v_alloc_pd v (ctx_handle ctx) h of
        (None, h') \<Rightarrow> (null_pointer_error v h' ''Failed to allocate protection domain'', h')
      | (Some p, h') \<Rightarrow> (Ok \<lparr>pd_context = ctx, pd_handle = p\<rparr>, h'))"

section \<open>guid.rs\<close>

text \<open>The eight raw bytes, most significant first by the type's contract.\<close>

datatype guid = Guid "u8 list"

fun guid_raw :: "guid \<Rightarrow> u8 list" where
  "guid_raw (Guid raw) = raw"

definition guid_from_u64 :: "u64 \<Rightarrow> guid" where
  "guid_from_u64 g = Guid (be_bytes 8 (unat g))"

definition guid_to_u64 :: "guid \<Rightarrow> u64" where
  "guid_to_u64 g = word_of_nat (from_be_bytes (guid_raw g))"

text \<open>Indexing the array of eight bytes; \<open>from_be_bytes\<close> of the zero-padded upper three.\<close>

definition guid_oui :: "guid \<Rightarrow> u32" where
  "guid_oui g =
     word_of_nat (from_be_bytes [0, guid_raw g ! 0, guid_raw g ! 1, guid_raw g ! 2])"

definition guid_is_reserved :: "guid \<Rightarrow> bool" where
  "guid_is_reserved g \<longleftrightarrow> guid_raw g = replicate 8 0"

text \<open>
  \<open>Device::guid\<close>: \<open>raw_guid\<close> is what \<open>ibv_get_device_guid\<close> returns, a \<open>__be64\<close>.
\<close>

definition device_guid :: "'h verbs \<Rightarrow> u64 \<Rightarrow> ('h, guid, ibv_error) comp" where
  "device_guid v raw_guid h =
     (let guid = guid_from_u64 raw_guid in
      if guid_is_reserved guid
      then (null_pointer_error v h ''GUID is reserved or invalid'', h)
      else (Ok guid, h))"

text \<open>
  The \<open>u64\<close> that holds the network-order bytes \<open>bs\<close> in memory, as the host reads it: a big-endian
  host reads them in order, a little-endian host reversed.
\<close>

definition be64_in_memory :: "bool \<Rightarrow> u8 list \<Rightarrow> u64" where
  "be64_in_memory le bs = word_of_nat (from_be_bytes (if le then rev bs else bs))"

section \<open>Lemmas\<close>

lemma from_be_bytes_8: "length bs = 8 \<Longrightarrow> unat (word_of_nat (from_be_bytes bs) :: u64) = from_be_bytes bs"
  using from_be_bytes_bound [of bs] by (simp add: unat_of_nat)

lemma length_guid_from_u64 [simp]: "length (guid_raw (guid_from_u64 g)) = 8"
  by (simp add: guid_from_u64_def)

lemma guid_to_from: "guid_to_u64 (guid_from_u64 g) = g"
  using unat_u64_bound [of g] by (simp add: guid_to_u64_def guid_from_u64_def)

lemma guid_from_to:
  assumes "length bs = 8"
  shows "guid_from_u64 (guid_to_u64 (Guid bs)) = Guid bs"
  using assms be_bytes_from_be_bytes [of bs]
  by (simp add: guid_to_u64_def guid_from_u64_def from_be_bytes_8)

lemma guid_from_be64_in_memory:
  assumes "length bs = 8"
  shows "guid_from_u64 (be64_in_memory le bs) = Guid (if le then rev bs else bs)"
  using assms be_bytes_from_be_bytes [of bs] be_bytes_from_be_bytes [of "rev bs"]
  by (simp add: guid_from_u64_def be64_in_memory_def from_be_bytes_8)

lemma query_port_Ok:
  "query_port v ctx h = (Ok lid, h') \<longleftrightarrow>
     (\<exists>state. v_query_port v (ctx_handle ctx) IB_PORT h = ((0, state, lid), h') \<and>
              state \<in> {IBV_PORT_ACTIVE, IBV_PORT_ARMED})"
  by (auto simp: query_port_def split: prod.splits ibv_port_state.splits if_splits)

end
