(* ===== verification/Rust_Std.thy ===== *)
theory Rust_Std
  imports Prelude
begin

text \<open>
  The parts of Rust's standard library that the code computes with and that HOL does not have:
  \<open>slice::binary_search\<close> (its loop as in \<open>core::slice\<close>), \<open>next_power_of_two\<close> and \<open>ilog2\<close>, and
  \<open>is_sorted\<close> and \<open>windows(2)\<close> of slices.  Each comes with the specification its documentation gives.
\<close>

section \<open>binary_search\<close>

text \<open>
  The loop keeps a window of \<open>size\<close> (here \<open>sz\<close>) elements from \<open>base\<close>; \<open>search_base\<close> is the base it ends with.
\<close>

function search_base :: "('a::linorder) list \<Rightarrow> 'a \<Rightarrow> nat \<Rightarrow> nat \<Rightarrow> nat" where
  "search_base xs x base sz =
     (if 1 < sz then
        let half = sz div 2; mid = base + half in
        search_base xs x (if x < xs ! mid then base else mid) (sz - half)
      else base)"
  by pat_completeness auto
termination
  by (relation "measure (\<lambda>(xs, x, base, sz). sz)") auto

declare search_base.simps [simp del]

definition binary_search :: "('a::linorder) list \<Rightarrow> 'a \<Rightarrow> (nat, nat) outcome" where
  "binary_search xs x =
     (if xs = [] then Err 0
      else
        let base = search_base xs x 0 (length xs) in
        if xs ! base = x then Ok base
        else Err (base + (if xs ! base < x then 1 else 0)))"

definition search_window :: "('a::linorder) list \<Rightarrow> 'a \<Rightarrow> nat \<Rightarrow> nat \<Rightarrow> bool" where
  "search_window xs x base sz \<longleftrightarrow>
     0 < sz \<and> base + sz \<le> length xs \<and> (base = 0 \<or> xs ! base \<le> x) \<and>
     (\<forall>i. base + sz \<le> i \<longrightarrow> i < length xs \<longrightarrow> x < xs ! i)"

lemma search_window_step:
  assumes "sorted xs" "search_window xs x base sz" "1 < sz"
  shows "search_window xs x (if x < xs ! (base + sz div 2) then base else base + sz div 2)
           (sz - sz div 2)"
proof (cases "x < xs ! (base + sz div 2)")
  case True
  have "x < xs ! i" if "base + (sz - sz div 2) \<le> i" "i < length xs" for i
  proof -
    have "base + sz div 2 \<le> i" using that by linarith
    then have "xs ! (base + sz div 2) \<le> xs ! i"
      using assms(1) that(2) by (simp add: sorted_nth_mono)
    with True show ?thesis by simp
  qed
  with True assms show ?thesis by (auto simp: search_window_def)
next
  case False
  with assms show ?thesis by (auto simp: search_window_def)
qed

lemma search_base_window:
  assumes "sorted xs" "search_window xs x base sz"
  shows "search_window xs x (search_base xs x base sz) 1"
  using assms
proof (induction xs x base sz rule: search_base.induct)
  case (1 xs x base sz)
  show ?case
  proof (cases "1 < sz")
    case True
    have "search_window xs x
        (search_base xs x (if x < xs ! (base + sz div 2) then base else base + sz div 2)
           (sz - sz div 2)) 1"
      by (rule "1.IH" [OF True refl refl "1.prems"(1)])
        (rule search_window_step [OF "1.prems" True])
    then show ?thesis
      using True by (simp add: search_base.simps [of xs x base sz] Let_def)
  next
    case False
    with "1.prems" show ?thesis
      by (simp add: search_base.simps [of xs x base sz] search_window_def)
  qed
qed

lemma search_base_final:
  assumes "sorted xs" "xs \<noteq> []"
  shows "search_window xs x (search_base xs x 0 (length xs)) 1"
  using assms by (intro search_base_window) (auto simp: search_window_def)

lemma binary_search_Ok:
  assumes "binary_search xs x = Ok i"
  shows "xs ! i = x"
  using assms by (auto simp: binary_search_def Let_def split: if_splits)

lemma binary_search_Ok_bound:
  assumes "sorted xs" "binary_search xs x = Ok i"
  shows "i < length xs"
  using assms search_base_final [OF assms(1), of x]
  by (auto simp: binary_search_def Let_def search_window_def split: if_splits)

lemma binary_search_Err:
  assumes "sorted xs" "binary_search xs x = Err i"
  shows "x \<notin> set xs \<and> i \<le> length xs \<and> (\<forall>j < i. xs ! j < x) \<and>
         (\<forall>j. i \<le> j \<longrightarrow> j < length xs \<longrightarrow> x < xs ! j)"
proof (cases "xs = []")
  case True
  with assms(2) show ?thesis by (simp add: binary_search_def)
next
  case False
  let ?b = "search_base xs x 0 (length xs)"
  have w: "?b < length xs" "?b = 0 \<or> xs ! ?b \<le> x"
    "\<And>j. ?b < j \<Longrightarrow> j < length xs \<Longrightarrow> x < xs ! j"
    using search_base_final [OF assms(1) False, of x] by (auto simp: search_window_def)
  have ne: "xs ! ?b \<noteq> x" and i: "i = ?b + (if xs ! ?b < x then 1 else 0)"
    using assms(2) False by (auto simp: binary_search_def Let_def split: if_splits)
  have lo: "xs ! j < x" if "j < i" for j
  proof -
    have lt: "xs ! ?b < x"
      using that i w(2) ne by (auto split: if_splits)
    have "xs ! j \<le> xs ! ?b"
      using that i w(1) assms(1) by (auto intro: sorted_nth_mono split: if_splits)
    with lt show ?thesis by simp
  qed
  have hi: "x < xs ! j" if "i \<le> j" "j < length xs" for j
  proof (cases "?b < j")
    case True
    with that show ?thesis by (simp add: w(3))
  next
    case False
    with that i have "j = ?b" "\<not> xs ! ?b < x" by (auto split: if_splits)
    with ne show ?thesis by simp
  qed
  have "x \<notin> set xs"
  proof
    assume "x \<in> set xs"
    then obtain j where "j < length xs" "xs ! j = x" by (rule nth_the_index)
    then show False using lo [of j] hi [of j] by (cases "j < i") auto
  qed
  moreover have "i \<le> length xs"
    using i w(1) by (simp split: if_splits)
  ultimately show ?thesis
    using lo hi by blast
qed

lemma binary_search_cases:
  obtains i where "binary_search xs x = Ok i" | i where "binary_search xs x = Err i"
  by (cases "binary_search xs x") (auto simp: binary_search_def Let_def split: if_splits)

lemma binary_search_member:
  assumes "sorted xs"
  shows "(\<exists>i. binary_search xs x = Ok i) \<longleftrightarrow> x \<in> set xs"
proof
  assume "\<exists>i. binary_search xs x = Ok i"
  then obtain i where "binary_search xs x = Ok i" ..
  with binary_search_Ok binary_search_Ok_bound [OF assms] show "x \<in> set xs"
    by fastforce
next
  assume x: "x \<in> set xs"
  show "\<exists>i. binary_search xs x = Ok i"
  proof (rule binary_search_cases [of xs x])
    fix i assume "binary_search xs x = Err i"
    with x binary_search_Err [OF assms] show ?thesis by blast
  qed blast
qed

lemma binary_search_nth:
  assumes "sorted xs" "distinct xs" "i < length xs"
  shows "binary_search xs (xs ! i) = Ok i"
proof -
  have "xs ! i \<in> set xs" using assms(3) by simp
  then obtain j where j: "binary_search xs (xs ! i) = Ok j"
    using binary_search_member [OF assms(1)] by blast
  then have "xs ! j = xs ! i" "j < length xs"
    using binary_search_Ok binary_search_Ok_bound [OF assms(1)] by blast+
  with assms j show ?thesis by (simp add: nth_eq_iff_index_eq)
qed

section \<open>ilog2 and next_power_of_two\<close>

text \<open>\<open>ilog2\<close> of a positive number; the code never applies it to 0, where Rust panics.\<close>

fun ilog2 :: "nat \<Rightarrow> nat" where
  "ilog2 n = (if n \<le> 1 then 0 else Suc (ilog2 (n div 2)))"

declare ilog2.simps [simp del]

definition next_power_of_two :: "nat \<Rightarrow> nat" where
  "next_power_of_two n = (if n \<le> 1 then 1 else 2 ^ Suc (ilog2 (n - 1)))"

lemma ilog2_bounds:
  assumes "0 < n"
  shows "2 ^ ilog2 n \<le> n \<and> n < 2 ^ Suc (ilog2 n)"
  using assms
proof (induction n rule: ilog2.induct)
  case (1 n)
  show ?case
  proof (cases "n \<le> 1")
    case True
    with "1.prems" have "n = 1" by simp
    then show ?thesis by (simp add: ilog2.simps)
  next
    case False
    then have "2 ^ ilog2 (n div 2) \<le> n div 2 \<and> n div 2 < 2 ^ Suc (ilog2 (n div 2))"
      by (intro "1.IH") auto
    with False show ?thesis by (auto simp: ilog2.simps [of n])
  qed
qed

lemma ilog2_unique:
  assumes "2 ^ k \<le> n" "n < 2 ^ Suc k"
  shows "ilog2 n = k"
proof -
  have "0 < n" using assms(1) by (metis gr0I not_le zero_less_numeral zero_less_power)
  then have b: "2 ^ ilog2 n \<le> n" "n < 2 ^ Suc (ilog2 n)"
    using ilog2_bounds by auto
  have "(2::nat) ^ ilog2 n < 2 ^ Suc k" "(2::nat) ^ k < 2 ^ Suc (ilog2 n)"
    using assms b by (blast intro: le_less_trans)+
  then show ?thesis
    by (metis less_Suc_eq_le one_less_numeral_iff order_antisym power_strict_increasing_iff
        semiring_norm(76))
qed

lemma ilog2_power [simp]: "ilog2 (2 ^ k) = k"
  by (rule ilog2_unique) auto

lemma next_power_of_two_is_power: "next_power_of_two n = 2 ^ ilog2 (next_power_of_two n)"
proof (cases "n \<le> 1")
  case True
  then show ?thesis by (simp add: next_power_of_two_def ilog2.simps)
next
  case False
  then have "next_power_of_two n = 2 ^ Suc (ilog2 (n - 1))"
    by (simp add: next_power_of_two_def)
  then show ?thesis by (simp only: ilog2_power)
qed

lemma next_power_of_two_bounds:
  "n \<le> next_power_of_two n" "1 < n \<Longrightarrow> next_power_of_two n < 2 * n"
proof -
  show "n \<le> next_power_of_two n"
  proof (cases "n \<le> 1")
    case False
    then have "n - 1 < 2 ^ Suc (ilog2 (n - 1))" by (intro ilog2_bounds [THEN conjunct2]) auto
    with False show ?thesis by (simp add: next_power_of_two_def)
  qed (simp add: next_power_of_two_def)
  assume "1 < n"
  then have "2 ^ ilog2 (n - 1) \<le> n - 1" by (intro ilog2_bounds [THEN conjunct1]) auto
  with \<open>1 < n\<close> show "next_power_of_two n < 2 * n" by (simp add: next_power_of_two_def)
qed

section \<open>is_sorted and windows(2)\<close>

fun is_sorted :: "('a::linorder) list \<Rightarrow> bool" where
  "is_sorted (x # y # zs) = (x \<le> y \<and> is_sorted (y # zs))"
| "is_sorted _ = True"

fun windows2_any_eq :: "'a list \<Rightarrow> bool" where
  "windows2_any_eq (x # y # zs) = (x = y \<or> windows2_any_eq (y # zs))"
| "windows2_any_eq _ = False"

lemma is_sorted_iff: "is_sorted xs \<longleftrightarrow> sorted xs"
  by (induction xs rule: is_sorted.induct) (auto intro: order.trans)

lemma windows2_any_eq_iff:
  assumes "sorted xs"
  shows "windows2_any_eq xs \<longleftrightarrow> \<not> distinct xs"
  using assms by (induction xs rule: windows2_any_eq.induct) fastforce+

section \<open>UTF-8\<close>

text \<open>\<open>str::from_utf8\<close> accepts exactly the well-formed byte sequences of the Unicode standard (Table 3-7).\<close>

definition in_bytes :: "nat \<Rightarrow> nat \<Rightarrow> nat \<Rightarrow> bool" where
  "in_bytes lo hi b \<longleftrightarrow> lo \<le> b \<and> b \<le> hi"

definition utf8_second :: "nat \<Rightarrow> nat \<Rightarrow> bool" where
  "utf8_second a b \<longleftrightarrow>
     (if a = 224 then in_bytes 160 191 b
      else if a = 237 then in_bytes 128 159 b
      else if a = 240 then in_bytes 144 191 b
      else if a = 244 then in_bytes 128 143 b
      else in_bytes 128 191 b)"

fun utf8_valid :: "nat list \<Rightarrow> bool" where
  "utf8_valid [] = True"
| "utf8_valid (a # bs) =
     (if a < 128 then utf8_valid bs
      else if in_bytes 194 223 a then (case bs of b # rest \<Rightarrow> utf8_second a b \<and> utf8_valid rest | _ \<Rightarrow> False)
      else if in_bytes 224 239 a then
        (case bs of b # c # rest \<Rightarrow> utf8_second a b \<and> in_bytes 128 191 c \<and> utf8_valid rest | _ \<Rightarrow> False)
      else if in_bytes 240 244 a then
        (case bs of b # c # d # rest \<Rightarrow>
           utf8_second a b \<and> in_bytes 128 191 c \<and> in_bytes 128 191 d \<and> utf8_valid rest | _ \<Rightarrow> False)
      else False)"

lemma utf8_valid_ascii: "\<forall>b \<in> set bs. b < 128 \<Longrightarrow> utf8_valid bs"
  by (induction bs rule: utf8_valid.induct) simp_all

section \<open>I/O errors\<close>

text \<open>\<open>std::io::Error\<close>: its kind and its message; \<open>KindOther\<close> is every kind the code does not name.\<close>

datatype io_error_kind = KindInvalidInput | KindInvalidData | KindNotFound | KindOther

datatype io_error = IoError (io_kind: io_error_kind) string

end
