(* ===== verification/Qp_Config.thy ===== *)
theory Qp_Config
  imports Rust_Std
begin

text \<open>
  \<open>src/ibverbs/queue_pair/config.rs\<close>: the typed wrappers of the queue pair's tuning knobs.  A
  \<open>Duration\<close> is its number of nanoseconds.  The tuple fields of the newtypes are private, so the
  values that exist are those the constructors below return; \<open>AckTimeout\<close> and \<open>MaxRnrRetries\<close> are
  public enums whose \<open>Limited\<close> variant takes any byte.
\<close>

section \<open>PacketSequenceNumber and MaximumTransferUnit\<close>

datatype psn = PacketSequenceNumber u32

definition psn_new :: "u32 \<Rightarrow> psn option" where
  "psn_new n = (if unat n < 2 ^ 24 then Some (PacketSequenceNumber n) else None)"

fun psn_code :: "psn \<Rightarrow> u32" where
  "psn_code (PacketSequenceNumber n) = n"

definition psn_default :: psn where
  "psn_default = PacketSequenceNumber 0"

datatype mtu = MTU256 | MTU512 | MTU1024 | MTU2048 | MTU4096

fun mtu_code :: "mtu \<Rightarrow> u8" where
  "mtu_code MTU256 = 1"
| "mtu_code MTU512 = 2"
| "mtu_code MTU1024 = 3"
| "mtu_code MTU2048 = 4"
| "mtu_code MTU4096 = 5"

definition mtu_default :: mtu where
  "mtu_default = MTU4096"

section \<open>MinRnrTimer\<close>

datatype min_rnr_timer = MinRnrTimer u8

definition micros :: "nat \<Rightarrow> nat" where
  "micros n = n * 1000"

definition duration_zero :: nat where
  "duration_zero = micros 655360"

definition duration_table :: "nat list" where
  "duration_table = map micros
     [10, 20, 30, 40, 60, 80, 120, 160, 240, 320, 480, 640, 960, 1280, 1920, 2560, 3840, 5120,
      7680, 10240, 15360, 20480, 30720, 40960, 61440, 81920, 122880, 163840, 245760, 327680,
      491520]"

definition rnr_limited :: "u8 \<Rightarrow> min_rnr_timer option" where
  "rnr_limited code = (if code < 32 then Some (MinRnrTimer code) else None)"

definition rnr_min_duration_greater_than :: "nat \<Rightarrow> min_rnr_timer" where
  "rnr_min_duration_greater_than timeout =
     MinRnrTimer
       (case binary_search duration_table timeout of
          Ok idx \<Rightarrow> word_of_nat (idx + 1)
        | Err idx \<Rightarrow> if idx < length duration_table then word_of_nat (idx + 1) else 0
        | _ \<Rightarrow> 0)"

text \<open>\<open>get(code - 1).expect(..)\<close>: the panic of a code above 31.\<close>

fun rnr_duration :: "min_rnr_timer \<Rightarrow> (nat, unit) outcome" where
  "rnr_duration (MinRnrTimer c) =
     (if 0 < c then
        (if unat c - 1 < length duration_table then Ok (duration_table ! (unat c - 1)) else Panic)
      else Ok duration_zero)"

fun rnr_code :: "min_rnr_timer \<Rightarrow> u8" where
  "rnr_code (MinRnrTimer c) = c"

definition rnr_default :: min_rnr_timer where
  "rnr_default = MinRnrTimer 16"

section \<open>MaxRnrRetries\<close>

datatype max_rnr_retries = RnrLimited u8 | RnrUnlimited

definition max_rnr_limited :: "u8 \<Rightarrow> max_rnr_retries option" where
  "max_rnr_limited retries = (if retries < 7 then Some (RnrLimited retries) else None)"

fun max_rnr_count :: "max_rnr_retries \<Rightarrow> u8 option" where
  "max_rnr_count (RnrLimited retries) = Some retries"
| "max_rnr_count RnrUnlimited = None"

fun max_rnr_code :: "max_rnr_retries \<Rightarrow> u8" where
  "max_rnr_code (RnrLimited retries) = retries"
| "max_rnr_code RnrUnlimited = 7"

definition max_rnr_default :: max_rnr_retries where
  "max_rnr_default = RnrLimited 6"

section \<open>AckTimeout\<close>

datatype ack_timeout = AckLimited u8 | AckUnlimited

definition ack_limited :: "u8 \<Rightarrow> ack_timeout option" where
  "ack_limited code = (if 0 < code \<and> code < 32 then Some (AckLimited code) else None)"

definition ack_min_duration_greater_than :: "nat \<Rightarrow> ack_timeout option" where
  "ack_min_duration_greater_than timeout =
     (let code = ilog2 (next_power_of_two (timeout div 4096)) in
      if 0 < code \<and> code < 32 then Some (AckLimited (word_of_nat code)) else None)"

text \<open>
  \<open>4096u64 << code\<close>: a shift of 64 or more panics with overflow checks and otherwise takes the
  amount modulo 64; bits shifted out are lost.
\<close>

fun ack_duration :: "bool \<Rightarrow> ack_timeout \<Rightarrow> (nat option, unit) outcome" where
  "ack_duration oc (AckLimited c) =
     (if oc \<and> 64 \<le> unat c then Panic
      else Ok (Some (unat (push_bit (unat c mod 64) (4096 :: u64)))))"
| "ack_duration oc AckUnlimited = Ok None"

fun ack_code :: "ack_timeout \<Rightarrow> u8" where
  "ack_code (AckLimited code) = code"
| "ack_code AckUnlimited = 0"

definition ack_default :: ack_timeout where
  "ack_default = AckLimited 4"

section \<open>MaxAckRetries\<close>

datatype max_ack_retries = MaxAckRetries u8

definition max_ack_limited :: "u8 \<Rightarrow> max_ack_retries option" where
  "max_ack_limited retries = (if retries \<le> 7 then Some (MaxAckRetries retries) else None)"

fun max_ack_code :: "max_ack_retries \<Rightarrow> u8" where
  "max_ack_code (MaxAckRetries r) = r"

definition max_ack_default :: max_ack_retries where
  "max_ack_default = MaxAckRetries 6"

section \<open>Lemmas\<close>

lemma duration_table_sorted: "sorted duration_table" "distinct duration_table"
  by (simp_all add: duration_table_def micros_def)

lemma length_duration_table [simp]: "length duration_table = 31"
  by (simp add: duration_table_def)

lemma unat_word_of_nat_u8: "n < 256 \<Longrightarrow> unat (word_of_nat n :: u8) = n"
  by (simp add: unat_of_nat)

text \<open>The timers there are: the 31 entries of the table, in ascending order, and the longest one.\<close>

lemma duration_table_mono: "i \<le> j \<Longrightarrow> j < 31 \<Longrightarrow> duration_table ! i \<le> duration_table ! j"
  by (rule sorted_nth_mono [OF duration_table_sorted(1)]) simp_all

lemma duration_table_below: "k < 31 \<Longrightarrow> duration_table ! k < micros 655360"
  using duration_table_mono [of k 30] by (simp add: duration_table_def micros_def)

lemma rnr_duration_cases:
  assumes "rnr_limited c \<noteq> None" "rnr_duration (MinRnrTimer c) = Ok d"
  obtains (entry) "0 < unat c" "unat c - 1 < 31" "d = duration_table ! (unat c - 1)"
    | (longest) "d = micros 655360"
proof (cases "0 < c")
  case True
  have "unat c < 32" using assms(1) by (simp add: rnr_limited_def word_less_nat_alt split: if_splits)
  with True assms(2) show ?thesis by (intro entry) (auto simp: word_less_nat_alt split: if_splits)
qed (use assms(2) longest in \<open>simp add: duration_zero_def\<close>)

text \<open>The code chosen by the search, in terms of the table.\<close>

lemma rnr_code_chosen:
  fixes t :: nat
  defines "c \<equiv> unat (rnr_code (rnr_min_duration_greater_than t))"
  shows "(t \<le> duration_table ! 30 \<longrightarrow>
            0 < c \<and> c \<le> 31 \<and> t \<le> duration_table ! (c - 1) \<and>
            (\<forall>j < c - 1. duration_table ! j < t)) \<and>
         (duration_table ! 30 < t \<longrightarrow> c = 0)"
proof (rule binary_search_cases [of duration_table t])
  fix i assume s: "binary_search duration_table t = Ok i"
  have i: "duration_table ! i = t" "i < 31"
    using binary_search_Ok [OF s] binary_search_Ok_bound [OF duration_table_sorted(1) s] by auto
  have c: "c = i + 1"
    using i(2) by (simp add: c_def rnr_min_duration_greater_than_def s unat_word_of_nat_u8
        del: of_nat_Suc of_nat_add)
  have "duration_table ! j < t" if "j < i" for j
  proof -
    have "duration_table ! j \<le> duration_table ! i"
      using that i(2) by (intro sorted_nth_mono [OF duration_table_sorted(1)]) auto
    moreover have "duration_table ! j \<noteq> duration_table ! i"
      using that i(2) duration_table_sorted(2) by (simp add: nth_eq_iff_index_eq)
    ultimately show ?thesis using i(1) by simp
  qed
  moreover have "t \<le> duration_table ! 30"
    using sorted_nth_mono [OF duration_table_sorted(1), of i 30] i by simp
  ultimately show ?thesis using c i by auto
next
  fix i assume s: "binary_search duration_table t = Err i"
  have e: "i \<le> 31" "\<forall>j < i. duration_table ! j < t"
    "\<forall>j. i \<le> j \<longrightarrow> j < 31 \<longrightarrow> t < duration_table ! j"
    using binary_search_Err [OF duration_table_sorted(1) s] by auto
  show ?thesis
  proof (cases "i < 31")
    case True
    then have c: "c = i + 1"
      by (simp add: c_def rnr_min_duration_greater_than_def s unat_word_of_nat_u8
          del: of_nat_Suc of_nat_add)
    have "t < duration_table ! i" "t < duration_table ! 30"
      using e(3) True by auto
    with True e(2) c show ?thesis by auto
  next
    case False
    then have "c = 0"
      by (simp add: c_def rnr_min_duration_greater_than_def s)
    moreover have "duration_table ! 30 < t"
      using False e(1,2) by simp
    ultimately show ?thesis by simp
  qed
qed

text \<open>The 4.096 microsecond units an acknowledgement timeout is rounded down to.\<close>

lemma ack_min_duration_Some:
  "ack_min_duration_greater_than t = Some a \<longleftrightarrow>
     (\<exists>k. 0 < k \<and> k < 32 \<and> a = AckLimited (word_of_nat k) \<and>
          next_power_of_two (t div 4096) = 2 ^ k)"
proof -
  have p: "next_power_of_two (t div 4096) = 2 ^ k \<longleftrightarrow>
             ilog2 (next_power_of_two (t div 4096)) = k" for k
    by (metis ilog2_power next_power_of_two_is_power)
  show ?thesis
    by (auto simp: ack_min_duration_greater_than_def Let_def p)
qed

lemma ack_duration_limited:
  assumes "k < 52"
  shows "ack_duration oc (AckLimited (word_of_nat k)) = Ok (Some (4096 * 2 ^ k))"
proof -
  have k: "unat (word_of_nat k :: u8) = k"
    using assms by (intro unat_word_of_nat_u8) simp
  have "(2::nat) ^ k \<le> 2 ^ 51"
    using assms by (intro power_increasing) auto
  then have "(4096::nat) * 2 ^ k < 2 ^ 64"
    by simp
  moreover have "push_bit k (4096 :: u64) = word_of_nat (4096 * 2 ^ k)"
    by (simp add: push_bit_eq_mult)
  ultimately have "unat (push_bit k (4096 :: u64)) = 4096 * 2 ^ k"
    by (simp add: unat_of_nat del: of_nat_mult)
  with assms k show ?thesis
    by simp
qed

lemma next_power_of_two_eq_power:
  assumes "next_power_of_two n = 2 ^ k" "0 < k"
  shows "n \<le> 2 ^ k \<and> 2 ^ (k - 1) < n"
proof -
  have "1 < n"
  proof (rule ccontr)
    assume "\<not> 1 < n"
    then have "next_power_of_two n = 1"
      by (simp add: next_power_of_two_def)
    with assms show False
      by (metis One_nat_def nat_power_eq_Suc_0_iff nat_neq_iff not_less_zero numeral_eq_one_iff
          semiring_norm(85))
  qed
  moreover have "(2::nat) ^ k = 2 * 2 ^ (k - 1)"
    using assms(2) by (cases k) auto
  ultimately show ?thesis
    using next_power_of_two_bounds [of n] assms(1) by simp
qed

end
