(* ===== verification/Access_Flags.thy ===== *)
theory Access_Flags
  imports Verbs
begin

text \<open>
  \<open>src/ibverbs/access_config.rs\<close>: the permission mask.  The bit values are constants of
  \<open>ibverbs-sys\<close> (record \<open>access_consts\<close>); the unit tests of the file state that they are 1, 2 and
  4, which \<open>access_bits_documented\<close> says for a lemma that needs it.
\<close>

datatype access_flags = AccessFlags u32

fun access_code :: "access_flags \<Rightarrow> u32" where
  "access_code (AccessFlags w) = w"

definition access_new :: access_flags where
  "access_new = AccessFlags 0"

definition with_local_write :: "access_consts \<Rightarrow> access_flags \<Rightarrow> access_flags" where
  "with_local_write c f = AccessFlags (access_code f OR IBV_ACCESS_LOCAL_WRITE c)"

definition with_remote_read :: "access_consts \<Rightarrow> access_flags \<Rightarrow> access_flags" where
  "with_remote_read c f = AccessFlags (access_code f OR IBV_ACCESS_REMOTE_READ c)"

definition with_remote_write :: "access_consts \<Rightarrow> access_flags \<Rightarrow> access_flags" where
  "with_remote_write c f = AccessFlags (access_code f OR IBV_ACCESS_REMOTE_WRITE c)"

definition access_default :: "access_consts \<Rightarrow> access_flags" where
  "access_default c = with_local_write c access_new"

definition access_bits_documented :: "access_consts \<Rightarrow> bool" where
  "access_bits_documented c \<longleftrightarrow>
     IBV_ACCESS_LOCAL_WRITE c = 1 \<and> IBV_ACCESS_REMOTE_WRITE c = 2 \<and> IBV_ACCESS_REMOTE_READ c = 4"

lemmas access_defs =
  access_new_def with_local_write_def with_remote_read_def with_remote_write_def access_default_def

text \<open>Setting a flag twice changes nothing and the order of the setters does not matter.\<close>

lemma with_flag_idempotent:
  "with_local_write c (with_local_write c f) = with_local_write c f"
  "with_remote_read c (with_remote_read c f) = with_remote_read c f"
  "with_remote_write c (with_remote_write c f) = with_remote_write c f"
  by (simp_all add: access_defs or.assoc)

lemma with_flag_commute:
  "with_remote_read c (with_local_write c f) = with_local_write c (with_remote_read c f)"
  "with_remote_write c (with_local_write c f) = with_local_write c (with_remote_write c f)"
  "with_remote_write c (with_remote_read c f) = with_remote_read c (with_remote_write c f)"
  by (simp_all add: access_defs or.assoc or.commute or.left_commute)

end
