(* ===== verification/Memory.thy ===== *)
theory Memory
  imports Access_Flags
begin

text \<open>
  \<open>src/ibverbs/memory/\<close> and \<open>src/multi_channel/remote_memory_region.rs\<close>: registered regions, the
  scatter/gather elements built from slices of them, and the remote handles with their offset
  arithmetic, checked and unchecked, including the field-navigation macros.

  A slice \<open>&[u8]\<close> is its address and length.  The lifetimes of the elements are Rust's business;
  what is modelled is the numbers that reach the device.
\<close>

section \<open>memory_region.rs\<close>

record memory_region =
  mreg_pd :: nat
  mreg_mr :: ibv_mr

record slice =
  sl_ptr :: usize
  sl_len :: usize

definition mreg_address :: "memory_region \<Rightarrow> usize" where
  "mreg_address m = mr_addr (mreg_mr m)"

definition mreg_length :: "memory_region \<Rightarrow> usize" where
  "mreg_length m = mr_length (mreg_mr m)"

definition mreg_lkey :: "memory_region \<Rightarrow> u32" where
  "mreg_lkey m = mr_lkey (mreg_mr m)"

definition mreg_rkey :: "memory_region \<Rightarrow> u32" where
  "mreg_rkey m = mr_rkey (mreg_mr m)"

definition register_mr_with_access ::
  "'h verbs \<Rightarrow> nat \<Rightarrow> usize \<Rightarrow> usize \<Rightarrow> access_flags \<Rightarrow> ('h, memory_region, ibv_error) comp" where
  "register_mr_with_access v pd address len access h =
     (case v_reg_mr v pd address len (access_code access) h of
        (None, h') \<Rightarrow> (null_pointer_error v h' ''Failed to register memory region'', h')
      | (Some mr, h') \<Rightarrow> (Ok \<lparr>mreg_pd = pd, mreg_mr = mr\<rparr>, h'))"

definition register_local_mr ::
  "'h verbs \<Rightarrow> nat \<Rightarrow> usize \<Rightarrow> usize \<Rightarrow> ('h, memory_region, ibv_error) comp" where
  "register_local_mr v pd address len =
     register_mr_with_access v pd address len (with_local_write (v_access_consts v) access_new)"

definition shared_access :: "access_consts \<Rightarrow> access_flags" where
  "shared_access c = with_remote_write c (with_remote_read c (with_local_write c access_new))"

definition register_shared_mr ::
  "'h verbs \<Rightarrow> nat \<Rightarrow> usize \<Rightarrow> usize \<Rightarrow> ('h, memory_region, ibv_error) comp" where
  "register_shared_mr v pd address len =
     register_mr_with_access v pd address len (shared_access (v_access_consts v))"

definition register_dmabuf_mr_with_access ::
  "'h verbs \<Rightarrow> nat \<Rightarrow> int \<Rightarrow> u64 \<Rightarrow> usize \<Rightarrow> u64 \<Rightarrow> access_flags \<Rightarrow>
     ('h, memory_region, ibv_error) comp" where
  "register_dmabuf_mr_with_access v pd fd offset len iova access h =
     (case v_reg_dmabuf_mr v pd offset len iova fd (access_code access) h of
        (None, h') \<Rightarrow> (null_pointer_error v h' ''Failed to register memory region'', h')
      | (Some mr, h') \<Rightarrow> (Ok \<lparr>mreg_pd = pd, mreg_mr = mr\<rparr>, h'))"

definition register_local_dmabuf_mr ::
  "'h verbs \<Rightarrow> nat \<Rightarrow> int \<Rightarrow> u64 \<Rightarrow> usize \<Rightarrow> u64 \<Rightarrow> ('h, memory_region, ibv_error) comp" where
  "register_local_dmabuf_mr v pd fd offset len iova =
     register_dmabuf_mr_with_access v pd fd offset len iova
       (with_local_write (v_access_consts v) access_new)"

definition register_shared_dmabuf_mr ::
  "'h verbs \<Rightarrow> nat \<Rightarrow> int \<Rightarrow> u64 \<Rightarrow> usize \<Rightarrow> u64 \<Rightarrow> ('h, memory_region, ibv_error) comp" where
  "register_shared_dmabuf_mr v pd fd offset len iova =
     register_dmabuf_mr_with_access v pd fd offset len iova (shared_access (v_access_consts v))"

text \<open>\<open>encloses\<close>: the subtraction is guarded by the early return, so it cannot underflow.\<close>

definition encloses :: "memory_region \<Rightarrow> usize \<Rightarrow> usize \<Rightarrow> bool" where
  "encloses m address len =
     (let mr_start = mreg_address m; data_start = address in
      if data_start < mr_start then False
      else
        let offset = data_start - mr_start;
            remaining = saturating_sub (mreg_length m) offset
        in len \<le> remaining)"

definition encloses_slice :: "memory_region \<Rightarrow> slice \<Rightarrow> bool" where
  "encloses_slice m s = encloses m (sl_ptr s) (sl_len s)"

section \<open>scatter_gather_element.rs\<close>

text \<open>Both element types are transparent wrappers of an \<open>ibv_sge\<close>.\<close>

datatype gather_element = GatherElement (ge_sge: ibv_sge)

datatype scatter_element = ScatterElement (se_sge: ibv_sge)

datatype sge_error = SliceTooBig | SliceNotWithinBounds

definition sge_of :: "memory_region \<Rightarrow> slice \<Rightarrow> ibv_sge" where
  "sge_of m s = \<lparr>sge_addr = sl_ptr s, sge_length = ucast (sl_len s), sge_lkey = mreg_lkey m\<rparr>"

definition gather_new_unchecked :: "memory_region \<Rightarrow> slice \<Rightarrow> gather_element" where
  "gather_new_unchecked m s = GatherElement (sge_of m s)"

definition gather_new_checked ::
  "memory_region \<Rightarrow> slice \<Rightarrow> (gather_element, sge_error) outcome" where
  "gather_new_checked m s =
     (if sl_len s > 0xFFFFFFFF then Err SliceTooBig
      else if \<not> encloses_slice m s then Err SliceNotWithinBounds
      else Ok (gather_new_unchecked m s))"

text \<open>\<open>dbg\<close>: whether \<open>debug_assert!\<close> is compiled in.\<close>

definition gather_new ::
  "bool \<Rightarrow> memory_region \<Rightarrow> slice \<Rightarrow> (gather_element, sge_error) outcome" where
  "gather_new dbg m s =
     (if dbg \<and> \<not> sl_len s \<le> 0xFFFFFFFF then Panic
      else if dbg \<and> \<not> encloses_slice m s then Panic
      else Ok (gather_new_unchecked m s))"

definition scatter_new_unchecked :: "memory_region \<Rightarrow> slice \<Rightarrow> scatter_element" where
  "scatter_new_unchecked m s = ScatterElement (sge_of m s)"

definition scatter_new_checked ::
  "memory_region \<Rightarrow> slice \<Rightarrow> (scatter_element, sge_error) outcome" where
  "scatter_new_checked m s =
     (if sl_len s > 0xFFFFFFFF then Err SliceTooBig
      else if \<not> encloses_slice m s then Err SliceNotWithinBounds
      else Ok (scatter_new_unchecked m s))"

definition scatter_new ::
  "bool \<Rightarrow> memory_region \<Rightarrow> slice \<Rightarrow> (scatter_element, sge_error) outcome" where
  "scatter_new dbg m s =
     (if dbg \<and> \<not> sl_len s \<le> 0xFFFFFFFF then Panic
      else if dbg \<and> \<not> encloses_slice m s then Panic
      else Ok (scatter_new_unchecked m s))"

section \<open>remote_memory_region.rs\<close>

record remote_memory_region =
  rmr_addr :: u64
  rmr_length :: usize
  rmr_rkey :: u32

definition rmr_new :: "u64 \<Rightarrow> usize \<Rightarrow> u32 \<Rightarrow> remote_memory_region" where
  "rmr_new addr len rkey = \<lparr>rmr_addr = addr, rmr_length = len, rmr_rkey = rkey\<rparr>"

text \<open>\<open>MemoryRegion::remote\<close>.\<close>

definition mreg_remote :: "memory_region \<Rightarrow> remote_memory_region" where
  "mreg_remote m = rmr_new (mreg_address m) (mreg_length m) (mreg_rkey m)"

text \<open>
  \<open>usize\<close> to \<open>u64\<close> always succeeds on the 64-bit targets of libibverbs, so the \<open>try_into().ok()?\<close> of
  the code never returns early.
\<close>

definition sub_region :: "remote_memory_region \<Rightarrow> usize \<Rightarrow> remote_memory_region option" where
  "sub_region r offset =
     (if offset > rmr_length r then None
      else
        case checked_add (rmr_addr r) offset of
          None \<Rightarrow> None
        | Some a \<Rightarrow>
            Some \<lparr>rmr_addr = a, rmr_length = rmr_length r - offset, rmr_rkey = rmr_rkey r\<rparr>)"

definition sub_region_unchecked ::
  "bool \<Rightarrow> remote_memory_region \<Rightarrow> usize \<Rightarrow> (remote_memory_region, 'e) outcome" where
  "sub_region_unchecked oc r offset =
     bind_outcome (plain_add oc (rmr_addr r) offset) (\<lambda>a.
     bind_outcome (plain_sub oc (rmr_length r) offset) (\<lambda>l.
       Ok \<lparr>rmr_addr = a, rmr_length = l, rmr_rkey = rmr_rkey r\<rparr>))"

text \<open>
  The macros.  \<open>size_of::<T>()\<close> and \<open>offset_of!(T, field)\<close> are numbers the compiler supplies; the
  index is a \<open>usize\<close> here, as at every use in the code.
\<close>

definition remote_array_field ::
  "remote_memory_region \<Rightarrow> usize \<Rightarrow> usize \<Rightarrow> remote_memory_region option" where
  "remote_array_field r type_size index =
     (case checked_mul index type_size of
        Some offset \<Rightarrow> sub_region r offset
      | None \<Rightarrow> None)"

definition remote_array_field_unchecked ::
  "bool \<Rightarrow> remote_memory_region \<Rightarrow> usize \<Rightarrow> usize \<Rightarrow> (remote_memory_region, 'e) outcome" where
  "remote_array_field_unchecked oc r type_size index =
     bind_outcome (plain_mul oc index type_size) (\<lambda>offset. sub_region_unchecked oc r offset)"

definition remote_struct_field ::
  "remote_memory_region \<Rightarrow> usize \<Rightarrow> remote_memory_region option" where
  "remote_struct_field r field_offset = sub_region r field_offset"

definition remote_struct_field_unchecked ::
  "bool \<Rightarrow> remote_memory_region \<Rightarrow> usize \<Rightarrow> (remote_memory_region, 'e) outcome" where
  "remote_struct_field_unchecked oc r field_offset = sub_region_unchecked oc r field_offset"

definition remote_struct_array_field ::
  "remote_memory_region \<Rightarrow> usize \<Rightarrow> usize \<Rightarrow> usize \<Rightarrow> remote_memory_region option" where
  "remote_struct_array_field r struct_size index field_offset =
     (case Option.bind (checked_mul index struct_size) (\<lambda>o'. checked_add o' field_offset) of
        Some total_offset \<Rightarrow> sub_region r total_offset
      | None \<Rightarrow> None)"

definition remote_struct_array_field_unchecked ::
  "bool \<Rightarrow> remote_memory_region \<Rightarrow> usize \<Rightarrow> usize \<Rightarrow> usize \<Rightarrow> (remote_memory_region, 'e) outcome" where
  "remote_struct_array_field_unchecked oc r struct_size index field_offset =
     bind_outcome (plain_mul oc index struct_size) (\<lambda>p.
     bind_outcome (plain_add oc p field_offset) (\<lambda>total_offset.
       sub_region_unchecked oc r total_offset))"

section \<open>multi_channel/remote_memory_region.rs\<close>

record peer_remote_memory_region =
  prmr_peer :: nat
  prmr_remote_mr :: remote_memory_region

definition prmr_new :: "nat \<Rightarrow> remote_memory_region \<Rightarrow> peer_remote_memory_region" where
  "prmr_new p r = \<lparr>prmr_peer = p, prmr_remote_mr = r\<rparr>"

definition prmr_sub_region ::
  "peer_remote_memory_region \<Rightarrow> usize \<Rightarrow> peer_remote_memory_region option" where
  "prmr_sub_region p offset =
     (case sub_region (prmr_remote_mr p) offset of
        None \<Rightarrow> None
      | Some r \<Rightarrow> Some \<lparr>prmr_peer = prmr_peer p, prmr_remote_mr = r\<rparr>)"

definition prmr_sub_region_unchecked ::
  "bool \<Rightarrow> peer_remote_memory_region \<Rightarrow> usize \<Rightarrow> (peer_remote_memory_region, 'e) outcome" where
  "prmr_sub_region_unchecked oc p offset =
     map_ok (\<lambda>r. \<lparr>prmr_peer = prmr_peer p, prmr_remote_mr = r\<rparr>)
       (sub_region_unchecked oc (prmr_remote_mr p) offset)"

text \<open>The macro \<open>remote_struct_array_field_unchecked!\<close> expanded at a \<open>PeerRemoteMemoryRegion\<close>.\<close>

definition prmr_struct_array_field_unchecked ::
  "bool \<Rightarrow> peer_remote_memory_region \<Rightarrow> usize \<Rightarrow> usize \<Rightarrow> usize \<Rightarrow>
     (peer_remote_memory_region, 'e) outcome" where
  "prmr_struct_array_field_unchecked oc p struct_size index field_offset =
     bind_outcome (plain_mul oc index struct_size) (\<lambda>q.
     bind_outcome (plain_add oc q field_offset) (\<lambda>total_offset.
       prmr_sub_region_unchecked oc p total_offset))"

section \<open>Lemmas: containment of local slices\<close>

lemma encloses_iff:
  "encloses m a l \<longleftrightarrow>
     unat (mreg_address m) \<le> unat a \<and>
     (l = 0 \<or> unat a + unat l \<le> unat (mreg_address m) + unat (mreg_length m))"
proof (cases "mreg_address m \<le> a")
  case True
  then have off: "unat (a - mreg_address m) = unat a - unat (mreg_address m)"
    by (simp add: unat_sub)
  from True have le: "unat (mreg_address m) \<le> unat a" and nl: "\<not> a < mreg_address m"
    by (auto simp: word_le_nat_alt word_less_nat_alt)
  have "encloses m a l \<longleftrightarrow> unat l \<le> unat (mreg_length m) - (unat a - unat (mreg_address m))"
    using nl by (simp add: encloses_def Let_def word_le_nat_alt unat_saturating_sub off)
  also have "\<dots> \<longleftrightarrow> unat l = 0 \<or> unat a + unat l \<le> unat (mreg_address m) + unat (mreg_length m)"
    using le by arith
  finally show ?thesis
    using le by (simp add: unat_eq_0)
next
  case False
  then show ?thesis
    by (simp add: encloses_def Let_def word_le_nat_alt word_less_nat_alt)
qed

lemma small_len_cast:
  fixes l :: usize
  assumes "l \<le> 0xFFFFFFFF"
  shows "unat (ucast l :: u32) = unat l"
proof -
  from assms have "unat l \<le> unat (0xFFFFFFFF :: usize)"
    by (simp only: word_le_nat_alt)
  then have "unat l < 2 ^ 32"
    by simp
  then show ?thesis
    by (simp add: unsigned_ucast_eq take_bit_nat_eq_self flip: take_bit_eq_mod)
qed

lemma gather_new_checked_Ok:
  "gather_new_checked m s = Ok g \<longleftrightarrow>
     sl_len s \<le> 0xFFFFFFFF \<and> encloses_slice m s \<and> g = GatherElement (sge_of m s)"
  by (auto simp: gather_new_checked_def gather_new_unchecked_def not_less)

lemma scatter_new_checked_Ok:
  "scatter_new_checked m s = Ok g \<longleftrightarrow>
     sl_len s \<le> 0xFFFFFFFF \<and> encloses_slice m s \<and> g = ScatterElement (sge_of m s)"
  by (auto simp: scatter_new_checked_def scatter_new_unchecked_def not_less)

section \<open>Lemmas: offsets into a remote region\<close>

lemma sub_region_Some:
  "sub_region r off = Some r' \<longleftrightarrow>
     unat off \<le> unat (rmr_length r) \<and> unat (rmr_addr r) + unat off < 2 ^ 64 \<and>
     r' = \<lparr>rmr_addr = rmr_addr r + off, rmr_length = rmr_length r - off, rmr_rkey = rmr_rkey r\<rparr>"
  by (auto simp: sub_region_def checked_add_def word_le_nat_alt word_less_nat_alt not_less
      split: option.splits)

lemma sub_region_values:
  assumes "sub_region r off = Some r'"
  shows "unat (rmr_addr r') = unat (rmr_addr r) + unat off"
    and "unat (rmr_length r') = unat (rmr_length r) - unat off"
    and "rmr_rkey r' = rmr_rkey r"
  using assms
  by (auto simp: sub_region_Some unat_word_ariths unat_sub word_le_nat_alt)

lemma sub_region_unchecked_eq:
  assumes "sub_region r off = Some r'"
  shows "sub_region_unchecked oc r off = Ok r'"
  using assms
  by (auto simp: sub_region_Some sub_region_unchecked_def plain_add_def plain_sub_def
      word_less_nat_alt)

lemma sub_region_unchecked_debug:
  "sub_region_unchecked True r off = Ok r' \<longleftrightarrow> sub_region r off = Some r'"
  by (auto simp: sub_region_Some sub_region_unchecked_def plain_add_def plain_sub_def
      word_less_nat_alt bind_outcome_eq_Ok)

lemma sub_region_sub_region:
  assumes "sub_region r a = Some r1" and "sub_region r1 b = Some r2"
  shows "sub_region r (a + b) = Some r2"
proof -
  from assms(1) have a: "unat a \<le> unat (rmr_length r)" "unat (rmr_addr r) + unat a < 2 ^ 64"
    and r1: "r1 = \<lparr>rmr_addr = rmr_addr r + a, rmr_length = rmr_length r - a, rmr_rkey = rmr_rkey r\<rparr>"
    by (auto simp: sub_region_Some)
  note v = sub_region_values [OF assms(1)]
  from assms(2) v have b: "unat b \<le> unat (rmr_length r) - unat a"
      "unat (rmr_addr r) + unat a + unat b < 2 ^ 64"
    and r2: "r2 = \<lparr>rmr_addr = rmr_addr r1 + b, rmr_length = rmr_length r1 - b, rmr_rkey = rmr_rkey r1\<rparr>"
    by (auto simp: sub_region_Some)
  from b(2) have "unat (a + b) = unat a + unat b"
    by (simp add: unat_word_ariths)
  with a b r1 r2 show ?thesis
    by (simp add: sub_region_Some algebra_simps)
qed

lemma remote_struct_array_field_Some:
  "remote_struct_array_field r sz i fo = Some r' \<longleftrightarrow>
     unat i * unat sz + unat fo < 2 ^ 64 \<and> sub_region r (i * sz + fo) = Some r'"
proof (cases "unat i * unat sz < 2 ^ 64")
  case True
  then have "unat (i * sz) = unat i * unat sz"
    by (simp add: unat_word_ariths)
  with True show ?thesis
    by (auto simp: remote_struct_array_field_def checked_mul_def checked_add_def)
next
  case False
  then show ?thesis
    by (simp add: remote_struct_array_field_def checked_mul_def)
qed

lemma remote_struct_array_field_values:
  assumes "remote_struct_array_field r sz i fo = Some r'"
  shows "unat (rmr_addr r') = unat (rmr_addr r) + (unat i * unat sz + unat fo)"
    and "unat (rmr_length r') = unat (rmr_length r) - (unat i * unat sz + unat fo)"
    and "unat i * unat sz + unat fo \<le> unat (rmr_length r)"
    and "rmr_rkey r' = rmr_rkey r"
proof -
  from assms have b: "unat i * unat sz + unat fo < 2 ^ 64"
    and s: "sub_region r (i * sz + fo) = Some r'"
    by (simp_all add: remote_struct_array_field_Some)
  from b have u: "unat (i * sz + fo) = unat i * unat sz + unat fo"
    by (simp add: unat_word_ariths)
  show "unat (rmr_addr r') = unat (rmr_addr r) + (unat i * unat sz + unat fo)"
    and "unat (rmr_length r') = unat (rmr_length r) - (unat i * unat sz + unat fo)"
    and "rmr_rkey r' = rmr_rkey r"
    using sub_region_values [OF s] u by simp_all
  show "unat i * unat sz + unat fo \<le> unat (rmr_length r)"
    using s u by (simp add: sub_region_Some)
qed

lemma prmr_struct_array_field_unchecked_eq:
  assumes "remote_struct_array_field (prmr_remote_mr p) sz i fo = Some r'"
  shows "prmr_struct_array_field_unchecked oc p sz i fo =
           Ok \<lparr>prmr_peer = prmr_peer p, prmr_remote_mr = r'\<rparr>"
proof -
  from assms have b: "unat i * unat sz + unat fo < 2 ^ 64"
    and s: "sub_region (prmr_remote_mr p) (i * sz + fo) = Some r'"
    by (simp_all add: remote_struct_array_field_Some)
  from b have m: "unat (i * sz) = unat i * unat sz"
    by (simp add: unat_word_ariths)
  show ?thesis
    using b m by (simp add: plain_mul_def plain_add_def prmr_struct_array_field_unchecked_def prmr_sub_region_unchecked_def
        sub_region_unchecked_eq [OF s])
qed

end
