(* ===== verification/Completion_Queue.thy ===== *)
theory Completion_Queue
  imports Device
begin

text \<open>
  \<open>src/ibverbs/completion_queue.rs\<close> and \<open>src/channel/cached_completion_queue.rs\<close>: creating and
  polling a completion queue, and the cache that keeps the completions polled on behalf of other
  work requests until their owners ask for them.

  The locale \<open>completion_cache\<close> states what a client of the cache relies on; it is interpreted on
  the model of \<open>CachedCompletionQueue\<close>.
\<close>

section \<open>completion_queue.rs\<close>

record completion_queue =
  cq_context :: dev_context
  cq_handle :: nat
  cq_min_capacity :: u32

definition i32_max :: nat where
  "i32_max = 2 ^ 31 - 1"

text \<open>\<open>last_os_error().raw_os_error().unwrap_or(0)\<close>, unlike the other constructors.\<close>

definition cq_create :: "'h verbs \<Rightarrow> dev_context \<Rightarrow> u32 \<Rightarrow> ('h, completion_queue, ibv_error) comp" where
  "cq_create v ctx min_capacity h =
     (if unat min_capacity > i32_max
      then (Err (InvalidInput ''Completion queue min_cq_entries must fit in an i32''), h)
      else
        (case v_create_cq v (ctx_handle ctx) (int (unat min_capacity)) h of
           (None, h') \<Rightarrow>
             (Err (from_errno_with_msg (v_errno_consts v)
                     (case v_last_errno v h' of None \<Rightarrow> 0 | Some e \<Rightarrow> e)
                     (''Failed to create completion queue with size '' @
                        show_nat (unat min_capacity))), h')
         | (Some cq, h') \<Rightarrow>
             (Ok \<lparr>cq_context = ctx, cq_handle = cq, cq_min_capacity = min_capacity\<rparr>, h')))"

text \<open>
  \<open>poll\<close> on the caller's buffer.  The buffer is written in place, so its length is what it was;
  the range \<open>completions[0..num_polled]\<close> panics past it.
\<close>

definition cq_poll ::
  "'h verbs \<Rightarrow> completion_queue \<Rightarrow> (ibv_wc list \<times> 'h, ibv_wc list, ibv_error) comp" where
  "cq_poll v cq s =
     (case s of (buf, h) \<Rightarrow>
        let ne = (if length buf \<le> i32_max then int (length buf) else int i32_max) in
        case v_poll_cq v (cq_handle cq) ne buf h of
          ((num_polled, buf'), h') \<Rightarrow>
            if num_polled < 0
            then (Err (from_errno_with_msg (v_errno_consts v) \<bar>num_polled\<bar>
                         ''Failed to poll completion queue''), (buf', h'))
            else if nat num_polled > length buf then (Panic, (buf', h'))
            else (Ok (take (nat num_polled) buf'), (buf', h')))"

section \<open>cached_completion_queue.rs\<close>

record cached_cq =
  cc_cq :: completion_queue
  cc_cache :: "u64 \<rightharpoonup> work_completion"

definition cached_wrap_cq :: "completion_queue \<Rightarrow> cached_cq" where
  "cached_wrap_cq cq = \<lparr>cc_cq = cq, cc_cache = Map.empty\<rparr>"

definition cached_min_capacity :: "cached_cq \<Rightarrow> u32" where
  "cached_min_capacity cc = cq_min_capacity (cc_cq cc)"

text \<open>The loop \<open>for wc in polled_wcs { self.cache.insert(wc.wr_id(), wc); }\<close>.\<close>

fun cache_insert_all :: "work_completion list \<Rightarrow> cached_cq \<Rightarrow> cached_cq" where
  "cache_insert_all [] cc = cc"
| "cache_insert_all (wc # wcs) cc =
     cache_insert_all wcs (cc\<lparr>cc_cache := (cc_cache cc)(wcp_wr_id wc \<mapsto> wc)\<rparr>)"

definition cached_update ::
  "'h verbs \<Rightarrow> (cached_cq \<times> ibv_wc list \<times> 'h, nat, ibv_error) comp" where
  "cached_update v s =
     (case s of (cc, bufh) \<Rightarrow>
        case cq_poll v (cc_cq cc) bufh of
          (Ok polled_wcs, (buf', h')) \<Rightarrow>
            (Ok (length polled_wcs),
             (cache_insert_all (map work_completion_new polled_wcs) cc, buf', h'))
        | (Err e, (buf', h')) \<Rightarrow> (Err e, (cc, buf', h'))
        | (Panic, (buf', h')) \<Rightarrow> (Panic, (cc, buf', h'))
        | (NoFuel, (buf', h')) \<Rightarrow> (NoFuel, (cc, buf', h')))"

definition cached_consume :: "u64 \<Rightarrow> cached_cq \<Rightarrow> work_completion option \<times> cached_cq" where
  "cached_consume wr_id cc =
     (cc_cache cc wr_id, cc\<lparr>cc_cache := (cc_cache cc)(wr_id := None)\<rparr>)"

section \<open>The interface of the cache\<close>

datatype 'w cache_event = Arrive "'w list" | Take u64

text \<open>
  \<open>insert_all\<close> and \<open>consume\<close> are the two operations, \<open>lookup\<close> the observation of the cache as a map
  and \<open>ident\<close> the id of a completion.
\<close>

locale completion_cache =
  fixes insert_all :: "'w list \<Rightarrow> 'c \<Rightarrow> 'c"
    and consume :: "u64 \<Rightarrow> 'c \<Rightarrow> 'w option \<times> 'c"
    and lookup :: "'c \<Rightarrow> u64 \<Rightarrow> 'w option"
    and ident :: "'w \<Rightarrow> u64"
  assumes insert_none: "lookup (insert_all [] c) = lookup c"
    and insert_some: "lookup (insert_all (w # ws) c) = lookup (insert_all ws (insert_all [w] c))"
    and insert_one: "lookup (insert_all [w] c) = (lookup c)(ident w \<mapsto> w)"
    and insert_cong: "lookup c = lookup d \<Longrightarrow> lookup (insert_all ws c) = lookup (insert_all ws d)"
    and consume_value: "fst (consume i c) = lookup c i"
    and consume_state: "lookup (snd (consume i c)) = (lookup c)(i := None)"
begin

lemma lookup_insert_all:
  "distinct (map ident ws) \<Longrightarrow>
     lookup (insert_all ws c) =
       (\<lambda>i. case find (\<lambda>w. ident w = i) ws of Some w \<Rightarrow> Some w | None \<Rightarrow> lookup c i)"
proof (induction ws arbitrary: c)
  case Nil
  then show ?case by (simp add: insert_none)
next
  case (Cons w ws)
  from Cons.prems have "ident w \<notin> ident ` set ws" and d: "distinct (map ident ws)"
    by simp_all
  then have none: "find (\<lambda>u. ident u = ident w) ws = None"
    by (auto simp: find_None_iff image_iff)
  note step = insert_some [of w ws c, unfolded Cons.IH [OF d] insert_one]
  have "lookup (insert_all (w # ws) c) i =
          (case find (\<lambda>u. ident u = i) (w # ws) of Some u \<Rightarrow> Some u | None \<Rightarrow> lookup c i)" for i
    using none by (cases "i = ident w") (auto simp: step split: option.splits)
  then show ?case by (rule ext)
qed

text \<open>A history of the cache: batches that arrive from the device and ids that owners take.\<close>

fun play :: "'w cache_event list \<Rightarrow> 'c \<Rightarrow> 'w list \<times> 'c" where
  "play [] c = ([], c)"
| "play (Arrive ws # es) c = play es (insert_all ws c)"
| "play (Take i # es) c =
     (case consume i c of
        (None, c') \<Rightarrow> play es c'
      | (Some w, c') \<Rightarrow> (case play es c' of (out, d) \<Rightarrow> (w # out, d)))"

fun arrived :: "'w cache_event list \<Rightarrow> 'w list" where
  "arrived [] = []"
| "arrived (Arrive ws # es) = ws @ arrived es"
| "arrived (Take i # es) = arrived es"

definition content :: "'c \<Rightarrow> 'w set" where
  "content c = ran (lookup c)"

definition keyed :: "'c \<Rightarrow> bool" where
  "keyed c \<longleftrightarrow> (\<forall>i w. lookup c i = Some w \<longrightarrow> ident w = i)"

lemma keyed_insert_one: "keyed c \<Longrightarrow> keyed (insert_all [w] c)"
  unfolding keyed_def insert_one by simp

lemma keyed_insert_all: "keyed c \<Longrightarrow> keyed (insert_all ws c)"
proof (induction ws arbitrary: c)
  case Nil
  then show ?case by (simp add: keyed_def insert_none)
next
  case (Cons w ws)
  have "keyed (insert_all ws (insert_all [w] c))"
    by (rule Cons.IH) (rule keyed_insert_one [OF Cons.prems])
  then show ?case
    unfolding keyed_def by (subst insert_some)
qed

lemma keyed_consume: "keyed c \<Longrightarrow> keyed (snd (consume i c))"
  by (simp add: keyed_def consume_state)

lemma content_insert_all:
  assumes "distinct (map ident ws)" "keyed c" "ident ` content c \<inter> ident ` set ws = {}"
  shows "content (insert_all ws c) = content c \<union> set ws"
proof -
  have *: "lookup (insert_all ws c) i =
      (case find (\<lambda>w. ident w = i) ws of Some w \<Rightarrow> Some w | None \<Rightarrow> lookup c i)" for i
    using lookup_insert_all [OF assms(1), of c] by (rule fun_cong)
  show ?thesis
  proof
    show "content (insert_all ws c) \<subseteq> content c \<union> set ws"
      by (auto simp: content_def ran_def * find_Some_iff split: option.splits)
    show "content c \<union> set ws \<subseteq> content (insert_all ws c)"
    proof
      fix w assume w: "w \<in> content c \<union> set ws"
      have "lookup (insert_all ws c) (ident w) = Some w"
      proof (cases "w \<in> set ws")
        case True
        then obtain k where k: "k < length ws" "ws ! k = w" by (rule nth_the_index)
        have "ident (ws ! j) \<noteq> ident w" if "j < k" for j
        proof -
          from that k have "j < length (map ident ws)" "k < length (map ident ws)" by auto
          then have "map ident ws ! j \<noteq> map ident ws ! k"
            using assms(1) that by (metis nat_neq_iff nth_eq_iff_index_eq)
          with that k show ?thesis by simp
        qed
        with k have "find (\<lambda>u. ident u = ident w) ws = Some w"
          by (auto simp: find_Some_iff)
        then show ?thesis by (simp add: *)
      next
        case False
        with w have c: "w \<in> content c" by simp
        then have l: "lookup c (ident w) = Some w"
          using assms(2) by (auto simp: content_def ran_def keyed_def)
        from c assms(3) have "find (\<lambda>u. ident u = ident w) ws = None"
          by (fastforce simp: find_None_iff)
        with l show ?thesis by (simp add: *)
      qed
      then show "w \<in> content (insert_all ws c)" by (auto simp: content_def ran_def)
    qed
  qed
qed

lemma consume_split:
  assumes "keyed c"
  shows "content c = set_option (fst (consume i c)) \<union> content (snd (consume i c))"
    and "\<forall>w \<in> content (snd (consume i c)). ident w \<noteq> i"
    and "\<forall>w \<in> set_option (fst (consume i c)). ident w = i"
  using assms
  by (auto simp: content_def ran_def keyed_def consume_value consume_state split: if_splits)

text \<open>
  Nothing is lost and nothing is delivered twice: what the owners took together with what the
  cache still holds is exactly what was there and what arrived.
\<close>

lemma conservation:
  assumes "play es c = (out, d)" "keyed c"
    and "distinct (map ident (arrived es))"
    and "ident ` content c \<inter> ident ` set (arrived es) = {}"
  shows "set out \<union> content d = content c \<union> set (arrived es) \<and>
         distinct (map ident out) \<and> ident ` set out \<inter> ident ` content d = {} \<and> keyed d"
  using assms
proof (induction es arbitrary: c out d rule: arrived.induct)
  case 1
  then show ?case by simp
next
  case (2 ws es)
  have c: "content (insert_all ws c) = content c \<union> set ws"
    using "2.prems" by (intro content_insert_all) auto
  have "set out \<union> content d = content (insert_all ws c) \<union> set (arrived es) \<and>
        distinct (map ident out) \<and> ident ` set out \<inter> ident ` content d = {} \<and> keyed d"
  proof (rule "2.IH")
    show "play es (insert_all ws c) = (out, d)" "distinct (map ident (arrived es))"
      using "2.prems" by auto
    show "keyed (insert_all ws c)"
      using "2.prems"(2) by (rule keyed_insert_all)
    show "ident ` content (insert_all ws c) \<inter> ident ` set (arrived es) = {}"
      using "2.prems" c by auto
  qed
  with c show ?case by auto
next
  case (3 i es)
  obtain r c' where rc: "consume i c = (r, c')" by (cases "consume i c")
  have k: "keyed c'" using keyed_consume [OF "3.prems"(2), of i] rc by simp
  have s: "content c = set_option r \<union> content c'"
    "\<forall>w \<in> content c'. ident w \<noteq> i" "\<forall>w \<in> set_option r. ident w = i"
    using consume_split [OF "3.prems"(2), of i] rc by auto
  have disj: "ident ` content c' \<inter> ident ` set (arrived es) = {}"
    using "3.prems"(4) s(1) by auto
  show ?case
  proof (cases r)
    case None
    then have "set out \<union> content d = content c' \<union> set (arrived es) \<and>
        distinct (map ident out) \<and> ident ` set out \<inter> ident ` content d = {} \<and> keyed d"
      using "3.prems" rc k disj by (intro "3.IH") auto
    with s None show ?thesis by simp
  next
    case (Some w)
    with "3.prems"(1) rc obtain out' where o: "play es c' = (out', d)" "out = w # out'"
      by (auto split: prod.splits)
    have IH: "set out' \<union> content d = content c' \<union> set (arrived es) \<and>
        distinct (map ident out') \<and> ident ` set out' \<inter> ident ` content d = {} \<and> keyed d"
      using "3.prems" o k disj by (intro "3.IH") auto
    have "w \<in> content c" using s(1) Some by simp
    then have "ident w \<notin> ident ` (content c' \<union> set (arrived es))"
      using "3.prems"(4) s(2,3) Some by auto
    with IH s(1) Some o(2) show ?thesis by (auto simp flip: IH [THEN conjunct1])
  qed
qed

end

section \<open>The cache of the code provides the interface\<close>

definition cc_lookup :: "cached_cq \<Rightarrow> u64 \<Rightarrow> work_completion option" where
  "cc_lookup cc = cc_cache cc"

lemma cache_insert_all_cong:
  "cc_cache cc = cc_cache dd \<Longrightarrow>
     cc_cache (cache_insert_all ws cc) = cc_cache (cache_insert_all ws dd)"
  by (induction ws arbitrary: cc dd) auto

lemma cc_cq_insert_all [simp]: "cc_cq (cache_insert_all ws cc) = cc_cq cc"
  by (induction ws arbitrary: cc) auto

interpretation ccq: completion_cache cache_insert_all cached_consume cc_lookup wcp_wr_id
  by unfold_locales (auto simp: cc_lookup_def cached_consume_def intro: cache_insert_all_cong)

end
