(* ===== verification/Queue_Pair.thy ===== *)
theory Queue_Pair
  imports Device Qp_Config Memory Completion_Queue
begin

text \<open>
  \<open>src/ibverbs/queue_pair/\<close> and the request types of \<open>src/ibverbs/work/request.rs\<close>: building a
  queue pair, the INIT, RTR, RTS handshake, and the four posting operations.
\<close>

section \<open>work/request.rs\<close>

record send_work_request =
  snd_gather :: "gather_element list"
  snd_imm :: "u32 option"

record receive_work_request =
  rcv_scatter :: "scatter_element list"

record write_work_request =
  wrt_gather :: "gather_element list"
  wrt_remote_mr :: remote_memory_region
  wrt_imm :: "u32 option"

record read_work_request =
  rd_scatter :: "scatter_element list"
  rd_remote_mr :: remote_memory_region

text \<open>\<open>i32::try_from(len).is_ok()\<close>, asserted by every constructor.\<close>

definition fits_i32 :: "nat \<Rightarrow> bool" where
  "fits_i32 n \<longleftrightarrow> n < 2 ^ 31"

definition send_wr_new :: "gather_element list \<Rightarrow> (send_work_request, unit) outcome" where
  "send_wr_new ges =
     (if fits_i32 (length ges) then Ok \<lparr>snd_gather = ges, snd_imm = None\<rparr> else Panic)"

definition send_wr_with_immediate :: "u32 \<Rightarrow> send_work_request \<Rightarrow> send_work_request" where
  "send_wr_with_immediate imm wr = wr\<lparr>snd_imm := Some imm\<rparr>"

definition send_wr_only_immediate :: "u32 \<Rightarrow> send_work_request" where
  "send_wr_only_immediate imm = \<lparr>snd_gather = [], snd_imm = Some imm\<rparr>"

definition receive_wr_new :: "scatter_element list \<Rightarrow> (receive_work_request, unit) outcome" where
  "receive_wr_new ses = (if fits_i32 (length ses) then Ok \<lparr>rcv_scatter = ses\<rparr> else Panic)"

definition receive_wr_only_immediate :: receive_work_request where
  "receive_wr_only_immediate = \<lparr>rcv_scatter = []\<rparr>"

definition write_wr_new ::
  "gather_element list \<Rightarrow> remote_memory_region \<Rightarrow> (write_work_request, unit) outcome" where
  "write_wr_new ges r =
     (if fits_i32 (length ges)
      then Ok \<lparr>wrt_gather = ges, wrt_remote_mr = r, wrt_imm = None\<rparr> else Panic)"

definition write_wr_with_immediate :: "u32 \<Rightarrow> write_work_request \<Rightarrow> write_work_request" where
  "write_wr_with_immediate imm wr = wr\<lparr>wrt_imm := Some imm\<rparr>"

definition read_wr_new ::
  "scatter_element list \<Rightarrow> remote_memory_region \<Rightarrow> (read_work_request, unit) outcome" where
  "read_wr_new ses r =
     (if fits_i32 (length ses) then Ok \<lparr>rd_scatter = ses, rd_remote_mr = r\<rparr> else Panic)"

section \<open>mod.rs, builder.rs\<close>

record queue_pair =
  qp_pd :: protection_domain
  qp_send_cq :: completion_queue
  qp_recv_cq :: completion_queue
  qp_handle :: nat

record queue_pair_endpoint =
  ep_num :: u32
  ep_lid :: u16

text \<open>The tuning arguments of the builder, with their defaults in \<open>qp_params_default\<close>.\<close>

record qp_params =
  qpp_access :: access_flags
  qpp_max_send_wr :: u32
  qpp_max_recv_wr :: u32
  qpp_max_send_sge :: u32
  qpp_max_recv_sge :: u32
  qpp_max_rnr_retries :: max_rnr_retries
  qpp_max_ack_retries :: max_ack_retries
  qpp_min_rnr_timer :: min_rnr_timer
  qpp_ack_timeout :: ack_timeout
  qpp_mtu :: mtu
  qpp_send_psn :: psn
  qpp_recv_psn :: psn

definition qp_params_default :: "access_flags \<Rightarrow> qp_params" where
  "qp_params_default access =
     \<lparr>qpp_access = access, qpp_max_send_wr = 16, qpp_max_recv_wr = 16, qpp_max_send_sge = 16,
      qpp_max_recv_sge = 16, qpp_max_rnr_retries = max_rnr_default,
      qpp_max_ack_retries = max_ack_default, qpp_min_rnr_timer = rnr_default,
      qpp_ack_timeout = ack_default, qpp_mtu = mtu_default, qpp_send_psn = psn_default,
      qpp_recv_psn = psn_default\<rparr>"

record prepared_queue_pair =
  pqp_qp :: queue_pair
  pqp_endpoint :: queue_pair_endpoint
  pqp_params :: qp_params

definition qp_init_attr :: "completion_queue \<Rightarrow> completion_queue \<Rightarrow> qp_params \<Rightarrow> ibv_qp_init_attr" where
  "qp_init_attr send_cq recv_cq p =
     \<lparr>ia_send_cq = cq_handle send_cq, ia_recv_cq = cq_handle recv_cq,
      ia_cap =
        \<lparr>cap_max_send_wr = qpp_max_send_wr p, cap_max_recv_wr = qpp_max_recv_wr p,
         cap_max_send_sge = qpp_max_send_sge p, cap_max_recv_sge = qpp_max_recv_sge p,
         cap_max_inline_data = 0\<rparr>,
      ia_sq_sig_all = 0\<rparr>"

definition qp_builder ::
  "'h verbs \<Rightarrow> protection_domain \<Rightarrow> completion_queue \<Rightarrow> completion_queue \<Rightarrow> qp_params \<Rightarrow>
     ('h, prepared_queue_pair, ibv_error) comp" where
  "qp_builder v pd send_cq recv_cq p h =
     (case v_create_qp v (pd_handle pd) (qp_init_attr send_cq recv_cq p) h of
        (None, h1) \<Rightarrow> (null_pointer_error v h1 ''Failed to create queue pair'', h1)
      | (Some (qp, qp_num), h1) \<Rightarrow>
          bind_s (query_port v (pd_context pd))
            (\<lambda>lid. ret_s
               \<lparr>pqp_qp =
                  \<lparr>qp_pd = pd, qp_send_cq = send_cq, qp_recv_cq = recv_cq, qp_handle = qp\<rparr>,
                pqp_endpoint = \<lparr>ep_num = qp_num, ep_lid = lid\<rparr>,
                pqp_params = p\<rparr>) h1)"

definition pqp_get_endpoint :: "prepared_queue_pair \<Rightarrow> queue_pair_endpoint" where
  "pqp_get_endpoint q = pqp_endpoint q"

text \<open>The three attribute structures and masks of the handshake.\<close>

definition init_attr :: "'h verbs \<Rightarrow> qp_params \<Rightarrow> ibv_qp_attr" where
  "init_attr v p =
     (v_default_qp_attr v)
       \<lparr>qa_qp_state := IBV_QPS_INIT, qa_pkey_index := 0, qa_port_num := IB_PORT,
        qa_qp_access_flags := access_code (qpp_access p)\<rparr>"

definition init_mask :: "ibv_qp_attr_mask list" where
  "init_mask = [IBV_QP_STATE, IBV_QP_PKEY_INDEX, IBV_QP_PORT, IBV_QP_ACCESS_FLAGS]"

definition rtr_attr :: "'h verbs \<Rightarrow> qp_params \<Rightarrow> queue_pair_endpoint \<Rightarrow> ibv_qp_attr" where
  "rtr_attr v p remote =
     (v_default_qp_attr v)
       \<lparr>qa_qp_state := IBV_QPS_RTR, qa_path_mtu := mtu_code (qpp_mtu p),
        qa_dest_qp_num := ep_num remote, qa_rq_psn := psn_code (qpp_recv_psn p),
        qa_max_dest_rd_atomic := 1, qa_min_rnr_timer := rnr_code (qpp_min_rnr_timer p),
        qa_ah_attr :=
          (v_default_ah v)
            \<lparr>ah_dlid := ep_lid remote, ah_is_global := 0, ah_sl := 0, ah_src_path_bits := 0,
             ah_port_num := IB_PORT\<rparr>\<rparr>"

definition rtr_mask :: "ibv_qp_attr_mask list" where
  "rtr_mask =
     [IBV_QP_STATE, IBV_QP_AV, IBV_QP_PATH_MTU, IBV_QP_DEST_QPN, IBV_QP_RQ_PSN,
      IBV_QP_MAX_DEST_RD_ATOMIC, IBV_QP_MIN_RNR_TIMER]"

definition rts_attr :: "'h verbs \<Rightarrow> qp_params \<Rightarrow> ibv_qp_attr" where
  "rts_attr v p =
     (v_default_qp_attr v)
       \<lparr>qa_qp_state := IBV_QPS_RTS, qa_timeout := ack_code (qpp_ack_timeout p),
        qa_retry_cnt := max_ack_code (qpp_max_ack_retries p),
        qa_rnr_retry := max_rnr_code (qpp_max_rnr_retries p),
        qa_max_rd_atomic := 1, qa_sq_psn := psn_code (qpp_send_psn p)\<rparr>"

definition rts_mask :: "ibv_qp_attr_mask list" where
  "rts_mask =
     [IBV_QP_STATE, IBV_QP_TIMEOUT, IBV_QP_RETRY_CNT, IBV_QP_RNR_RETRY,
      IBV_QP_MAX_QP_RD_ATOMIC, IBV_QP_SQ_PSN]"

definition modify_qp ::
  "'h verbs \<Rightarrow> nat \<Rightarrow> ibv_qp_attr \<Rightarrow> ibv_qp_attr_mask list \<Rightarrow> string \<Rightarrow> ('h, unit, ibv_error) comp" where
  "modify_qp v qp attr msk msg h =
     (case v_modify_qp v qp attr msk h of
        (errno, h') \<Rightarrow>
          if errno \<noteq> 0 then (Err (from_errno_with_msg (v_errno_consts v) errno msg), h')
          else (Ok (), h'))"

definition qp_handshake ::
  "'h verbs \<Rightarrow> prepared_queue_pair \<Rightarrow> queue_pair_endpoint \<Rightarrow> ('h, queue_pair, ibv_error) comp" where
  "qp_handshake v q remote =
     (let p = pqp_params q; hd = qp_handle (pqp_qp q) in
      bind_s (modify_qp v hd (init_attr v p) init_mask
                ''Failed to set queue pair to Init state'')
     (\<lambda>_. bind_s (modify_qp v hd (rtr_attr v p remote) rtr_mask
                ''Failed to set queue pair to Ready to Receive state'')
     (\<lambda>_. bind_s (modify_qp v hd (rts_attr v p) rts_mask
                ''Failed to set queue pair to Ready to Send state'')
     (\<lambda>_. ret_s (pqp_qp q)))))"

section \<open>ops.rs\<close>

definition post_send_wr ::
  "'h verbs \<Rightarrow> queue_pair \<Rightarrow> ibv_send_wr \<Rightarrow> string \<Rightarrow> ('h, unit, ibv_error) comp" where
  "post_send_wr v qp wr msg h =
     (case v_post_send v (qp_handle qp) wr h of
        (errno, h') \<Rightarrow>
          if errno \<noteq> 0 then (Err (from_errno_with_msg (v_errno_consts v) errno msg), h')
          else (Ok (), h'))"

definition post_receive_wr ::
  "'h verbs \<Rightarrow> queue_pair \<Rightarrow> ibv_recv_wr \<Rightarrow> string \<Rightarrow> ('h, unit, ibv_error) comp" where
  "post_receive_wr v qp wr msg h =
     (case v_post_recv v (qp_handle qp) wr h of
        (errno, h') \<Rightarrow>
          if errno \<noteq> 0 then (Err (from_errno_with_msg (v_errno_consts v) errno msg), h')
          else (Ok (), h'))"

definition send_wr_of :: "'h verbs \<Rightarrow> send_work_request \<Rightarrow> u64 \<Rightarrow> ibv_send_wr" where
  "send_wr_of v wr wr_id =
     \<lparr>swr_wr_id = wr_id,
      swr_sg_list = map ge_sge (snd_gather wr),
      swr_num_sge = word_of_nat (length (snd_gather wr)),
      swr_opcode = (case snd_imm wr of None \<Rightarrow> IBV_WR_SEND | Some _ \<Rightarrow> IBV_WR_SEND_WITH_IMM),
      swr_signaled = True,
      swr_rdma = None,
      swr_imm = map_option (to_be32 (v_little_endian v)) (snd_imm wr)\<rparr>"

definition qp_post_send ::
  "'h verbs \<Rightarrow> queue_pair \<Rightarrow> send_work_request \<Rightarrow> u64 \<Rightarrow> ('h, unit, ibv_error) comp" where
  "qp_post_send v qp wr wr_id =
     post_send_wr v qp (send_wr_of v wr wr_id) ''Failed to post send work request''"

definition recv_wr_of :: "receive_work_request \<Rightarrow> u64 \<Rightarrow> ibv_recv_wr" where
  "recv_wr_of wr wr_id =
     \<lparr>rwr_wr_id = wr_id,
      rwr_sg_list = map se_sge (rcv_scatter wr),
      rwr_num_sge = word_of_nat (length (rcv_scatter wr))\<rparr>"

definition qp_post_receive ::
  "'h verbs \<Rightarrow> queue_pair \<Rightarrow> receive_work_request \<Rightarrow> u64 \<Rightarrow> ('h, unit, ibv_error) comp" where
  "qp_post_receive v qp wr wr_id =
     post_receive_wr v qp (recv_wr_of wr wr_id) ''Failed to post receive work request''"

definition write_wr_of :: "'h verbs \<Rightarrow> write_work_request \<Rightarrow> u64 \<Rightarrow> ibv_send_wr" where
  "write_wr_of v wr wr_id =
     \<lparr>swr_wr_id = wr_id,
      swr_sg_list = map ge_sge (wrt_gather wr),
      swr_num_sge = word_of_nat (length (wrt_gather wr)),
      swr_opcode =
        (case wrt_imm wr of None \<Rightarrow> IBV_WR_RDMA_WRITE | Some _ \<Rightarrow> IBV_WR_RDMA_WRITE_WITH_IMM),
      swr_signaled = True,
      swr_rdma = Some (rmr_addr (wrt_remote_mr wr), rmr_rkey (wrt_remote_mr wr)),
      swr_imm = map_option (to_be32 (v_little_endian v)) (wrt_imm wr)\<rparr>"

definition qp_post_write ::
  "'h verbs \<Rightarrow> queue_pair \<Rightarrow> write_work_request \<Rightarrow> u64 \<Rightarrow> ('h, unit, ibv_error) comp" where
  "qp_post_write v qp wr wr_id =
     post_send_wr v qp (write_wr_of v wr wr_id) ''Failed to post write work request''"

definition read_wr_of :: "read_work_request \<Rightarrow> u64 \<Rightarrow> ibv_send_wr" where
  "read_wr_of wr wr_id =
     \<lparr>swr_wr_id = wr_id,
      swr_sg_list = map se_sge (rd_scatter wr),
      swr_num_sge = word_of_nat (length (rd_scatter wr)),
      swr_opcode = IBV_WR_RDMA_READ,
      swr_signaled = True,
      swr_rdma = Some (rmr_addr (rd_remote_mr wr), rmr_rkey (rd_remote_mr wr)),
      swr_imm = None\<rparr>"

definition qp_post_read ::
  "'h verbs \<Rightarrow> queue_pair \<Rightarrow> read_work_request \<Rightarrow> u64 \<Rightarrow> ('h, unit, ibv_error) comp" where
  "qp_post_read v qp wr wr_id =
     post_send_wr v qp (read_wr_of wr wr_id) ''Failed to post read work request''"

section \<open>Lemmas\<close>

lemma modify_qp_Ok:
  "modify_qp v q attr msk msg h = (Ok u, h') \<longleftrightarrow> v_modify_qp v q attr msk h = (0, h')"
  by (auto simp: modify_qp_def split: prod.splits if_splits)

lemma qp_handshake_Ok:
  "qp_handshake v q remote h = (Ok qp, h') \<longleftrightarrow>
     qp = pqp_qp q \<and>
     (\<exists>h1 h2.
        v_modify_qp v (qp_handle qp) (init_attr v (pqp_params q)) init_mask h = (0, h1) \<and>
        v_modify_qp v (qp_handle qp) (rtr_attr v (pqp_params q) remote) rtr_mask h1 = (0, h2) \<and>
        v_modify_qp v (qp_handle qp) (rts_attr v (pqp_params q)) rts_mask h2 = (0, h'))"
  by (auto simp: qp_handshake_def Let_def bind_s_eq_Ok modify_qp_Ok ret_s_def)

lemma post_send_wr_Ok:
  "post_send_wr v qp wr msg h = (Ok u, h') \<longleftrightarrow> v_post_send v (qp_handle qp) wr h = (0, h')"
  by (auto simp: post_send_wr_def split: prod.splits if_splits)

lemma post_receive_wr_Ok:
  "post_receive_wr v qp wr msg h = (Ok u, h') \<longleftrightarrow> v_post_recv v (qp_handle qp) wr h = (0, h')"
  by (auto simp: post_receive_wr_def split: prod.splits if_splits)

lemma qp_post_never_panics:
  "fst (post_send_wr v qp wr msg h) \<noteq> Panic" "fst (post_send_wr v qp wr msg h) \<noteq> NoFuel"
  "fst (post_receive_wr v qp rwr msg h) \<noteq> Panic" "fst (post_receive_wr v qp rwr msg h) \<noteq> NoFuel"
  by (auto simp: post_send_wr_def post_receive_wr_def split: prod.splits)

end
