(* ===== verification/Channel.thy ===== *)
theory Channel
  imports Queue_Pair
begin

text \<open>
  \<open>src/channel/\<close>: pending work and its polling (\<open>pending_work.rs\<close>), the unpolled operations
  (\<open>ops/unpolled_ops.rs\<close>), the polling scope (\<open>polling_scope.rs\<close>), the scoped and blocking operations
  (\<open>ops/scoped_ops.rs\<close>, \<open>ops/polled_ops.rs\<close>) and the construction (\<open>builder.rs\<close>).

  Sharing.  A channel and its pending works share the completion cache and the poll buffer through
  \<open>Rc<RefCell<_>>\<close>; these cells are the heap \<open>w_shared\<close>, indexed by a reference.  A scope shares each
  pending work with the handle it returned; the handle is the index into the scope's list.  Busy
  waits take fuel, one unit per poll.
\<close>

section \<open>mod.rs: errors, shared cells, the channel\<close>

datatype transport_error = TIbv ibv_error | TWork work_error

type_synonym poll_result = "(work_success, transport_error) outcome"

text \<open>\<open>res.map_err(Into::into)\<close>\<close>

fun poll_result_of :: "work_result \<Rightarrow> poll_result" where
  "poll_result_of (Inl e) = Err (TWork e)"
| "poll_result_of (Inr s) = Ok s"

record shared_cq =
  sh_cq :: cached_cq
  sh_buff :: "ibv_wc list"

record 'h world =
  w_hw :: 'h
  w_shared :: "nat \<Rightarrow> shared_cq"
  w_next :: nat

record channel =
  ch_qp :: queue_pair
  ch_shared :: nat
  ch_next_wr_id :: u64

text \<open>A computation on the device state alone, run in the world.\<close>

definition on_hw :: "('h, 'a, 'e) comp \<Rightarrow> ('h world, 'a, 'e) comp" where
  "on_hw m w = (case m (w_hw w) of (r, h) \<Rightarrow> (r, w\<lparr>w_hw := h\<rparr>))"

definition shared_update :: "'h verbs \<Rightarrow> nat \<Rightarrow> ('h world, nat, ibv_error) comp" where
  "shared_update v ref w =
     (case cached_update v (sh_cq (w_shared w ref), sh_buff (w_shared w ref), w_hw w) of
        (r, (cc, buf, h)) \<Rightarrow>
          (r, w\<lparr>w_hw := h,
                w_shared := (w_shared w)(ref := \<lparr>sh_cq = cc, sh_buff = buf\<rparr>)\<rparr>))"

section \<open>pending_work.rs\<close>

record pending_work =
  pw_wr_id :: u64
  pw_shared :: nat
  pw_status :: "work_result option"

definition pending_work_new :: "u64 \<Rightarrow> nat \<Rightarrow> pending_work" where
  "pending_work_new wr_id ref = \<lparr>pw_wr_id = wr_id, pw_shared = ref, pw_status = None\<rparr>"

definition consume_cache :: "u64 \<Rightarrow> nat \<Rightarrow> 'h world \<Rightarrow> work_result option \<times> 'h world" where
  "consume_cache wr_id ref w =
     (case cached_consume wr_id (sh_cq (w_shared w ref)) of
        (c, cc) \<Rightarrow>
          (map_option wcp_result c,
           w\<lparr>w_shared := (w_shared w)(ref := (w_shared w ref)\<lparr>sh_cq := cc\<rparr>)\<rparr>))"

text \<open>
  \<open>PendingWork::poll\<close>: \<open>None\<close> is "still in progress"; \<open>Some Panic\<close> is a panic of the poll (a driver
  that reports more completions than the buffer holds).
\<close>

definition pw_poll ::
  "'h verbs \<Rightarrow> pending_work \<times> 'h world \<Rightarrow> poll_result option \<times> (pending_work \<times> 'h world)" where
  "pw_poll v s =
     (case s of (p, w) \<Rightarrow>
        (case pw_status p of
           Some res \<Rightarrow> (Some (poll_result_of res), (p, w))
         | None \<Rightarrow>
             (case consume_cache (pw_wr_id p) (pw_shared p) w of
                (Some status, w1) \<Rightarrow>
                  (Some (poll_result_of status), (p\<lparr>pw_status := Some status\<rparr>, w1))
              | (None, w1) \<Rightarrow>
                  (case shared_update v (pw_shared p) w1 of
                     (Err e, w2) \<Rightarrow> (Some (Err (TIbv e)), (p, w2))
                   | (Panic, w2) \<Rightarrow> (Some Panic, (p, w2))
                   | (NoFuel, w2) \<Rightarrow> (Some NoFuel, (p, w2))
                   | (Ok polled_num, w2) \<Rightarrow>
                       if 0 < polled_num
                       then
                         (case consume_cache (pw_wr_id p) (pw_shared p) w2 of
                            (Some status, w3) \<Rightarrow>
                              (Some (poll_result_of status), (p\<lparr>pw_status := Some status\<rparr>, w3))
                          | (None, w3) \<Rightarrow> (None, (p, w3)))
                       else (None, (p, w2))))))"

fun pw_spin_poll ::
  "nat \<Rightarrow> 'h verbs \<Rightarrow> (pending_work \<times> 'h world, work_success, transport_error) comp" where
  "pw_spin_poll 0 v s = (NoFuel, s)"
| "pw_spin_poll (Suc fuel) v s =
     (case pw_poll v s of
        (None, s') \<Rightarrow> pw_spin_poll fuel v s'
      | (Some r, s') \<Rightarrow> (r, s'))"

text \<open>\<open>Drop\<close>: an error is logged and otherwise ignored.\<close>

definition pw_drop :: "nat \<Rightarrow> 'h verbs \<Rightarrow> (pending_work \<times> 'h world, unit, unit) comp" where
  "pw_drop fuel v s =
     (case pw_spin_poll fuel v s of
        (Ok _, s') \<Rightarrow> (Ok (), s')
      | (Err _, s') \<Rightarrow> (Ok (), s')
      | (Panic, s') \<Rightarrow> (Panic, s')
      | (NoFuel, s') \<Rightarrow> (NoFuel, s'))"

section \<open>ops/unpolled_ops.rs\<close>

definition get_and_advance_wr_id :: "bool \<Rightarrow> (channel \<times> 'h world, u64, ibv_error) comp" where
  "get_and_advance_wr_id oc s =
     (case s of (ch, w) \<Rightarrow>
        (case plain_add oc (ch_next_wr_id ch) 1 of
           Ok n \<Rightarrow> (Ok (ch_next_wr_id ch), (ch\<lparr>ch_next_wr_id := n\<rparr>, w))
         | Err e \<Rightarrow> (Err e, s) | Panic \<Rightarrow> (Panic, s) | NoFuel \<Rightarrow> (NoFuel, s)))"

text \<open>The common shape of the four unpolled operations, given the posting call.\<close>

definition unpolled ::
  "bool \<Rightarrow> (queue_pair \<Rightarrow> u64 \<Rightarrow> ('h, unit, ibv_error) comp) \<Rightarrow>
     (channel \<times> 'h world, pending_work, ibv_error) comp" where
  "unpolled oc post =
     bind_s (get_and_advance_wr_id oc) (\<lambda>wr_id s.
       case s of (ch, w) \<Rightarrow>
         (case on_hw (post (ch_qp ch) wr_id) w of
            (Ok _, w') \<Rightarrow> (Ok (pending_work_new wr_id (ch_shared ch)), (ch, w'))
          | (Err e, w') \<Rightarrow> (Err e, (ch, w'))
          | (Panic, w') \<Rightarrow> (Panic, (ch, w'))
          | (NoFuel, w') \<Rightarrow> (NoFuel, (ch, w'))))"

definition send_unpolled ::
  "'h verbs \<Rightarrow> bool \<Rightarrow> send_work_request \<Rightarrow> (channel \<times> 'h world, pending_work, ibv_error) comp" where
  "send_unpolled v oc wr = unpolled oc (\<lambda>qp wr_id. qp_post_send v qp wr wr_id)"

definition receive_unpolled ::
  "'h verbs \<Rightarrow> bool \<Rightarrow> receive_work_request \<Rightarrow>
     (channel \<times> 'h world, pending_work, ibv_error) comp" where
  "receive_unpolled v oc wr = unpolled oc (\<lambda>qp wr_id. qp_post_receive v qp wr wr_id)"

definition write_unpolled ::
  "'h verbs \<Rightarrow> bool \<Rightarrow> write_work_request \<Rightarrow> (channel \<times> 'h world, pending_work, ibv_error) comp" where
  "write_unpolled v oc wr = unpolled oc (\<lambda>qp wr_id. qp_post_write v qp wr wr_id)"

definition read_unpolled ::
  "'h verbs \<Rightarrow> bool \<Rightarrow> read_work_request \<Rightarrow> (channel \<times> 'h world, pending_work, ibv_error) comp" where
  "read_unpolled v oc wr = unpolled oc (\<lambda>qp wr_id. qp_post_read v qp wr wr_id)"

section \<open>polling_scope.rs\<close>

record scoped_work =
  sw_user_polled :: bool
  sw_work :: pending_work

text \<open>\<open>PollingScope\<close>, with the world its operations run in.\<close>

record ('c, 'h) scope =
  sc_inner :: 'c
  sc_wrs :: "scoped_work list"
  sc_world :: "'h world"

definition scope_new :: "'c \<Rightarrow> 'h world \<Rightarrow> ('c, 'h) scope" where
  "scope_new inner w = \<lparr>sc_inner = inner, sc_wrs = [], sc_world = w\<rparr>"

definition scoped_work_new :: "pending_work \<Rightarrow> scoped_work" where
  "scoped_work_new p = \<lparr>sw_user_polled = False, sw_work = p\<rparr>"

text \<open>
  A channel selector \<open>FnOnce(&mut C) -> IbvResult<&mut Channel>\<close>: the read through the reference
  and the write back.
\<close>

record 'c selector =
  sel_get :: "'c \<Rightarrow> (channel, ibv_error) outcome"
  sel_put :: "channel \<Rightarrow> 'c \<Rightarrow> 'c"

definition channel_post ::
  "'c selector \<Rightarrow> (channel \<times> 'h world, pending_work, ibv_error) comp \<Rightarrow>
     (('c, 'h) scope, nat, ibv_error) comp" where
  "channel_post sel post sc =
     (case sel_get sel (sc_inner sc) of
        Ok ch \<Rightarrow>
          (case post (ch, sc_world sc) of
             (r, (ch', w')) \<Rightarrow>
               let sc' = sc\<lparr>sc_inner := sel_put sel ch' (sc_inner sc), sc_world := w'\<rparr> in
               (case r of
                  Ok p \<Rightarrow> (Ok (length (sc_wrs sc')),
                           sc'\<lparr>sc_wrs := sc_wrs sc' @ [scoped_work_new p]\<rparr>)
                | Err e \<Rightarrow> (Err e, sc') | Panic \<Rightarrow> (Panic, sc') | NoFuel \<Rightarrow> (NoFuel, sc')))
      | Err e \<Rightarrow> (Err e, sc) | Panic \<Rightarrow> (Panic, sc) | NoFuel \<Rightarrow> (NoFuel, sc))"

definition channel_post_send ::
  "'h verbs \<Rightarrow> bool \<Rightarrow> 'c selector \<Rightarrow> send_work_request \<Rightarrow> (('c, 'h) scope, nat, ibv_error) comp" where
  "channel_post_send v oc sel wr = channel_post sel (send_unpolled v oc wr)"

definition channel_post_receive ::
  "'h verbs \<Rightarrow> bool \<Rightarrow> 'c selector \<Rightarrow> receive_work_request \<Rightarrow>
     (('c, 'h) scope, nat, ibv_error) comp" where
  "channel_post_receive v oc sel wr = channel_post sel (receive_unpolled v oc wr)"

definition channel_post_write ::
  "'h verbs \<Rightarrow> bool \<Rightarrow> 'c selector \<Rightarrow> write_work_request \<Rightarrow> (('c, 'h) scope, nat, ibv_error) comp" where
  "channel_post_write v oc sel wr = channel_post sel (write_unpolled v oc wr)"

definition channel_post_read ::
  "'h verbs \<Rightarrow> bool \<Rightarrow> 'c selector \<Rightarrow> read_work_request \<Rightarrow> (('c, 'h) scope, nat, ibv_error) comp" where
  "channel_post_read v oc sel wr = channel_post sel (read_unpolled v oc wr)"

text \<open>
  The handle's \<open>poll\<close> and \<open>spin_poll\<close>.  A handle only comes from a post on the same scope, so it is
  always an index of the list; outside it the model panics.
\<close>

definition put_work ::
  "nat \<Rightarrow> bool \<Rightarrow> pending_work \<times> 'h world \<Rightarrow> ('c, 'h) scope \<Rightarrow> ('c, 'h) scope" where
  "put_work i polled s sc =
     (case s of (p, w) \<Rightarrow>
        sc\<lparr>sc_wrs := (sc_wrs sc)[i := \<lparr>sw_user_polled = polled, sw_work = p\<rparr>], sc_world := w\<rparr>)"

definition scoped_poll ::
  "'h verbs \<Rightarrow> nat \<Rightarrow> ('c, 'h) scope \<Rightarrow> poll_result option \<times> ('c, 'h) scope" where
  "scoped_poll v i sc =
     (if i < length (sc_wrs sc) then
        let wr = sc_wrs sc ! i in
        (case pw_poll v (sw_work wr, sc_world sc) of
           (None, s) \<Rightarrow> (None, put_work i (sw_user_polled wr) s sc)
         | (Some Panic, s) \<Rightarrow> (Some Panic, put_work i (sw_user_polled wr) s sc)
         | (Some r, s) \<Rightarrow> (Some r, put_work i True s sc))
      else (Some Panic, sc))"

definition scoped_spin_poll ::
  "nat \<Rightarrow> 'h verbs \<Rightarrow> nat \<Rightarrow> (('c, 'h) scope, work_success, transport_error) comp" where
  "scoped_spin_poll fuel v i sc =
     (if i < length (sc_wrs sc) then
        let wr = sc_wrs sc ! i in
        (case pw_spin_poll fuel v (sw_work wr, sc_world sc) of
           (Panic, s) \<Rightarrow> (Panic, put_work i (sw_user_polled wr) s sc)
         | (NoFuel, s) \<Rightarrow> (NoFuel, put_work i (sw_user_polled wr) s sc)
         | (r, s) \<Rightarrow> (r, put_work i True s sc))
      else (Panic, sc))"

text \<open>
  One round of the \<open>auto_poll\<close> loop: poll unless the user did, then drop the handle, which is the
  last one because no handle outlives the closure.  The outcome says whether the round polled and
  which errors it saw.
\<close>

definition auto_poll_one ::
  "nat \<Rightarrow> 'h verbs \<Rightarrow> scoped_work \<Rightarrow> 'h world \<Rightarrow>
     (bool \<times> transport_error list, unit) outcome \<times> scoped_work \<times> 'h world" where
  "auto_poll_one fuel v wr w =
     (case (if sw_user_polled wr then (Ok (False, []), (sw_work wr, w))
            else
              case pw_spin_poll fuel v (sw_work wr, w) of
                (Ok _, s) \<Rightarrow> (Ok (True, []), s)
              | (Err e, s) \<Rightarrow> (Ok (True, [e]), s)
              | (Panic, s) \<Rightarrow> (Panic, s)
              | (NoFuel, s) \<Rightarrow> (NoFuel, s)) of
        (Ok a, s) \<Rightarrow>
          (case pw_drop fuel v s of
             (Ok _, (p', w')) \<Rightarrow> (Ok a, wr\<lparr>sw_work := p'\<rparr>, w')
           | (Err _, (p', w')) \<Rightarrow> (Ok a, wr\<lparr>sw_work := p'\<rparr>, w')
           | (Panic, (p', w')) \<Rightarrow> (Panic, wr\<lparr>sw_work := p'\<rparr>, w')
           | (NoFuel, (p', w')) \<Rightarrow> (NoFuel, wr\<lparr>sw_work := p'\<rparr>, w'))
      | (Err u, (p', w')) \<Rightarrow> (Err u, wr\<lparr>sw_work := p'\<rparr>, w')
      | (Panic, (p', w')) \<Rightarrow> (Panic, wr\<lparr>sw_work := p'\<rparr>, w')
      | (NoFuel, (p', w')) \<Rightarrow> (NoFuel, wr\<lparr>sw_work := p'\<rparr>, w'))"

fun auto_poll_loop ::
  "nat \<Rightarrow> 'h verbs \<Rightarrow> scoped_work list \<Rightarrow> 'h world \<Rightarrow>
     (bool \<times> transport_error list, unit) outcome \<times> scoped_work list \<times> 'h world" where
  "auto_poll_loop fuel v [] w = (Ok (False, []), [], w)"
| "auto_poll_loop fuel v (wr # wrs) w =
     (case auto_poll_one fuel v wr w of
        (Ok (polled, errs), wr', w') \<Rightarrow>
          (case auto_poll_loop fuel v wrs w' of
             (Ok (polled', errs'), wrs', w'') \<Rightarrow>
               (Ok (polled \<or> polled', errs @ errs'), wr' # wrs', w'')
           | (r, wrs', w'') \<Rightarrow> (r, wr' # wrs', w''))
      | (r, wr', w') \<Rightarrow> (r, wr' # wrs, w'))"

datatype auto_poll_success = NoPendingWorks | PendingWorksSucceeded

definition auto_poll ::
  "nat \<Rightarrow> 'h verbs \<Rightarrow> (('c, 'h) scope, auto_poll_success, transport_error list) comp" where
  "auto_poll fuel v sc =
     (case auto_poll_loop fuel v (sc_wrs sc) (sc_world sc) of
        (r, wrs', w') \<Rightarrow>
          (case r of
             Ok (auto_polled, transport_errors) \<Rightarrow>
               if \<not> auto_polled then Ok NoPendingWorks
               else if transport_errors = [] then Ok PendingWorksSucceeded
               else Err transport_errors
           | Err _ \<Rightarrow> Panic
           | Panic \<Rightarrow> Panic
           | NoFuel \<Rightarrow> NoFuel,
           sc\<lparr>sc_wrs := wrs', sc_world := w'\<rparr>))"

datatype 'e scope_error = ClosureError 'e | AutoPollError "transport_error list"

text \<open>
  \<open>PollingScope::run\<close> and \<open>run_manual\<close>, with the final scope kept for the lemmas.  A closure that does
  not return (\<open>NoFuel\<close>) never reaches the automatic polling.
\<close>

definition scope_run ::
  "nat \<Rightarrow> 'h verbs \<Rightarrow> (('c, 'h) scope, 't, 'e) comp \<Rightarrow> (('c, 'h) scope, 't, 'e scope_error) comp" where
  "scope_run fuel v f sc0 =
     (case f sc0 of
        (NoFuel, sc1) \<Rightarrow> (NoFuel, sc1)
      | (scope_result, sc1) \<Rightarrow>
          (case auto_poll fuel v sc1 of
             (Panic, sc2) \<Rightarrow> (Panic, sc2)
           | (NoFuel, sc2) \<Rightarrow> (NoFuel, sc2)
           | (auto_poll_result, sc2) \<Rightarrow>
               (case scope_result of
                  Err closure_error \<Rightarrow> Err (ClosureError closure_error)
                | Ok closure_output \<Rightarrow>
                    (case auto_poll_result of
                       Ok _ \<Rightarrow> Ok closure_output
                     | Err error \<Rightarrow> Err (AutoPollError error)
                     | Panic \<Rightarrow> Panic | NoFuel \<Rightarrow> NoFuel)
                | Panic \<Rightarrow> Panic
                | NoFuel \<Rightarrow> NoFuel, sc2)))"

definition scope_run_manual ::
  "nat \<Rightarrow> 'h verbs \<Rightarrow> (('c, 'h) scope, 't, 'e) comp \<Rightarrow> (('c, 'h) scope, 't, 'e) comp" where
  "scope_run_manual fuel v f sc0 =
     (case f sc0 of
        (NoFuel, sc1) \<Rightarrow> (NoFuel, sc1)
      | (scope_result, sc1) \<Rightarrow>
          (case auto_poll fuel v sc1 of
             (Panic, sc2) \<Rightarrow> (Panic, sc2)
           | (NoFuel, sc2) \<Rightarrow> (NoFuel, sc2)
           | (auto_poll_result, sc2) \<Rightarrow>
               (case scope_result of
                  Err closure_error \<Rightarrow> Err closure_error
                | Ok closure_output \<Rightarrow>
                    (case auto_poll_result of
                       Ok NoPendingWorks \<Rightarrow> Ok closure_output
                     | _ \<Rightarrow> Panic)
                | Panic \<Rightarrow> Panic
                | NoFuel \<Rightarrow> NoFuel, sc2)))"

text \<open>\<open>Channel::scope\<close> and \<open>Channel::manual_scope\<close> (and those of the other containers): a fresh scope.\<close>

definition with_scope ::
  "(('c, 'h) scope, 't, 'e) comp \<Rightarrow> ('c \<times> 'h world, 't, 'e) comp" where
  "with_scope run s =
     (case s of (inner, w) \<Rightarrow>
        (case run (scope_new inner w) of (r, sc) \<Rightarrow> (r, (sc_inner sc, sc_world sc))))"

definition run_scope ::
  "nat \<Rightarrow> 'h verbs \<Rightarrow> (('c, 'h) scope, 't, 'e) comp \<Rightarrow> ('c \<times> 'h world, 't, 'e scope_error) comp" where
  "run_scope fuel v f = with_scope (scope_run fuel v f)"

definition run_manual_scope ::
  "nat \<Rightarrow> 'h verbs \<Rightarrow> (('c, 'h) scope, 't, 'e) comp \<Rightarrow> ('c \<times> 'h world, 't, 'e) comp" where
  "run_manual_scope fuel v f = with_scope (scope_run_manual fuel v f)"

section \<open>ops/scoped_ops.rs and ops/polled_ops.rs\<close>

definition self_selector :: "channel selector" where
  "self_selector = \<lparr>sel_get = (\<lambda>c. Ok c), sel_put = (\<lambda>ch _. ch)\<rparr>"

definition ch_post_send ::
  "'h verbs \<Rightarrow> bool \<Rightarrow> send_work_request \<Rightarrow> ((channel, 'h) scope, nat, transport_error) comp" where
  "ch_post_send v oc wr = map_err_s TIbv (channel_post_send v oc self_selector wr)"

definition ch_post_receive ::
  "'h verbs \<Rightarrow> bool \<Rightarrow> receive_work_request \<Rightarrow> ((channel, 'h) scope, nat, transport_error) comp" where
  "ch_post_receive v oc wr = map_err_s TIbv (channel_post_receive v oc self_selector wr)"

definition ch_post_write ::
  "'h verbs \<Rightarrow> bool \<Rightarrow> write_work_request \<Rightarrow> ((channel, 'h) scope, nat, transport_error) comp" where
  "ch_post_write v oc wr = map_err_s TIbv (channel_post_write v oc self_selector wr)"

definition ch_post_read ::
  "'h verbs \<Rightarrow> bool \<Rightarrow> read_work_request \<Rightarrow> ((channel, 'h) scope, nat, transport_error) comp" where
  "ch_post_read v oc wr = map_err_s TIbv (channel_post_read v oc self_selector wr)"

text \<open>\<open>self.manual_scope(|s| s.post_x(wr)?.spin_poll())\<close>\<close>

definition post_and_spin ::
  "nat \<Rightarrow> 'h verbs \<Rightarrow> (('c, 'h) scope, nat, transport_error) comp \<Rightarrow>
     ('c \<times> 'h world, work_success, transport_error) comp" where
  "post_and_spin fuel v post =
     run_manual_scope fuel v (bind_s post (\<lambda>i. scoped_spin_poll fuel v i))"

definition ch_send ::
  "nat \<Rightarrow> 'h verbs \<Rightarrow> bool \<Rightarrow> send_work_request \<Rightarrow>
     (channel \<times> 'h world, work_success, transport_error) comp" where
  "ch_send fuel v oc wr = post_and_spin fuel v (ch_post_send v oc wr)"

definition ch_receive ::
  "nat \<Rightarrow> 'h verbs \<Rightarrow> bool \<Rightarrow> receive_work_request \<Rightarrow>
     (channel \<times> 'h world, work_success, transport_error) comp" where
  "ch_receive fuel v oc wr = post_and_spin fuel v (ch_post_receive v oc wr)"

definition ch_write ::
  "nat \<Rightarrow> 'h verbs \<Rightarrow> bool \<Rightarrow> write_work_request \<Rightarrow>
     (channel \<times> 'h world, work_success, transport_error) comp" where
  "ch_write fuel v oc wr = post_and_spin fuel v (ch_post_write v oc wr)"

definition ch_read ::
  "nat \<Rightarrow> 'h verbs \<Rightarrow> bool \<Rightarrow> read_work_request \<Rightarrow>
     (channel \<times> 'h world, work_success, transport_error) comp" where
  "ch_read fuel v oc wr = post_and_spin fuel v (ch_post_read v oc wr)"

section \<open>builder.rs\<close>

record prepared_channel =
  pch_cq :: cached_cq
  pch_qp :: prepared_queue_pair

definition channel_builder ::
  "'h verbs \<Rightarrow> protection_domain \<Rightarrow> u32 \<Rightarrow> qp_params \<Rightarrow> ('h, prepared_channel, ibv_error) comp" where
  "channel_builder v pd min_cq_entries p =
     bind_s (cq_create v (pd_context pd) min_cq_entries) (\<lambda>cq.
     bind_s (qp_builder v pd cq cq p) (\<lambda>qp.
       ret_s \<lparr>pch_cq = cached_wrap_cq cq, pch_qp = qp\<rparr>))"

definition pch_endpoint :: "prepared_channel \<Rightarrow> queue_pair_endpoint" where
  "pch_endpoint c = pqp_get_endpoint (pch_qp c)"

text \<open>The two \<open>Rc::new\<close> of the handshake allocate the next heap cell.\<close>

definition channel_handshake ::
  "'h verbs \<Rightarrow> prepared_channel \<Rightarrow> queue_pair_endpoint \<Rightarrow> ('h world, channel, ibv_error) comp" where
  "channel_handshake v c endpoint =
     bind_s (on_hw (qp_handshake v (pch_qp c) endpoint)) (\<lambda>qp w.
       let cq_min_capacity = cached_min_capacity (pch_cq c); ref = w_next w in
       (Ok \<lparr>ch_qp = qp, ch_shared = ref, ch_next_wr_id = 0\<rparr>,
        w\<lparr>w_shared :=
            (w_shared w)(ref :=
               \<lparr>sh_cq = pch_cq c,
                sh_buff = replicate (unat cq_min_capacity) (v_default_wc v)\<rparr>),
          w_next := Suc ref\<rparr>))"

end
