(* ===== verification/Channel_Lemmas.thy ===== *)
theory Channel_Lemmas
  imports Channel
begin

text \<open>
  What the polling of pending work guarantees: how a poll changes the state, that a polled work
  ends with a status, that every work of a scope is complete when the scope returns, that a
  blocking operation is a post followed by a busy wait, where a result comes from, that the ids of a
  channel do not repeat, and when a busy wait ends.
\<close>

section \<open>Hypotheses on the driver\<close>

text \<open>
  \<open>ibv_poll_cq\<close> as documented, on a completion queue that is not broken: it returns the number of
  completions written, at most the number asked for.
\<close>

definition poll_ok :: "'h verbs \<Rightarrow> bool" where
  "poll_ok v \<longleftrightarrow>
     (\<forall>cq ne buf h. 0 \<le> ne \<longrightarrow> ne \<le> int (length buf) \<longrightarrow>
        (case v_poll_cq v cq ne buf h of ((n, buf'), h') \<Rightarrow> 0 \<le> n \<and> n \<le> ne))"

text \<open>Every completion the driver writes is one of \<open>D\<close>.\<close>

definition polls_from :: "'h verbs \<Rightarrow> ibv_wc set \<Rightarrow> bool" where
  "polls_from v D \<longleftrightarrow>
     (\<forall>cq ne buf h. case v_poll_cq v cq ne buf h of ((n, buf'), h') \<Rightarrow> set (take (nat n) buf') \<subseteq> D)"

text \<open>
  Progress, for a work \<open>wr_id\<close> that is outstanding while \<open>pend\<close> holds of the device: a poll into a
  nonempty buffer reports it, fails, or makes the device come closer to it, as counted by \<open>m\<close>.
\<close>

definition delivers ::
  "'h verbs \<Rightarrow> completion_queue \<Rightarrow> u64 \<Rightarrow> ('h \<Rightarrow> bool) \<Rightarrow> ('h \<Rightarrow> nat) \<Rightarrow> bool" where
  "delivers v cq wr_id pend m \<longleftrightarrow>
     (\<forall>buf h. buf \<noteq> [] \<longrightarrow> pend h \<longrightarrow>
        (case cq_poll v cq (buf, h) of
           (Ok wcs, (buf', h')) \<Rightarrow>
             buf' \<noteq> [] \<and> (wr_id \<in> wc_wr_id ` set wcs \<or> pend h' \<and> m h' < m h)
         | _ \<Rightarrow> True))"

lemma poll_okD:
  assumes "poll_ok v" "0 \<le> ne" "ne \<le> int (length buf)"
    and "v_poll_cq v cq ne buf h = ((n, buf'), h')"
  shows "0 \<le> n" "n \<le> ne"
proof -
  have "case v_poll_cq v cq ne buf h of ((n, buf'), h') \<Rightarrow> 0 \<le> n \<and> n \<le> ne"
    using assms(1) [unfolded poll_ok_def, rule_format, OF assms(2,3)] .
  with assms(4) show "0 \<le> n" "n \<le> ne" by simp_all
qed

lemma cq_poll_ok:
  assumes "poll_ok v"
  obtains wcs s' where "cq_poll v cq s = (Ok wcs, s')"
proof -
  obtain buf h where s: "s = (buf, h)" by (cases s)
  define ne where "ne = (if length buf \<le> i32_max then int (length buf) else int i32_max)"
  have ne: "0 \<le> ne" "ne \<le> int (length buf)" by (auto simp: ne_def)
  obtain n buf' h' where p: "v_poll_cq v (cq_handle cq) ne buf h = ((n, buf'), h')"
    by (metis prod.exhaust)
  have "0 \<le> n" "n \<le> ne"
    using poll_okD [OF assms ne p] by simp_all
  with p ne have "cq_poll v cq s = (Ok (take (nat n) buf'), (buf', h'))"
    by (simp add: cq_poll_def s Let_def flip: ne_def)
  then show ?thesis by (rule that)
qed

lemma cached_update_ok:
  assumes "poll_ok v"
  obtains n s' where "cached_update v s = (Ok n, s')"
proof -
  obtain cc bufh where s: "s = (cc, bufh)" by (cases s)
  obtain wcs b' where "cq_poll v (cc_cq cc) bufh = (Ok wcs, b')"
    using assms by (rule cq_poll_ok)
  then show ?thesis
    using that s by (cases b') (auto simp: cached_update_def)
qed

lemma shared_update_ok:
  assumes "poll_ok v"
  obtains n w' where "shared_update v ref w = (Ok n, w')"
proof -
  obtain n s' where
    "cached_update v (sh_cq (w_shared w ref), sh_buff (w_shared w ref), w_hw w) = (Ok n, s')"
    using assms by (rule cached_update_ok)
  then show ?thesis
    using that by (cases s') (auto simp: shared_update_def)
qed

section \<open>One poll\<close>

lemma poll_result_of_cases [simp]:
  "poll_result_of res \<noteq> Panic" "poll_result_of res \<noteq> NoFuel"
  "poll_result_of res \<noteq> Err (TIbv e)"
  "Panic \<noteq> poll_result_of res" "NoFuel \<noteq> poll_result_of res"
  "Err (TIbv e) \<noteq> poll_result_of res"
  by (cases res; simp)+

text \<open>A poll never changes the identity of the work.\<close>

lemma pw_poll_frame:
  "pw_poll v (p, w) = (r, (p', w')) \<Longrightarrow> pw_wr_id p' = pw_wr_id p \<and> pw_shared p' = pw_shared p"
  by (auto simp: pw_poll_def split: option.splits prod.splits outcome.splits if_splits)

text \<open>A status, once there, is what every later poll returns, and no poll changes the world.\<close>

lemma pw_poll_done:
  "pw_status p = Some res \<Longrightarrow> pw_poll v (p, w) = (Some (poll_result_of res), (p, w))"
  by (simp add: pw_poll_def)

text \<open>The outcome of a poll and the status it leaves.\<close>

lemma pw_poll_status:
  assumes "pw_poll v (p, w) = (r, (p', w'))"
  shows "(case pw_status p' of
            Some res \<Rightarrow> r = Some (poll_result_of res)
          | None \<Rightarrow> r = None \<or> r = Some Panic \<or> (\<exists>e. r = Some (Err (TIbv e))) \<or> r = Some NoFuel)"
  using assms by (auto simp: pw_poll_def split: option.splits prod.splits outcome.splits if_splits)

lemma pw_poll_ok_status:
  assumes "poll_ok v" "pw_poll v (p, w) = (Some r, (p', w'))"
  obtains res where "pw_status p' = Some res" "r = poll_result_of res"
proof -
  have "\<exists>res. pw_status p' = Some res \<and> r = poll_result_of res"
  proof (cases "pw_status p")
    case (Some res)
    with assms(2) show ?thesis by (auto simp: pw_poll_def)
  next
    case None
    obtain c w1 where c: "consume_cache (pw_wr_id p) (pw_shared p) w = (c, w1)"
      by (metis prod.exhaust)
    obtain n w2 where "shared_update v (pw_shared p) w1 = (Ok n, w2)"
      using assms(1) by (rule shared_update_ok)
    with None c assms(2) show ?thesis
      by (auto simp: pw_poll_def split: option.splits prod.splits if_splits)
  qed
  with that show ?thesis by blast
qed

section \<open>Busy waits\<close>

lemma pw_spin_poll_done:
  "pw_status p = Some res \<Longrightarrow> pw_spin_poll (Suc fuel) v (p, w) = (poll_result_of res, (p, w))"
  by (simp add: pw_poll_done)

lemma pw_spin_poll_frame:
  "pw_spin_poll fuel v (p, w) = (r, (p', w')) \<Longrightarrow>
     pw_wr_id p' = pw_wr_id p \<and> pw_shared p' = pw_shared p"
proof (induction fuel arbitrary: p w)
  case 0
  then show ?case by simp
next
  case (Suc fuel)
  obtain x p1 w1 where x: "pw_poll v (p, w) = (x, (p1, w1))"
    by (metis prod.exhaust)
  from pw_poll_frame [OF this] x Suc show ?case
    by (cases x) (auto split: prod.splits)
qed

lemma pw_spin_poll_ok:
  assumes "poll_ok v" "pw_spin_poll fuel v (p, w) = (r, (p', w'))"
  shows "r = NoFuel \<or> (\<exists>res. pw_status p' = Some res \<and> r = poll_result_of res)"
  using assms(2)
proof (induction fuel arbitrary: p w)
  case 0
  then show ?case by simp
next
  case (Suc fuel)
  obtain x p1 w1 where x: "pw_poll v (p, w) = (x, (p1, w1))"
    by (metis prod.exhaust)
  show ?case
  proof (cases x)
    case None
    with Suc x show ?thesis by simp
  next
    case (Some r1)
    with x have "pw_poll v (p, w) = (Some r1, (p1, w1))" by simp
    from assms(1) this obtain res where "pw_status p1 = Some res" "r1 = poll_result_of res"
      by (rule pw_poll_ok_status)
    with Suc.prems x Some show ?thesis by auto
  qed
qed

lemma pw_spin_poll_no_panic:
  "poll_ok v \<Longrightarrow> fst (pw_spin_poll fuel v s) \<noteq> Panic"
  using pw_spin_poll_ok [of v fuel "fst s" "snd s"]
  by (metis outcome.distinct(11) poll_result_of_cases(1) prod.collapse)

text \<open>Fuel only matters when it runs out.\<close>

lemma pw_spin_poll_mono:
  "pw_spin_poll fuel v s = (r, s') \<Longrightarrow> r \<noteq> NoFuel \<Longrightarrow> fuel \<le> fuel' \<Longrightarrow>
     pw_spin_poll fuel' v s = (r, s')"
proof (induction fuel arbitrary: s fuel')
  case 0
  then show ?case by simp
next
  case (Suc fuel)
  then obtain k where "fuel' = Suc k" "fuel \<le> k" by (cases fuel') auto
  with Suc show ?case by (auto split: prod.splits option.splits)
qed

text \<open>The drop of a finished work does nothing.\<close>

lemma pw_drop_done:
  "pw_status p = Some res \<Longrightarrow> 0 < fuel \<Longrightarrow> pw_drop fuel v (p, w) = (Ok (), (p, w))"
  by (cases fuel; cases res) (simp_all add: pw_drop_def pw_poll_done)

lemma pw_drop_ok:
  assumes "poll_ok v" "pw_drop fuel v (p, w) = (r, (p', w'))"
  shows "r = NoFuel \<or> (r = Ok () \<and> pw_status p' \<noteq> None)"
proof -
  obtain x p1 w1 where x: "pw_spin_poll fuel v (p, w) = (x, (p1, w1))"
    by (metis prod.exhaust)
  from pw_spin_poll_ok [OF assms(1) this] x assms(2) show ?thesis
    by (auto simp: pw_drop_def split: outcome.splits)
qed

lemma pw_drop_frame:
  assumes "pw_drop fuel v (p, w) = (r, (p', w'))"
  shows "pw_wr_id p' = pw_wr_id p \<and> pw_shared p' = pw_shared p"
proof -
  obtain x p1 w1 where x: "pw_spin_poll fuel v (p, w) = (x, (p1, w1))"
    by (metis prod.exhaust)
  from pw_spin_poll_frame [OF this] x assms show ?thesis
    by (auto simp: pw_drop_def split: outcome.splits)
qed

section \<open>The end of a scope\<close>

text \<open>\<open>works_same\<close>: the same works, as far as their identity goes.\<close>

definition works_same :: "scoped_work list \<Rightarrow> scoped_work list \<Rightarrow> bool" where
  "works_same xs ys \<longleftrightarrow>
     map (\<lambda>x. (pw_wr_id (sw_work x), pw_shared (sw_work x))) xs =
     map (\<lambda>x. (pw_wr_id (sw_work x), pw_shared (sw_work x))) ys"

definition all_complete :: "scoped_work list \<Rightarrow> bool" where
  "all_complete xs \<longleftrightarrow> (\<forall>x \<in> set xs. pw_status (sw_work x) \<noteq> None)"

lemma works_same_refl [simp]: "works_same xs xs"
  by (simp add: works_same_def)

lemma works_same_length: "works_same xs ys \<Longrightarrow> length xs = length ys"
  unfolding works_same_def by (drule arg_cong [where f = length]) simp

text \<open>One round in two parts: the polling, when the user has not polled, and the drop.\<close>

definition round_poll ::
  "nat \<Rightarrow> 'h verbs \<Rightarrow> scoped_work \<Rightarrow> 'h world \<Rightarrow>
     (bool \<times> transport_error list, unit) outcome \<times> pending_work \<times> 'h world" where
  "round_poll fuel v wr w =
     (if sw_user_polled wr then (Ok (False, []), (sw_work wr, w))
      else
        case pw_spin_poll fuel v (sw_work wr, w) of
          (Ok _, s) \<Rightarrow> (Ok (True, []), s)
        | (Err e, s) \<Rightarrow> (Ok (True, [e]), s)
        | (Panic, s) \<Rightarrow> (Panic, s)
        | (NoFuel, s) \<Rightarrow> (NoFuel, s))"

lemma round_poll_frame:
  assumes "round_poll fuel v wr w = (r, (p', w'))"
  shows "pw_wr_id p' = pw_wr_id (sw_work wr) \<and> pw_shared p' = pw_shared (sw_work wr)"
proof (cases "sw_user_polled wr")
  case True
  with assms show ?thesis by (simp add: round_poll_def)
next
  case False
  obtain x p1 w1 where x: "pw_spin_poll fuel v (sw_work wr, w) = (x, (p1, w1))"
    by (metis prod.exhaust)
  from pw_spin_poll_frame [OF x] x assms False show ?thesis
    by (cases x) (simp_all add: round_poll_def)
qed

lemma round_poll_ok:
  assumes "poll_ok v" "round_poll fuel v wr w = (r, (p', w'))"
  shows "r = NoFuel \<or> (\<exists>errs. r = Ok (\<not> sw_user_polled wr, errs))"
proof (cases "sw_user_polled wr")
  case True
  with assms show ?thesis by (auto simp: round_poll_def)
next
  case False
  obtain x p1 w1 where x: "pw_spin_poll fuel v (sw_work wr, w) = (x, (p1, w1))"
    by (metis prod.exhaust)
  from pw_spin_poll_ok [OF assms(1) x] x assms False show ?thesis
    by (cases x) (auto simp: round_poll_def)
qed

lemma auto_poll_one_split:
  assumes "round_poll fuel v wr w = (r, (p, w1))" "pw_drop fuel v (p, w1) = (d, (p', w'))"
  shows "auto_poll_one fuel v wr w =
     (case r of
        Ok a \<Rightarrow>
          (case d of Panic \<Rightarrow> (Panic, wr\<lparr>sw_work := p'\<rparr>, w')
                   | NoFuel \<Rightarrow> (NoFuel, wr\<lparr>sw_work := p'\<rparr>, w')
                   | _ \<Rightarrow> (Ok a, wr\<lparr>sw_work := p'\<rparr>, w'))
      | Err u \<Rightarrow> (Err u, wr\<lparr>sw_work := p\<rparr>, w1)
      | Panic \<Rightarrow> (Panic, wr\<lparr>sw_work := p\<rparr>, w1)
      | NoFuel \<Rightarrow> (NoFuel, wr\<lparr>sw_work := p\<rparr>, w1))"
  using assms unfolding auto_poll_one_def round_poll_def
  by (cases r; cases d) simp_all

lemma auto_poll_one_frame:
  assumes "auto_poll_one fuel v wr w = (r, wr', w')"
  shows "pw_wr_id (sw_work wr') = pw_wr_id (sw_work wr) \<and>
         pw_shared (sw_work wr') = pw_shared (sw_work wr) \<and> sw_user_polled wr' = sw_user_polled wr"
proof -
  obtain x p1 w1 where x: "round_poll fuel v wr w = (x, (p1, w1))" by (metis prod.exhaust)
  obtain z p3 w3 where z: "pw_drop fuel v (p1, w1) = (z, (p3, w3))" by (metis prod.exhaust)
  from assms auto_poll_one_split [OF x z] round_poll_frame [OF x] pw_drop_frame [OF z]
  show ?thesis by (cases x; cases z) auto
qed

lemma auto_poll_one_ok:
  assumes "poll_ok v" "auto_poll_one fuel v wr w = (r, wr', w')"
  shows "r = NoFuel \<or>
         (\<exists>errs. r = Ok (\<not> sw_user_polled wr, errs)) \<and> pw_status (sw_work wr') \<noteq> None"
proof -
  obtain x p1 w1 where x: "round_poll fuel v wr w = (x, (p1, w1))" by (metis prod.exhaust)
  obtain z p3 w3 where z: "pw_drop fuel v (p1, w1) = (z, (p3, w3))" by (metis prod.exhaust)
  from assms(2) auto_poll_one_split [OF x z] round_poll_ok [OF assms(1) x]
    pw_drop_ok [OF assms(1) z]
  show ?thesis by (cases x; cases z) auto
qed

lemma auto_poll_loop_frame:
  "auto_poll_loop fuel v wrs w = (r, wrs', w') \<Longrightarrow> works_same wrs' wrs"
proof (induction wrs arbitrary: w r wrs' w')
  case Nil
  then show ?case by simp
next
  case (Cons wr wrs)
  obtain x wr1 w1 where x: "auto_poll_one fuel v wr w = (x, wr1, w1)" by (metis prod.exhaust)
  obtain y ys w2 where y: "auto_poll_loop fuel v wrs w1 = (y, ys, w2)" by (metis prod.exhaust)
  from Cons.IH [OF y] auto_poll_one_frame [OF x] Cons.prems x y show ?case
    by (cases x; cases y) (auto simp: works_same_def split: prod.splits)
qed

text \<open>
  Every work ends with a status, and the loop reports whether there was one the user had not
  polled.
\<close>

lemma auto_poll_loop_ok:
  assumes "poll_ok v"
  shows "auto_poll_loop fuel v wrs w = (r, wrs', w') \<Longrightarrow>
     r = NoFuel \<or>
     (\<exists>errs. r = Ok (\<exists>x \<in> set wrs. \<not> sw_user_polled x, errs)) \<and> all_complete wrs'"
proof (induction wrs arbitrary: w r wrs' w')
  case Nil
  then show ?case by (auto simp: all_complete_def)
next
  case (Cons wr wrs)
  obtain x wr1 w1 where x: "auto_poll_one fuel v wr w = (x, wr1, w1)" by (metis prod.exhaust)
  obtain y ys w2 where y: "auto_poll_loop fuel v wrs w1 = (y, ys, w2)" by (metis prod.exhaust)
  from Cons.IH [OF y] auto_poll_one_ok [OF assms x] Cons.prems x y show ?case
    by (cases x; cases y) (auto simp: all_complete_def split: prod.splits)
qed

lemma auto_poll_frame:
  "auto_poll fuel v sc = (r, sc') \<Longrightarrow> works_same (sc_wrs sc') (sc_wrs sc)"
  using auto_poll_loop_frame
  by (fastforce simp: auto_poll_def split: prod.splits)

lemma auto_poll_ok:
  assumes "poll_ok v" "auto_poll fuel v sc = (r, sc')"
  shows "r = NoFuel \<or>
         all_complete (sc_wrs sc') \<and> r \<noteq> Panic \<and>
         (r = Ok NoPendingWorks \<longleftrightarrow> (\<forall>x \<in> set (sc_wrs sc). sw_user_polled x))"
proof -
  obtain x wrs' w' where x: "auto_poll_loop fuel v (sc_wrs sc) (sc_world sc) = (x, wrs', w')"
    by (metis prod.exhaust)
  from auto_poll_loop_ok [OF assms(1) x] x assms(2) show ?thesis
    by (auto simp: auto_poll_def split: if_splits)
qed

lemma scope_run_decomp:
  assumes "scope_run fuel v f sc0 = (r, sc2)" "r \<noteq> NoFuel"
  obtains c sc1 a where "f sc0 = (c, sc1)" "c \<noteq> NoFuel" "auto_poll fuel v sc1 = (a, sc2)"
    "a \<noteq> NoFuel"
proof -
  obtain c sc1 where f: "f sc0 = (c, sc1)" by (cases "f sc0")
  obtain a sc where a: "auto_poll fuel v sc1 = (a, sc)" by (cases "auto_poll fuel v sc1")
  from assms f a that show ?thesis
    by (cases c; cases a; simp add: scope_run_def)
qed

lemma scope_run_manual_decomp:
  assumes "scope_run_manual fuel v f sc0 = (r, sc2)" "r \<noteq> NoFuel"
  obtains c sc1 a where "f sc0 = (c, sc1)" "c \<noteq> NoFuel" "auto_poll fuel v sc1 = (a, sc2)"
    "a \<noteq> NoFuel"
proof -
  obtain c sc1 where f: "f sc0 = (c, sc1)" by (cases "f sc0")
  obtain a sc where a: "auto_poll fuel v sc1 = (a, sc)" by (cases "auto_poll fuel v sc1")
  from assms f a that show ?thesis
    by (cases c; cases a; simp add: scope_run_manual_def)
qed

lemma scope_run_complete:
  assumes "poll_ok v" "scope_run fuel v f sc0 = (r, sc2)" "r \<noteq> NoFuel"
  shows "all_complete (sc_wrs sc2) \<and> works_same (sc_wrs sc2) (sc_wrs (snd (f sc0)))"
proof -
  from assms(2,3) obtain c sc1 a where f: "f sc0 = (c, sc1)"
    and a: "auto_poll fuel v sc1 = (a, sc2)" "a \<noteq> NoFuel"
    by (rule scope_run_decomp)
  from auto_poll_ok [OF assms(1) a(1)] auto_poll_frame [OF a(1)] a(2) f show ?thesis by simp
qed

lemma scope_run_manual_complete:
  assumes "poll_ok v" "scope_run_manual fuel v f sc0 = (r, sc2)" "r \<noteq> NoFuel"
  shows "all_complete (sc_wrs sc2) \<and> works_same (sc_wrs sc2) (sc_wrs (snd (f sc0)))"
proof -
  from assms(2,3) obtain c sc1 a where f: "f sc0 = (c, sc1)"
    and a: "auto_poll fuel v sc1 = (a, sc2)" "a \<noteq> NoFuel"
    by (rule scope_run_manual_decomp)
  from auto_poll_ok [OF assms(1) a(1)] auto_poll_frame [OF a(1)] a(2) f show ?thesis by simp
qed

text \<open>A panic of the closure leaves the scope only after the automatic polling.\<close>

lemma scope_run_panic:
  assumes "poll_ok v" "f sc0 = (Panic, sc1)" "scope_run fuel v f sc0 = (r, sc2)" "r \<noteq> NoFuel"
  shows "r = Panic"
  using assms scope_run_complete [OF assms(1,3,4)]
  by (auto simp: scope_run_def split: prod.splits outcome.splits)

lemma scope_run_manual_result:
  assumes "poll_ok v" "f sc0 = (c, sc1)" "scope_run_manual fuel v f sc0 = (r, sc2)" "r \<noteq> NoFuel"
  shows "r = (case c of
                Ok x \<Rightarrow> if \<forall>y \<in> set (sc_wrs sc1). sw_user_polled y then Ok x else Panic
              | _ \<Rightarrow> c)"
proof -
  from assms(3,4) obtain c' sc1' a where f: "f sc0 = (c', sc1')"
    and a: "auto_poll fuel v sc1' = (a, sc2)" "a \<noteq> NoFuel"
    by (rule scope_run_manual_decomp)
  from f assms(2) have eq: "c' = c" "sc1' = sc1" by simp_all
  from auto_poll_ok [OF assms(1) a(1)] a(2)
  have n: "a \<noteq> Panic" "a = Ok NoPendingWorks \<longleftrightarrow> (\<forall>x \<in> set (sc_wrs sc1). sw_user_polled x)"
    by (auto simp: eq)
  show ?thesis
  proof (cases a)
    case (Ok b)
    with n a assms(2-4) eq show ?thesis
      by (cases b; cases c) (auto simp: scope_run_manual_def)
  next
    case (Err b)
    with n a assms(2-4) eq show ?thesis
      by (cases c) (auto simp: scope_run_manual_def)
  qed (use n a in auto)
qed

text \<open>The errors that the automatic polling reports: those of the failed works it polled, in order.\<close>

definition unpolled_failures :: "scoped_work list \<Rightarrow> transport_error list" where
  "unpolled_failures wrs =
     concat (map (\<lambda>x. if sw_user_polled x then []
                      else case pw_status (sw_work x) of Some (Inl e) \<Rightarrow> [TWork e] | _ \<Rightarrow> []) wrs)"

lemma unpolled_failures_Nil [simp]: "unpolled_failures [] = []"
  by (simp add: unpolled_failures_def)

lemma unpolled_failures_Cons: "unpolled_failures (x # xs) = unpolled_failures [x] @ unpolled_failures xs"
  by (simp add: unpolled_failures_def)

lemma auto_poll_one_failures:
  assumes "poll_ok v" "auto_poll_one fuel v wr w = (Ok (b, errs), wr', w')"
  shows "errs = unpolled_failures [wr'] \<and> (\<not> b \<longrightarrow> errs = [])"
proof -
  obtain x p1 w1 where x: "round_poll fuel v wr w = (x, (p1, w1))" by (metis prod.exhaust)
  obtain z p3 w3 where z: "pw_drop fuel v (p1, w1) = (z, (p3, w3))" by (metis prod.exhaust)
  have r: "x = Ok (b, errs)" "wr' = wr\<lparr>sw_work := p3\<rparr>"
    using assms(2) auto_poll_one_split [OF x z] by (cases x; cases z; auto)+
  show ?thesis
  proof (cases "sw_user_polled wr")
    case True
    with x r show ?thesis by (simp add: round_poll_def unpolled_failures_def)
  next
    case False
    obtain y p2 w2 where y: "pw_spin_poll fuel v (sw_work wr, w) = (y, (p2, w2))" by (metis prod.exhaust)
    have n: "y \<noteq> NoFuel" and p: "p1 = p2" "w1 = w2" and b: "b"
      using x r(1) y False by (cases y; auto simp: round_poll_def)+
    from pw_spin_poll_ok [OF assms(1) y] n obtain res where
      res: "pw_status p2 = Some res" "y = poll_result_of res" by blast
    have "0 < fuel" using y n by (cases fuel) auto
    with pw_drop_done [OF res(1), of fuel v w2] z p have "p3 = p2" by simp
    with x r y False res b show ?thesis
      by (cases res) (auto simp: round_poll_def unpolled_failures_def)
  qed
qed

lemma auto_poll_loop_failures:
  assumes "poll_ok v"
  shows "auto_poll_loop fuel v wrs w = (Ok (b, errs), wrs', w') \<Longrightarrow>
     errs = unpolled_failures wrs' \<and> (\<not> b \<longrightarrow> errs = [])"
proof (induction wrs arbitrary: w b errs wrs' w')
  case Nil
  then show ?case by simp
next
  case (Cons wr wrs)
  obtain x wr1 w1 where x: "auto_poll_one fuel v wr w = (x, wr1, w1)" by (metis prod.exhaust)
  obtain y ys w2 where y: "auto_poll_loop fuel v wrs w1 = (y, ys, w2)" by (metis prod.exhaust)
  from Cons.prems x y obtain b1 e1 b2 e2 where 1: "x = Ok (b1, e1)" "y = Ok (b2, e2)"
    and 2: "b = (b1 \<or> b2)" "errs = e1 @ e2" "wrs' = wr1 # ys"
    by (cases x; cases y) (auto split: prod.splits)
  from auto_poll_one_failures [OF assms x [unfolded 1(1)]] Cons.IH [OF y [unfolded 1(2)]] 2
  show ?case unfolding 2 unpolled_failures_Cons [of wr1 ys] by blast
qed

lemma auto_poll_failures:
  assumes "poll_ok v" "auto_poll fuel v sc = (r, sc')" "r \<noteq> NoFuel"
  shows "(case r of
            Ok _ \<Rightarrow> unpolled_failures (sc_wrs sc') = []
          | Err errs \<Rightarrow> errs = unpolled_failures (sc_wrs sc') \<and> errs \<noteq> []
          | _ \<Rightarrow> False)"
proof -
  obtain x wrs' w' where x: "auto_poll_loop fuel v (sc_wrs sc) (sc_world sc) = (x, wrs', w')"
    by (metis prod.exhaust)
  from auto_poll_loop_ok [OF assms(1) x] x assms(2,3) obtain b errs where ok: "x = Ok (b, errs)"
    by (auto simp: auto_poll_def)
  from auto_poll_loop_failures [OF assms(1) x [unfolded ok]] x ok assms(2) show ?thesis
    by (cases "errs = []") (auto simp: auto_poll_def)
qed

lemma scope_run_result:
  assumes "poll_ok v" "f sc0 = (c, sc1)" "scope_run fuel v f sc0 = (r, sc2)" "r \<noteq> NoFuel"
  shows "r = (case c of
                Ok x \<Rightarrow>
                  if unpolled_failures (sc_wrs sc2) = [] then Ok x
                  else Err (AutoPollError (unpolled_failures (sc_wrs sc2)))
              | Err e \<Rightarrow> Err (ClosureError e)
              | _ \<Rightarrow> Panic)"
proof -
  from assms(3,4) obtain c' sc1' a where f: "f sc0 = (c', sc1')" "c' \<noteq> NoFuel"
    and a: "auto_poll fuel v sc1' = (a, sc2)" "a \<noteq> NoFuel"
    by (rule scope_run_decomp)
  from f assms(2) have eq: "c' = c" "sc1' = sc1" by simp_all
  note fails = auto_poll_failures [OF assms(1) a]
  from fails f a assms(2-4) show ?thesis
    unfolding eq by (cases a; cases c) (auto simp: scope_run_def)
qed

section \<open>What a closure can do with its scope\<close>

text \<open>
  The scope's fields are private: a closure reaches the scope only through posts and through the
  handles they returned.
\<close>

inductive scope_step :: "'h verbs \<Rightarrow> ('c, 'h) scope \<Rightarrow> ('c, 'h) scope \<Rightarrow> bool" for v where
  step_post: "scope_step v sc (snd (channel_post sel post sc))"
| step_poll: "scope_step v sc (snd (scoped_poll v i sc))"
| step_spin: "scope_step v sc (snd (scoped_spin_poll fuel v i sc))"

inductive scope_reach :: "'h verbs \<Rightarrow> ('c, 'h) scope \<Rightarrow> ('c, 'h) scope \<Rightarrow> bool" for v where
  reach_refl: "scope_reach v sc sc"
| reach_step: "scope_reach v sc sc1 \<Longrightarrow> scope_step v sc1 sc2 \<Longrightarrow> scope_reach v sc sc2"

inductive_cases scope_stepE: "scope_step v sc sc'"

text \<open>The works of \<open>xs\<close>, in their order, are the first works of \<open>ys\<close>.\<close>

definition works_kept :: "scoped_work list \<Rightarrow> scoped_work list \<Rightarrow> bool" where
  "works_kept xs ys \<longleftrightarrow> length xs \<le> length ys \<and> works_same xs (take (length xs) ys)"

lemma works_kept_refl [simp]: "works_kept xs xs"
  by (simp add: works_kept_def)

lemma works_kept_nth:
  "works_kept xs ys \<longleftrightarrow> length xs \<le> length ys \<and>
     (\<forall>i < length xs. pw_wr_id (sw_work (ys ! i)) = pw_wr_id (sw_work (xs ! i)) \<and>
                      pw_shared (sw_work (ys ! i)) = pw_shared (sw_work (xs ! i)))"
  by (auto simp: works_kept_def works_same_def list_eq_iff_nth_eq)

lemma works_kept_trans: "works_kept xs ys \<Longrightarrow> works_kept ys zs \<Longrightarrow> works_kept xs zs"
  by (simp add: works_kept_nth)

lemma works_same_kept: "works_same xs ys \<Longrightarrow> works_kept ys xs"
  using works_same_length [of xs ys] by (simp add: works_kept_def works_same_def)

lemma scoped_poll_frame: "works_same (sc_wrs (snd (scoped_poll v i sc))) (sc_wrs sc)"
proof (cases "i < length (sc_wrs sc)")
  case True
  obtain r p' w' where r: "pw_poll v (sw_work (sc_wrs sc ! i), sc_world sc) = (r, (p', w'))"
    by (metis prod.exhaust)
  from pw_poll_frame [OF r] r True show ?thesis
    by (auto simp: scoped_poll_def put_work_def works_same_def list_eq_iff_nth_eq nth_list_update
        Let_def split: option.splits outcome.splits)
qed (simp add: scoped_poll_def)

lemma scoped_spin_poll_frame:
  "works_same (sc_wrs (snd (scoped_spin_poll fuel v i sc))) (sc_wrs sc)"
proof (cases "i < length (sc_wrs sc)")
  case True
  obtain r p' w' where
    r: "pw_spin_poll fuel v (sw_work (sc_wrs sc ! i), sc_world sc) = (r, (p', w'))"
    by (metis prod.exhaust)
  from pw_spin_poll_frame [OF r] r True show ?thesis
    by (auto simp: scoped_spin_poll_def put_work_def works_same_def list_eq_iff_nth_eq
        nth_list_update Let_def split: outcome.splits)
qed (simp add: scoped_spin_poll_def)

lemma channel_post_kept: "works_kept (sc_wrs sc) (sc_wrs (snd (channel_post sel post sc)))"
  by (auto simp: channel_post_def works_kept_def Let_def split: outcome.splits prod.splits)

lemma scope_step_kept: "scope_step v sc sc' \<Longrightarrow> works_kept (sc_wrs sc) (sc_wrs sc')"
  by (elim scope_stepE)
    (simp_all add: channel_post_kept works_same_kept scoped_poll_frame scoped_spin_poll_frame)

lemma scope_reach_kept: "scope_reach v sc sc' \<Longrightarrow> works_kept (sc_wrs sc) (sc_wrs sc')"
  by (induction rule: scope_reach.induct) (auto intro: works_kept_trans dest: scope_step_kept)

text \<open>
  A post that succeeds registers its work at the index it returns, and the work is complete at the
  end of the scope whatever the closure does afterwards.
\<close>

lemma scope_run_completes_post:
  assumes "poll_ok v"
    and post: "channel_post sel post sc = (Ok i, sc')"
    and reach: "scope_reach v sc' (snd (f sc0))"
    and run: "scope_run fuel v f sc0 = (r, sc2)" "r \<noteq> NoFuel"
  shows "i < length (sc_wrs sc2) \<and>
         pw_wr_id (sw_work (sc_wrs sc2 ! i)) = pw_wr_id (sw_work (sc_wrs sc' ! i)) \<and>
         pw_status (sw_work (sc_wrs sc2 ! i)) \<noteq> None"
proof -
  have i: "i < length (sc_wrs sc')"
    using post by (auto simp: channel_post_def Let_def split: outcome.splits prod.splits)
  have c: "all_complete (sc_wrs sc2)" "works_same (sc_wrs sc2) (sc_wrs (snd (f sc0)))"
    using scope_run_complete [OF assms(1) run] by simp_all
  have "works_kept (sc_wrs sc') (sc_wrs sc2)"
    using scope_reach_kept [OF reach] works_same_kept [OF c(2)] by (rule works_kept_trans)
  with i have "i < length (sc_wrs sc2)"
    "pw_wr_id (sw_work (sc_wrs sc2 ! i)) = pw_wr_id (sw_work (sc_wrs sc' ! i))"
    by (auto simp: works_kept_nth)
  with c(1) show ?thesis by (simp add: all_complete_def)
qed

section \<open>Blocking operations\<close>

lemma scoped_spin_poll_last:
  assumes "poll_ok v" "sc_wrs sc = [scoped_work_new p]"
    and "pw_spin_poll fuel v (p, sc_world sc) = (r, (p', w'))"
  shows "scoped_spin_poll fuel v 0 sc =
           (r, sc\<lparr>sc_wrs := [\<lparr>sw_user_polled = (r \<noteq> NoFuel), sw_work = p'\<rparr>], sc_world := w'\<rparr>)"
proof -
  have "r \<noteq> Panic" using pw_spin_poll_no_panic [OF assms(1), of fuel "(p, sc_world sc)"] assms(3) by simp
  with assms show ?thesis
    by (cases r) (simp_all add: scoped_spin_poll_def put_work_def scoped_work_new_def Let_def)
qed

text \<open>
  A blocking operation is the post followed by the busy wait, and nothing else: the automatic
  polling at the end finds nothing to do and never panics.
\<close>

lemma post_and_spin_eq:
  assumes "poll_ok v"
    and sel: "sel_get sel inner = Ok ch" "\<And>ch'. sel_put sel ch' inner = inner' ch'"
    and post: "post (ch, w) = (Ok p, (ch', w'))"
    and spin: "pw_spin_poll fuel v (p, w') = (r, (p', w''))" "r \<noteq> NoFuel"
  shows "post_and_spin fuel v (map_err_s TIbv (channel_post sel post)) (inner, w) =
           (r, (inner' ch', w''))"
proof -
  let ?sc0 = "scope_new inner w"
  let ?sc1 = "\<lparr>sc_inner = inner' ch', sc_wrs = [scoped_work_new p], sc_world = w'\<rparr>"
  let ?sc2 = "?sc1\<lparr>sc_wrs := [\<lparr>sw_user_polled = True, sw_work = p'\<rparr>], sc_world := w''\<rparr>"
  let ?f = "bind_s (map_err_s TIbv (channel_post sel post)) (\<lambda>i. scoped_spin_poll fuel v i)"
  have p1: "map_err_s TIbv (channel_post sel post) ?sc0 = (Ok 0, ?sc1)"
    using sel post by (simp add: map_err_s_def channel_post_def scope_new_def Let_def)
  have p2: "scoped_spin_poll fuel v 0 ?sc1 = (r, ?sc2)"
    using scoped_spin_poll_last [OF assms(1), of ?sc1 p fuel r p' w''] spin by simp
  have f: "?f ?sc0 = (r, ?sc2)"
    using p1 p2 by (simp add: bind_s_def)
  obtain res where res: "pw_status p' = Some res" "r = poll_result_of res"
    using pw_spin_poll_ok [OF assms(1) spin(1)] spin(2) by blast
  have fuel: "0 < fuel" using spin by (cases fuel) auto
  have "auto_poll fuel v ?sc2 = (Ok NoPendingWorks, ?sc2)"
    using pw_drop_done [OF res(1) fuel, of v w''] by (simp add: auto_poll_def auto_poll_one_def)
  with f res show ?thesis
    by (cases res; simp add: post_and_spin_def run_manual_scope_def with_scope_def
        scope_run_manual_def)
qed

lemma post_and_spin_post_fails:
  assumes sel: "sel_get sel inner = Ok ch" "\<And>ch'. sel_put sel ch' inner = inner' ch'"
    and post: "post (ch, w) = (Err e, (ch', w'))"
  shows "post_and_spin fuel v (map_err_s TIbv (channel_post sel post)) (inner, w) =
           (Err (TIbv e), (inner' ch', w'))"
  using assms
  by (simp add: post_and_spin_def run_manual_scope_def with_scope_def scope_run_manual_def
      bind_s_def map_err_s_def channel_post_def scope_new_def auto_poll_def Let_def)

text \<open>The same as one equation, the panic of the id counter and the missing fuel included.\<close>

lemma post_and_spin_equation:
  assumes ok: "poll_ok v"
    and sel: "sel_get sel inner = Ok ch" "\<And>c. sel_put sel c inner = put c"
  shows "post_and_spin fuel v (map_err_s TIbv (channel_post sel post)) (inner, w) =
     (case post (ch, w) of
        (Ok p, (ch', w')) \<Rightarrow>
          (case pw_spin_poll fuel v (p, w') of (r, (p', w'')) \<Rightarrow> (r, (put ch', w'')))
      | (Err e, (ch', w')) \<Rightarrow> (Err (TIbv e), (put ch', w'))
      | (Panic, (ch', w')) \<Rightarrow> (Panic, (put ch', w'))
      | (NoFuel, (ch', w')) \<Rightarrow> (NoFuel, (put ch', w')))"
proof -
  obtain x ch' w' where x: "post (ch, w) = (x, (ch', w'))" by (metis prod.exhaust)
  show ?thesis
  proof (cases x)
    case (Ok p)
    obtain r p' w'' where r: "pw_spin_poll fuel v (p, w') = (r, (p', w''))" by (metis prod.exhaust)
    show ?thesis
    proof (cases "r = NoFuel")
      case True
      let ?sc1 = "\<lparr>sc_inner = put ch', sc_wrs = [scoped_work_new p], sc_world = w'\<rparr>"
      have "scoped_spin_poll fuel v 0 ?sc1 =
              (r, ?sc1\<lparr>sc_wrs := [\<lparr>sw_user_polled = False, sw_work = p'\<rparr>], sc_world := w''\<rparr>)"
        using scoped_spin_poll_last [OF ok, of ?sc1 p fuel r p' w''] r True by simp
      with True r x Ok sel show ?thesis
        by (simp add: post_and_spin_def run_manual_scope_def with_scope_def scope_run_manual_def
            bind_s_def map_err_s_def channel_post_def scope_new_def Let_def)
    next
      case False
      with post_and_spin_eq [where inner' = put and post = post and ch = ch, OF ok sel x [unfolded Ok] r False] x Ok r show ?thesis by simp
    qed
  next
    case (Err e)
    with post_and_spin_post_fails [where inner' = put and post = post and ch = ch, OF sel x [unfolded Err]] x show ?thesis by simp
  qed (use x sel in \<open>simp_all add: post_and_spin_def run_manual_scope_def with_scope_def
      scope_run_manual_def bind_s_def map_err_s_def channel_post_def scope_new_def auto_poll_def
      Let_def\<close>)
qed

lemma post_and_spin_select_fails:
  assumes "sel_get sel inner = Err e"
  shows "post_and_spin fuel v (map_err_s TIbv (channel_post sel post)) (inner, w) =
           (Err (TIbv e), (inner, w))"
  using assms
  by (simp add: post_and_spin_def run_manual_scope_def with_scope_def scope_run_manual_def
      bind_s_def map_err_s_def channel_post_def scope_new_def auto_poll_def Let_def)

text \<open>The four blocking operations of a channel are instances.\<close>

lemma blocking_equation:
  assumes "poll_ok v"
    and "(blocking, post) \<in> {(ch_send fuel v oc swr, send_unpolled v oc swr),
                             (ch_receive fuel v oc rwr, receive_unpolled v oc rwr),
                             (ch_write fuel v oc wwr, write_unpolled v oc wwr),
                             (ch_read fuel v oc dwr, read_unpolled v oc dwr)}"
  shows "blocking (ch, w) =
     (case post (ch, w) of
        (Ok p, (ch', w')) \<Rightarrow>
          (case pw_spin_poll fuel v (p, w') of (r, (p', w'')) \<Rightarrow> (r, (ch', w'')))
      | (Err e, (ch', w')) \<Rightarrow> (Err (TIbv e), (ch', w'))
      | (Panic, (ch', w')) \<Rightarrow> (Panic, (ch', w'))
      | (NoFuel, (ch', w')) \<Rightarrow> (NoFuel, (ch', w')))"
proof -
  have b: "blocking = post_and_spin fuel v (map_err_s TIbv (channel_post self_selector post))"
    using assms(2)
    by (auto simp: ch_send_def ch_receive_def ch_write_def ch_read_def ch_post_send_def
        ch_post_receive_def ch_post_write_def ch_post_read_def channel_post_send_def
        channel_post_receive_def channel_post_write_def channel_post_read_def)
  have sel: "sel_get self_selector ch = Ok ch" "\<And>c. sel_put self_selector c ch = c"
    by (simp_all add: self_selector_def)
  show ?thesis
    unfolding b by (rule post_and_spin_equation [where put = "\<lambda>c. c", OF assms(1) sel])
qed

section \<open>Work-request ids\<close>

lemma unat_max_u64: "unat (- 1 :: u64) = 2 ^ 64 - 1"
  by (simp add: unsigned_minus_1_eq_mask mask_eq_exp_minus_1)

lemma unpolled_split:
  assumes "on_hw (post (ch_qp ch) (ch_next_wr_id ch)) w = (r, w')"
    and "\<not> oc \<or> ch_next_wr_id ch \<noteq> - 1"
  shows "unpolled oc post (ch, w) =
           (map_ok (\<lambda>_. pending_work_new (ch_next_wr_id ch) (ch_shared ch)) r,
            (ch\<lparr>ch_next_wr_id := ch_next_wr_id ch + 1\<rparr>, w'))"
proof -
  have "plain_add oc (ch_next_wr_id ch) 1 = (Ok (ch_next_wr_id ch + 1) :: (u64, ibv_error) outcome)"
  proof (cases "ch_next_wr_id ch = - 1")
    case True
    with assms(2) show ?thesis by (simp add: plain_add_def)
  next
    case False
    then have "unat (ch_next_wr_id ch) \<noteq> 2 ^ 64 - 1"
      by (simp add: word_unat_eq_iff unat_max_u64)
    then show ?thesis
      using unat_u64_bound [of "ch_next_wr_id ch"] by (intro plain_add_no_overflow) simp
  qed
  with assms(1) show ?thesis
    by (cases r) (simp_all add: unpolled_def bind_s_def get_and_advance_wr_id_def)
qed

lemma unpolled_overflow:
  assumes "oc" "ch_next_wr_id ch = - 1"
  shows "unpolled oc post (ch, w) = (Panic, (ch, w))"
  using assms
  by (simp add: unpolled_def bind_s_def get_and_advance_wr_id_def plain_add_def
      unat_max_u64)

lemma unpolled_wr_id:
  assumes "unpolled oc post (ch, w) = (Ok p, (ch', w'))"
  shows "pw_wr_id p = ch_next_wr_id ch \<and> pw_shared p = ch_shared ch \<and> pw_status p = None \<and>
         ch' = ch\<lparr>ch_next_wr_id := ch_next_wr_id ch + 1\<rparr>"
proof (cases "\<not> oc \<or> ch_next_wr_id ch \<noteq> - 1")
  case True
  obtain r w1 where r: "on_hw (post (ch_qp ch) (ch_next_wr_id ch)) w = (r, w1)"
    by (metis prod.exhaust)
  from unpolled_split [where post = post, OF this True] assms show ?thesis
    by (cases r) (auto simp: pending_work_new_def)
next
  case False
  with unpolled_overflow [of oc ch post w] assms show ?thesis by simp
qed

lemma unpolled_world:
  assumes "unpolled oc post (ch, w) = (r, (ch', w'))"
  shows "w_shared w' = w_shared w \<and> w_next w' = w_next w"
  using assms
  by (auto simp: unpolled_def bind_s_def get_and_advance_wr_id_def on_hw_def
      split: outcome.splits prod.splits)

lemma collect_unpolled_fresh:
  "collect_s (unpolled oc) posts (ch, w) = (Ok ps, (ch', w')) \<Longrightarrow>
     \<forall>p \<in> set ps. p = pending_work_new (pw_wr_id p) (ch_shared ch)"
proof (induction posts arbitrary: ch w ps)
  case Nil
  then show ?case by (simp add: ret_s_def)
next
  case (Cons post posts)
  from Cons.prems obtain p ch1 w1 ps1 where
    p: "unpolled oc post (ch, w) = (Ok p, (ch1, w1))" and
    c: "collect_s (unpolled oc) posts (ch1, w1) = (Ok ps1, (ch', w'))" and ps: "ps = p # ps1"
    by (auto simp: bind_s_eq_Ok ret_s_def)
  from Cons.IH [OF c] unpolled_wr_id [OF p] show ?case
    by (auto simp: ps pending_work_new_def)
qed

lemma collect_unpolled_ids:
  "collect_s (unpolled oc) posts (ch, w) = (Ok ps, (ch', w')) \<Longrightarrow>
     map pw_wr_id ps = map (\<lambda>i. ch_next_wr_id ch + word_of_nat i) [0..<length posts] \<and>
     ch' = ch\<lparr>ch_next_wr_id := ch_next_wr_id ch + word_of_nat (length posts)\<rparr>"
proof (induction posts arbitrary: ch w ps)
  case Nil
  then show ?case by (simp add: ret_s_def)
next
  case (Cons post posts)
  from Cons.prems obtain p ch1 w1 ps1 where
    p: "unpolled oc post (ch, w) = (Ok p, (ch1, w1))" and
    c: "collect_s (unpolled oc) posts (ch1, w1) = (Ok ps1, (ch', w'))" and ps: "ps = p # ps1"
    by (auto simp: bind_s_eq_Ok ret_s_def)
  from Cons.IH [OF c] unpolled_wr_id [OF p] show ?case
    by (simp add: ps upt_conv_Cons map_Suc_upt [symmetric] del: upt_Suc)
qed

lemma consecutive_words_distinct:
  fixes a :: u64
  assumes "n \<le> 2 ^ 64"
  shows "distinct (map (\<lambda>i. a + word_of_nat i) [0..<n])"
proof -
  have "inj_on (\<lambda>i. a + word_of_nat i) {0..<n}"
  proof (rule inj_onI)
    fix i j assume ij: "i \<in> {0..<n}" "j \<in> {0..<n}" "a + word_of_nat i = a + word_of_nat j"
    then have "unat (word_of_nat i :: u64) = unat (word_of_nat j :: u64)" by simp
    with ij(1,2) assms show "i = j" by (simp add: unat_of_nat)
  qed
  then show ?thesis by (simp add: distinct_map)
qed

section \<open>Where a result comes from\<close>

text \<open>Every completion in a cache is one of \<open>D\<close>, filed under its own id.\<close>

definition caches_from :: "ibv_wc set \<Rightarrow> 'h world \<Rightarrow> bool" where
  "caches_from D w \<longleftrightarrow>
     (\<forall>ref i c. cc_cache (sh_cq (w_shared w ref)) i = Some c \<longrightarrow>
        (\<exists>wc \<in> D. wc_wr_id wc = i \<and> c = work_completion_new wc))"

definition result_from :: "ibv_wc set \<Rightarrow> u64 \<Rightarrow> work_result \<Rightarrow> bool" where
  "result_from D i res \<longleftrightarrow>
     (\<exists>wc \<in> D. wc_wr_id wc = i \<and> res = wcp_result (work_completion_new wc))"

lemma consume_cache_from:
  assumes "caches_from D w" "consume_cache i ref w = (r, w')"
  shows "caches_from D w' \<and> (\<forall>res. r = Some res \<longrightarrow> result_from D i res)"
proof -
  have "\<exists>wc \<in> D. wc_wr_id wc = i \<and> c = work_completion_new wc"
    if "cc_cache (sh_cq (w_shared w ref)) i = Some c" for ref i c
    using assms(1) that unfolding caches_from_def by blast
  with assms(2) show ?thesis
    by (fastforce simp: consume_cache_def cached_consume_def caches_from_def result_from_def
        split: if_splits)
qed

lemma cache_insert_all_from:
  assumes "\<forall>i c. cc_cache cc i = Some c \<longrightarrow> (\<exists>wc \<in> D. wc_wr_id wc = i \<and> c = work_completion_new wc)"
    and "set wcs \<subseteq> D"
  shows "cc_cache (cache_insert_all (map work_completion_new wcs) cc) i = Some c \<Longrightarrow>
           \<exists>wc \<in> D. wc_wr_id wc = i \<and> c = work_completion_new wc"
  using assms
proof (induction wcs arbitrary: cc)
  case Nil
  then show ?case by simp
next
  case (Cons wc wcs)
  show ?case
    by (rule Cons.IH [OF Cons.prems(1) [simplified]])
      (use Cons.prems in \<open>auto simp: work_completion_new_def\<close>)
qed

lemma cq_poll_from:
  assumes "polls_from v D" "cq_poll v cq s = (Ok wcs, s')"
  shows "set wcs \<subseteq> D"
proof -
  obtain buf h where s: "s = (buf, h)" by (cases s)
  define ne where "ne = (if length buf \<le> i32_max then int (length buf) else int i32_max)"
  obtain n buf' h' where p: "v_poll_cq v (cq_handle cq) ne buf h = ((n, buf'), h')"
    by (metis prod.exhaust)
  have "case v_poll_cq v (cq_handle cq) ne buf h of ((n, buf'), h') \<Rightarrow> set (take (nat n) buf') \<subseteq> D"
    using assms(1) [unfolded polls_from_def, rule_format] .
  with p have "set (take (nat n) buf') \<subseteq> D" by simp
  moreover have "wcs = take (nat n) buf'"
    using assms(2) p by (simp add: cq_poll_def s Let_def flip: ne_def split: if_splits)
  ultimately show ?thesis by simp
qed

lemma shared_update_from:
  assumes "polls_from v D" "caches_from D w" "shared_update v ref w = (r, w')"
  shows "caches_from D w'"
proof -
  let ?sh = "w_shared w ref"
  obtain x buf h where x: "cq_poll v (cc_cq (sh_cq ?sh)) (sh_buff ?sh, w_hw w) = (x, (buf, h))"
    by (metis prod.exhaust)
  show ?thesis
  proof (cases x)
    case (Ok wcs)
    with x have D: "set wcs \<subseteq> D" using cq_poll_from [OF assms(1)] by blast
    have "\<exists>wc \<in> D. wc_wr_id wc = i \<and> c = work_completion_new wc"
      if "cc_cache (cache_insert_all (map work_completion_new wcs) (sh_cq ?sh)) i = Some c" for i c
      using assms(2) by (intro cache_insert_all_from [OF _ D that]) (auto simp: caches_from_def)
    with assms(2,3) x Ok show ?thesis
      by (auto simp: shared_update_def cached_update_def caches_from_def split: if_splits)
  qed (use assms(2,3) x in
      \<open>auto simp: shared_update_def cached_update_def caches_from_def split: if_splits\<close>)
qed

lemma pw_poll_from:
  assumes "polls_from v D" "caches_from D w" "pw_poll v (p, w) = (r, (p', w'))"
    and "\<forall>res. pw_status p = Some res \<longrightarrow> result_from D (pw_wr_id p) res"
  shows "caches_from D w' \<and> (\<forall>res. pw_status p' = Some res \<longrightarrow> result_from D (pw_wr_id p) res)"
proof (cases "pw_status p")
  case (Some res)
  with assms show ?thesis by (simp add: pw_poll_done)
next
  case None
  obtain c1 w1 where c1: "consume_cache (pw_wr_id p) (pw_shared p) w = (c1, w1)"
    by (metis prod.exhaust)
  obtain u w2 where u: "shared_update v (pw_shared p) w1 = (u, w2)" by (metis prod.exhaust)
  obtain c2 w3 where c2: "consume_cache (pw_wr_id p) (pw_shared p) w2 = (c2, w3)"
    by (metis prod.exhaust)
  have w1: "caches_from D w1" "\<forall>res. c1 = Some res \<longrightarrow> result_from D (pw_wr_id p) res"
    using consume_cache_from [OF assms(2) c1] by simp_all
  have w2: "caches_from D w2" using shared_update_from [OF assms(1) w1(1) u] .
  have w3: "caches_from D w3" "\<forall>res. c2 = Some res \<longrightarrow> result_from D (pw_wr_id p) res"
    using consume_cache_from [OF w2 c2] by simp_all
  from assms(3) None c1 u c2 w1 w2 w3 show ?thesis
    by (auto simp: pw_poll_def split: option.splits outcome.splits if_splits)
qed

lemma pw_spin_poll_from:
  assumes "polls_from v D"
  shows "caches_from D w \<Longrightarrow> pw_spin_poll fuel v (p, w) = (r, (p', w')) \<Longrightarrow>
     (\<forall>res. pw_status p = Some res \<longrightarrow> result_from D (pw_wr_id p) res) \<Longrightarrow>
     caches_from D w' \<and> (\<forall>res. pw_status p' = Some res \<longrightarrow> result_from D (pw_wr_id p) res)"
proof (induction fuel arbitrary: p w)
  case 0
  then show ?case by simp
next
  case (Suc fuel)
  obtain x p1 w1 where x: "pw_poll v (p, w) = (x, (p1, w1))" by (metis prod.exhaust)
  have 1: "caches_from D w1"
    "\<forall>res. pw_status p1 = Some res \<longrightarrow> result_from D (pw_wr_id p) res"
    using pw_poll_from [OF assms Suc.prems(1) x Suc.prems(3)] by simp_all
  have id: "pw_wr_id p1 = pw_wr_id p" using pw_poll_frame [OF x] by simp
  show ?case
  proof (cases x)
    case None
    with Suc.prems x have "pw_spin_poll fuel v (p1, w1) = (r, (p', w'))" by simp
    from Suc.IH [OF 1(1) this] 1(2) show ?thesis by (simp add: id)
  next
    case (Some r1)
    with Suc.prems x 1 show ?thesis by simp
  qed
qed

section \<open>When a busy wait ends\<close>

lemma consume_cache_frame:
  "consume_cache i ref w = (r, w') \<Longrightarrow>
     w_hw w' = w_hw w \<and> cc_cq (sh_cq (w_shared w' ref)) = cc_cq (sh_cq (w_shared w ref)) \<and>
     sh_buff (w_shared w' ref) = sh_buff (w_shared w ref)"
  by (auto simp: consume_cache_def cached_consume_def)

lemma cache_insert_all_dom:
  "cc_cache (cache_insert_all ws cc) i = None \<longleftrightarrow>
     cc_cache cc i = None \<and> i \<notin> wcp_wr_id ` set ws"
  by (induction ws arbitrary: cc) auto

text \<open>A poll that finds nothing brings the device closer.\<close>

lemma pw_poll_progress:
  assumes "pw_poll v (p, w) = (None, (p', w'))"
    and "delivers v (cc_cq (sh_cq (w_shared w (pw_shared p)))) (pw_wr_id p) pend m"
    and "sh_buff (w_shared w (pw_shared p)) \<noteq> []" "pend (w_hw w)"
  shows "m (w_hw w') < m (w_hw w) \<and> pend (w_hw w') \<and> p' = p \<and>
         sh_buff (w_shared w' (pw_shared p)) \<noteq> [] \<and>
         cc_cq (sh_cq (w_shared w' (pw_shared p))) = cc_cq (sh_cq (w_shared w (pw_shared p)))"
proof -
  let ?ref = "pw_shared p"
  obtain c1 w1 where c1: "consume_cache (pw_wr_id p) ?ref w = (c1, w1)" by (metis prod.exhaust)
  note f1 = consume_cache_frame [OF c1]
  let ?cq = "cc_cq (sh_cq (w_shared w1 ?ref))"
  obtain x buf h where
    x: "cq_poll v ?cq (sh_buff (w_shared w1 ?ref), w_hw w1) = (x, (buf, h))" by (metis prod.exhaust)
  from assms(1) c1 have none: "pw_status p = None" "c1 = None"
    by (auto simp: pw_poll_def split: option.splits)
  obtain u w2 where u: "shared_update v ?ref w1 = (u, w2)" by (metis prod.exhaust)
  from assms(1) none c1 u obtain n where n: "u = Ok n"
    by (cases u) (auto simp: pw_poll_def)
  with u x obtain wcs where wcs: "x = Ok wcs" "n = length wcs"
    and w2: "w_hw w2 = h" "sh_buff (w_shared w2 ?ref) = buf" "sh_cq (w_shared w2 ?ref) =
               cache_insert_all (map work_completion_new wcs) (sh_cq (w_shared w1 ?ref))"
    by (cases x) (auto simp: shared_update_def cached_update_def)
  obtain c2 w3 where c2: "consume_cache (pw_wr_id p) ?ref w2 = (c2, w3)" by (metis prod.exhaust)
  note f2 = consume_cache_frame [OF c2]
  have miss: "pw_wr_id p \<notin> wc_wr_id ` set wcs"
  proof
    assume in_wcs: "pw_wr_id p \<in> wc_wr_id ` set wcs"
    then have "0 < n" using wcs(2) by auto
    with assms(1) none c1 u n c2 have "c2 = None"
      by (auto simp: pw_poll_def split: option.splits)
    then have "cc_cache (sh_cq (w_shared w2 ?ref)) (pw_wr_id p) = None"
      using c2 by (simp add: consume_cache_def cached_consume_def)
    then have "pw_wr_id p \<notin> wcp_wr_id ` set (map work_completion_new wcs)"
      unfolding w2(3) cache_insert_all_dom by simp
    with in_wcs show False by (auto simp: image_image work_completion_new_def)
  qed
  have d: "delivers v ?cq (pw_wr_id p) pend m"
    using assms(2) f1 by simp
  have b: "sh_buff (w_shared w1 ?ref) \<noteq> []" "pend (w_hw w1)"
    using assms(3,4) f1 by simp_all
  have "case cq_poll v ?cq (sh_buff (w_shared w1 ?ref), w_hw w1) of
          (Ok wcs, (buf', h')) \<Rightarrow>
            buf' \<noteq> [] \<and> (pw_wr_id p \<in> wc_wr_id ` set wcs \<or> pend h' \<and> m h' < m (w_hw w1))
        | _ \<Rightarrow> True"
    using d [unfolded delivers_def, rule_format, OF b] .
  with x wcs miss have "buf \<noteq> []" "pend h" "m h < m (w_hw w1)" by auto
  with f1 f2 w2 assms(1) none c1 u n c2 show ?thesis
    by (cases "0 < n") (auto simp: pw_poll_def split: option.splits)
qed

lemma pw_spin_poll_terminates:
  "delivers v (cc_cq (sh_cq (w_shared w (pw_shared p)))) (pw_wr_id p) pend m \<Longrightarrow>
     sh_buff (w_shared w (pw_shared p)) \<noteq> [] \<Longrightarrow> pend (w_hw w) \<Longrightarrow>
     m (w_hw w) < fuel \<Longrightarrow> poll_ok v \<Longrightarrow> fst (pw_spin_poll fuel v (p, w)) \<noteq> NoFuel"
proof (induction fuel arbitrary: p w)
  case 0
  then show ?case by simp
next
  case (Suc fuel)
  obtain x p1 w1 where x: "pw_poll v (p, w) = (x, (p1, w1))" by (metis prod.exhaust)
  show ?case
  proof (cases x)
    case None
    with x have "pw_poll v (p, w) = (None, (p1, w1))" by simp
    from pw_poll_progress [OF this Suc.prems(1-3)] Suc.prems Suc.IH [of w1 p1] x None
    show ?thesis by simp
  next
    case (Some r)
    with x have "pw_poll v (p, w) = (Some r, (p1, w1))" by simp
    from Suc.prems(5) this obtain res where "r = poll_result_of res" by (rule pw_poll_ok_status)
    with x Some show ?thesis by simp
  qed
qed

section \<open>A device whose polls fail\<close>

definition polls_fail :: "'h verbs \<Rightarrow> bool" where
  "polls_fail v \<longleftrightarrow> (\<forall>cq ne buf h. fst (fst (v_poll_cq v cq ne buf h)) < 0)"

text \<open>A work whose completion has not arrived.\<close>

definition unclaimed :: "pending_work \<Rightarrow> 'h world \<Rightarrow> bool" where
  "unclaimed p w \<longleftrightarrow>
     pw_status p = None \<and> cc_cache (sh_cq (w_shared w (pw_shared p))) (pw_wr_id p) = None"

lemma shared_update_fails:
  assumes "polls_fail v"
  shows "\<exists>e w'. shared_update v ref w = (Err e, w') \<and>
           sh_cq (w_shared w' ref) = sh_cq (w_shared w ref)"
proof -
  let ?cc = "sh_cq (w_shared w ref)" and ?buf = "sh_buff (w_shared w ref)"
  let ?ne = "if length ?buf \<le> i32_max then int (length ?buf) else int i32_max"
  obtain n b h where p: "v_poll_cq v (cq_handle (cc_cq ?cc)) ?ne ?buf (w_hw w) = ((n, b), h)"
    by (metis prod.exhaust)
  with assms have "n < 0" unfolding polls_fail_def by (metis fst_conv)
  with p obtain e where "cq_poll v (cc_cq ?cc) (?buf, w_hw w) = (Err e, (b, h))"
    by (simp add: cq_poll_def Let_def cong: if_cong)
  then show ?thesis by (simp add: shared_update_def cached_update_def)
qed

lemma pw_poll_fails:
  assumes "polls_fail v" "unclaimed p w"
  shows "\<exists>e w'. pw_poll v (p, w) = (Some (Err (TIbv e)), (p, w')) \<and> unclaimed p w'"
proof -
  obtain w1 where c: "consume_cache (pw_wr_id p) (pw_shared p) w = (None, w1)"
    and w1: "unclaimed p w1"
    using assms(2) by (auto simp: consume_cache_def cached_consume_def unclaimed_def)
  obtain e w2 where "shared_update v (pw_shared p) w1 = (Err e, w2)"
    "sh_cq (w_shared w2 (pw_shared p)) = sh_cq (w_shared w1 (pw_shared p))"
    using shared_update_fails [OF assms(1)] by blast
  with c w1 assms(2) show ?thesis by (simp add: pw_poll_def unclaimed_def)
qed

text \<open>Every way of waiting returns at once and leaves the work as it was.\<close>

lemma waiting_fails:
  assumes "polls_fail v" "unclaimed p w"
  shows "\<exists>e w'. pw_spin_poll (Suc fuel) v (p, w) = (Err (TIbv e), (p, w')) \<and> unclaimed p w'"
    and "\<exists>w'. pw_drop (Suc fuel) v (p, w) = (Ok (), (p, w')) \<and> unclaimed p w'"
  using pw_poll_fails [OF assms] by (auto simp: pw_drop_def)

lemma auto_poll_fails:
  assumes "polls_fail v" "unclaimed p w"
  shows "\<exists>w'. auto_poll (Suc fuel) v
             \<lparr>sc_inner = c, sc_wrs = [\<lparr>sw_user_polled = True, sw_work = p\<rparr>], sc_world = w\<rparr> =
           (Ok NoPendingWorks,
            \<lparr>sc_inner = c, sc_wrs = [\<lparr>sw_user_polled = True, sw_work = p\<rparr>], sc_world = w'\<rparr>)"
    and "\<exists>e w'. auto_poll (Suc fuel) v
             \<lparr>sc_inner = c, sc_wrs = [\<lparr>sw_user_polled = False, sw_work = p\<rparr>], sc_world = w\<rparr> =
           (Err [TIbv e],
            \<lparr>sc_inner = c, sc_wrs = [\<lparr>sw_user_polled = False, sw_work = p\<rparr>], sc_world = w'\<rparr>)"
proof -
  obtain w0 where "pw_drop (Suc fuel) v (p, w) = (Ok (), (p, w0))"
    using waiting_fails(2) [OF assms] by blast
  then show "\<exists>w'. auto_poll (Suc fuel) v
             \<lparr>sc_inner = c, sc_wrs = [\<lparr>sw_user_polled = True, sw_work = p\<rparr>], sc_world = w\<rparr> =
           (Ok NoPendingWorks,
            \<lparr>sc_inner = c, sc_wrs = [\<lparr>sw_user_polled = True, sw_work = p\<rparr>], sc_world = w'\<rparr>)"
    by (simp add: auto_poll_def auto_poll_one_def del: pw_spin_poll.simps)
  from waiting_fails(1) [OF assms] obtain e w1 where
    1: "pw_spin_poll (Suc fuel) v (p, w) = (Err (TIbv e), (p, w1))" "unclaimed p w1" by blast
  from waiting_fails(2) [OF assms(1) 1(2)] obtain w' where "pw_drop (Suc fuel) v (p, w1) = (Ok (), (p, w'))" by blast
  with 1 show "\<exists>e w'. auto_poll (Suc fuel) v
             \<lparr>sc_inner = c, sc_wrs = [\<lparr>sw_user_polled = False, sw_work = p\<rparr>], sc_world = w\<rparr> =
           (Err [TIbv e],
            \<lparr>sc_inner = c, sc_wrs = [\<lparr>sw_user_polled = False, sw_work = p\<rparr>], sc_world = w'\<rparr>)"
    by (simp add: auto_poll_def auto_poll_one_def del: pw_spin_poll.simps)
qed

text \<open>The scope after one post.\<close>

lemma one_post:
  assumes "post \<in> {ch_post_send v oc swr, ch_post_receive v oc rwr, ch_post_write v oc wwr,
      ch_post_read v oc dwr}"
    and "post (scope_new ch w) = (Ok i, sc1)"
    and "cc_cache (sh_cq (w_shared w (ch_shared ch))) (ch_next_wr_id ch) = None"
  shows "\<exists>p w1. i = 0 \<and> unclaimed p w1 \<and>
           sc1 = \<lparr>sc_inner = sc_inner sc1, sc_wrs = [\<lparr>sw_user_polled = False, sw_work = p\<rparr>], sc_world = w1\<rparr>"
proof -
  from assms(1) obtain q where "post = map_err_s TIbv (channel_post self_selector (unpolled oc q))"
    by (auto simp: ch_post_send_def ch_post_receive_def ch_post_write_def ch_post_read_def
        channel_post_send_def channel_post_receive_def channel_post_write_def channel_post_read_def
        send_unpolled_def receive_unpolled_def write_unpolled_def read_unpolled_def)
  with assms(2) have c: "channel_post self_selector (unpolled oc q) (scope_new ch w) = (Ok i, sc1)"
    by (auto simp: map_err_s_def split: prod.splits)
  obtain r ch' w1 where u: "unpolled oc q (ch, w) = (r, (ch', w1))" by (metis prod.exhaust)
  with c obtain p where r: "r = Ok p"
    by (cases r) (auto simp: channel_post_def self_selector_def scope_new_def Let_def)
  from unpolled_wr_id [OF u [unfolded r]] unpolled_world [OF u] assms(3) have "unclaimed p w1"
    by (simp add: unclaimed_def)
  with c u r show ?thesis
    by (auto simp: channel_post_def self_selector_def scope_new_def Let_def scoped_work_new_def)
qed

end
