(* ===== verification/Multi_Channel.thy ===== *)
theory Multi_Channel
  imports Channel_Lemmas
begin

text \<open>
  \<open>src/multi_channel/\<close>: one channel per peer over one protection domain.  The peer-indexed work
  requests (\<open>work_request.rs\<close>), the per-peer operations (\<open>ops/channel_ops.rs\<close>), the scoped, blocking
  and unpolled scatter, gather and multicast (\<open>ops/scoped_ops.rs\<close>, \<open>polled_ops.rs\<close>,
  \<open>unpolled_ops.rs\<close>), and the construction (\<open>builder.rs\<close>).
\<close>

section \<open>mod.rs\<close>

record multi_channel =
  mc_channels :: "channel list"
  mc_pd :: protection_domain

definition mc_num_channels :: "multi_channel \<Rightarrow> nat" where
  "mc_num_channels m = length (mc_channels m)"

definition peer_not_found :: "nat \<Rightarrow> ibv_error" where
  "peer_not_found peer = NotFound (''Peer '' @ show_nat peer @ '' not found'')"

definition mc_channel :: "multi_channel \<Rightarrow> nat \<Rightarrow> (channel, ibv_error) outcome" where
  "mc_channel m peer =
     (if peer < length (mc_channels m) then Ok (mc_channels m ! peer) else Err (peer_not_found peer))"

text \<open>The write back through the \<open>&mut Channel\<close> that \<open>channel(peer)\<close> returned.\<close>

definition mc_set_channel :: "nat \<Rightarrow> channel \<Rightarrow> multi_channel \<Rightarrow> multi_channel" where
  "mc_set_channel peer ch m = m\<lparr>mc_channels := (mc_channels m)[peer := ch]\<rparr>"

definition mc_selector :: "nat \<Rightarrow> multi_channel selector" where
  "mc_selector peer = \<lparr>sel_get = (\<lambda>m. mc_channel m peer), sel_put = mc_set_channel peer\<rparr>"

text \<open>\<open>self.channel(peer)?.op(..)\<close>; \<open>conv\<close> is the conversion that \<open>?\<close> applies to the error.\<close>

definition at_channel ::
  "(ibv_error \<Rightarrow> 'e) \<Rightarrow> nat \<Rightarrow> (channel \<times> 'h world, 'a, 'e) comp \<Rightarrow>
     (multi_channel \<times> 'h world, 'a, 'e) comp" where
  "at_channel conv peer op s =
     (case s of (m, w) \<Rightarrow>
        (case mc_channel m peer of
           Ok ch \<Rightarrow>
             (case op (ch, w) of (r, (ch', w')) \<Rightarrow> (r, (mc_set_channel peer ch' m, w')))
         | Err e \<Rightarrow> (Err (conv e), s)
         | Panic \<Rightarrow> (Panic, s) | NoFuel \<Rightarrow> (NoFuel, s)))"

section \<open>work_request.rs\<close>

record peer_send_wr =
  psw_peer :: nat
  psw_wr :: send_work_request

record peer_receive_wr =
  prw_peer :: nat
  prw_wr :: receive_work_request

record peer_write_wr =
  pww_peer :: nat
  pww_wr :: write_work_request

record peer_read_wr =
  prd_peer :: nat
  prd_wr :: read_work_request

definition peer_send_new :: "nat \<Rightarrow> gather_element list \<Rightarrow> (peer_send_wr, unit) outcome" where
  "peer_send_new peer ges = map_ok (\<lambda>wr. \<lparr>psw_peer = peer, psw_wr = wr\<rparr>) (send_wr_new ges)"

definition peer_send_from_wr :: "nat \<Rightarrow> send_work_request \<Rightarrow> peer_send_wr" where
  "peer_send_from_wr peer wr = \<lparr>psw_peer = peer, psw_wr = wr\<rparr>"

definition peer_send_with_immediate :: "u32 \<Rightarrow> peer_send_wr \<Rightarrow> peer_send_wr" where
  "peer_send_with_immediate imm p = p\<lparr>psw_wr := send_wr_with_immediate imm (psw_wr p)\<rparr>"

definition peer_send_only_immediate :: "nat \<Rightarrow> u32 \<Rightarrow> peer_send_wr" where
  "peer_send_only_immediate peer imm =
     \<lparr>psw_peer = peer, psw_wr = send_wr_only_immediate imm\<rparr>"

definition peer_receive_new :: "nat \<Rightarrow> scatter_element list \<Rightarrow> (peer_receive_wr, unit) outcome" where
  "peer_receive_new peer ses =
     map_ok (\<lambda>wr. \<lparr>prw_peer = peer, prw_wr = wr\<rparr>) (receive_wr_new ses)"

definition peer_receive_only_immediate :: "nat \<Rightarrow> peer_receive_wr" where
  "peer_receive_only_immediate peer = \<lparr>prw_peer = peer, prw_wr = receive_wr_only_immediate\<rparr>"

definition peer_receive_from_wr :: "nat \<Rightarrow> receive_work_request \<Rightarrow> peer_receive_wr" where
  "peer_receive_from_wr peer wr = \<lparr>prw_peer = peer, prw_wr = wr\<rparr>"

definition peer_write_new ::
  "gather_element list \<Rightarrow> peer_remote_memory_region \<Rightarrow> (peer_write_wr, unit) outcome" where
  "peer_write_new ges r =
     map_ok (\<lambda>wr. \<lparr>pww_peer = prmr_peer r, pww_wr = wr\<rparr>) (write_wr_new ges (prmr_remote_mr r))"

definition peer_write_with_immediate :: "u32 \<Rightarrow> peer_write_wr \<Rightarrow> peer_write_wr" where
  "peer_write_with_immediate imm p = p\<lparr>pww_wr := write_wr_with_immediate imm (pww_wr p)\<rparr>"

definition peer_read_new ::
  "scatter_element list \<Rightarrow> peer_remote_memory_region \<Rightarrow> (peer_read_wr, unit) outcome" where
  "peer_read_new ses r =
     map_ok (\<lambda>wr. \<lparr>prd_peer = prmr_peer r, prd_wr = wr\<rparr>) (read_wr_new ses (prmr_remote_mr r))"

section \<open>ops/channel_ops.rs\<close>

type_synonym 'h mc_scope = "(multi_channel, 'h) scope"

definition mc_post_send ::
  "'h verbs \<Rightarrow> bool \<Rightarrow> peer_send_wr \<Rightarrow> ('h mc_scope, nat, transport_error) comp" where
  "mc_post_send v oc p =
     map_err_s TIbv (channel_post_send v oc (mc_selector (psw_peer p)) (psw_wr p))"

definition mc_post_receive ::
  "'h verbs \<Rightarrow> bool \<Rightarrow> peer_receive_wr \<Rightarrow> ('h mc_scope, nat, transport_error) comp" where
  "mc_post_receive v oc p =
     map_err_s TIbv (channel_post_receive v oc (mc_selector (prw_peer p)) (prw_wr p))"

definition mc_post_write ::
  "'h verbs \<Rightarrow> bool \<Rightarrow> peer_write_wr \<Rightarrow> ('h mc_scope, nat, transport_error) comp" where
  "mc_post_write v oc p =
     map_err_s TIbv (channel_post_write v oc (mc_selector (pww_peer p)) (pww_wr p))"

definition mc_post_read ::
  "'h verbs \<Rightarrow> bool \<Rightarrow> peer_read_wr \<Rightarrow> ('h mc_scope, nat, transport_error) comp" where
  "mc_post_read v oc p =
     map_err_s TIbv (channel_post_read v oc (mc_selector (prd_peer p)) (prd_wr p))"

type_synonym ('h, 'a, 'e) mc_comp = "(multi_channel \<times> 'h world, 'a, 'e) comp"

definition mc_send ::
  "nat \<Rightarrow> 'h verbs \<Rightarrow> bool \<Rightarrow> peer_send_wr \<Rightarrow> ('h, work_success, transport_error) mc_comp" where
  "mc_send fuel v oc p = at_channel TIbv (psw_peer p) (ch_send fuel v oc (psw_wr p))"

definition mc_receive ::
  "nat \<Rightarrow> 'h verbs \<Rightarrow> bool \<Rightarrow> peer_receive_wr \<Rightarrow> ('h, work_success, transport_error) mc_comp" where
  "mc_receive fuel v oc p = at_channel TIbv (prw_peer p) (ch_receive fuel v oc (prw_wr p))"

definition mc_write ::
  "nat \<Rightarrow> 'h verbs \<Rightarrow> bool \<Rightarrow> peer_write_wr \<Rightarrow> ('h, work_success, transport_error) mc_comp" where
  "mc_write fuel v oc p = at_channel TIbv (pww_peer p) (ch_write fuel v oc (pww_wr p))"

definition mc_read ::
  "nat \<Rightarrow> 'h verbs \<Rightarrow> bool \<Rightarrow> peer_read_wr \<Rightarrow> ('h, work_success, transport_error) mc_comp" where
  "mc_read fuel v oc p = at_channel TIbv (prd_peer p) (ch_read fuel v oc (prd_wr p))"

definition mc_send_unpolled ::
  "'h verbs \<Rightarrow> bool \<Rightarrow> peer_send_wr \<Rightarrow> ('h, pending_work, ibv_error) mc_comp" where
  "mc_send_unpolled v oc p = at_channel id (psw_peer p) (send_unpolled v oc (psw_wr p))"

definition mc_receive_unpolled ::
  "'h verbs \<Rightarrow> bool \<Rightarrow> peer_receive_wr \<Rightarrow> ('h, pending_work, ibv_error) mc_comp" where
  "mc_receive_unpolled v oc p = at_channel id (prw_peer p) (receive_unpolled v oc (prw_wr p))"

definition mc_write_unpolled ::
  "'h verbs \<Rightarrow> bool \<Rightarrow> peer_write_wr \<Rightarrow> ('h, pending_work, ibv_error) mc_comp" where
  "mc_write_unpolled v oc p = at_channel id (pww_peer p) (write_unpolled v oc (pww_wr p))"

definition mc_read_unpolled ::
  "'h verbs \<Rightarrow> bool \<Rightarrow> peer_read_wr \<Rightarrow> ('h, pending_work, ibv_error) mc_comp" where
  "mc_read_unpolled v oc p = at_channel id (prd_peer p) (read_unpolled v oc (prd_wr p))"

section \<open>ops/scoped_ops.rs\<close>

definition post_scatter_send ::
  "'h verbs \<Rightarrow> bool \<Rightarrow> peer_send_wr list \<Rightarrow> ('h mc_scope, nat list, transport_error) comp" where
  "post_scatter_send v oc wrs = collect_s (mc_post_send v oc) wrs"

definition post_scatter_write ::
  "'h verbs \<Rightarrow> bool \<Rightarrow> peer_write_wr list \<Rightarrow> ('h mc_scope, nat list, transport_error) comp" where
  "post_scatter_write v oc wrs = collect_s (mc_post_write v oc) wrs"

definition post_gather_receive ::
  "'h verbs \<Rightarrow> bool \<Rightarrow> peer_receive_wr list \<Rightarrow> ('h mc_scope, nat list, transport_error) comp" where
  "post_gather_receive v oc wrs = collect_s (mc_post_receive v oc) wrs"

definition post_gather_read ::
  "'h verbs \<Rightarrow> bool \<Rightarrow> peer_read_wr list \<Rightarrow> ('h mc_scope, nat list, transport_error) comp" where
  "post_gather_read v oc wrs = collect_s (mc_post_read v oc) wrs"

definition post_multicast_send ::
  "'h verbs \<Rightarrow> bool \<Rightarrow> nat list \<Rightarrow> send_work_request \<Rightarrow>
     ('h mc_scope, nat list, transport_error) comp" where
  "post_multicast_send v oc peers wr =
     collect_s (\<lambda>peer. mc_post_send v oc (peer_send_from_wr peer wr)) peers"

section \<open>ops/polled_ops.rs\<close>

text \<open>\<open>manual_scope(|s| { let wrs = post(s)?; wrs.into_iter().map(|wr| wr.spin_poll()).collect() })\<close>\<close>

definition post_all_and_spin ::
  "nat \<Rightarrow> 'h verbs \<Rightarrow> (('c, 'h) scope, nat list, transport_error) comp \<Rightarrow>
     ('c \<times> 'h world, work_success list, transport_error) comp" where
  "post_all_and_spin fuel v post =
     run_manual_scope fuel v (bind_s post (\<lambda>wrs. collect_s (\<lambda>i. scoped_spin_poll fuel v i) wrs))"

definition scatter_send ::
  "nat \<Rightarrow> 'h verbs \<Rightarrow> bool \<Rightarrow> peer_send_wr list \<Rightarrow> ('h, work_success list, transport_error) mc_comp" where
  "scatter_send fuel v oc wrs = post_all_and_spin fuel v (post_scatter_send v oc wrs)"

definition scatter_write ::
  "nat \<Rightarrow> 'h verbs \<Rightarrow> bool \<Rightarrow> peer_write_wr list \<Rightarrow> ('h, work_success list, transport_error) mc_comp" where
  "scatter_write fuel v oc wrs = post_all_and_spin fuel v (post_scatter_write v oc wrs)"

definition gather_receive ::
  "nat \<Rightarrow> 'h verbs \<Rightarrow> bool \<Rightarrow> peer_receive_wr list \<Rightarrow>
     ('h, work_success list, transport_error) mc_comp" where
  "gather_receive fuel v oc wrs = post_all_and_spin fuel v (post_gather_receive v oc wrs)"

definition gather_read ::
  "nat \<Rightarrow> 'h verbs \<Rightarrow> bool \<Rightarrow> peer_read_wr list \<Rightarrow> ('h, work_success list, transport_error) mc_comp" where
  "gather_read fuel v oc wrs = post_all_and_spin fuel v (post_gather_read v oc wrs)"

definition multicast_send ::
  "nat \<Rightarrow> 'h verbs \<Rightarrow> bool \<Rightarrow> nat list \<Rightarrow> send_work_request \<Rightarrow>
     ('h, work_success list, transport_error) mc_comp" where
  "multicast_send fuel v oc peers wr =
     post_all_and_spin fuel v (post_multicast_send v oc peers wr)"

section \<open>ops/unpolled_ops.rs\<close>

text \<open>
  A post that fails drops the handles collected so far, and a dropped handle is polled to
  completion.
\<close>

fun pw_drop_all :: "nat \<Rightarrow> 'h verbs \<Rightarrow> pending_work list \<Rightarrow> ('h world, unit, unit) comp" where
  "pw_drop_all fuel v [] w = (Ok (), w)"
| "pw_drop_all fuel v (p # ps) w =
     (case pw_drop fuel v (p, w) of
        (NoFuel, (p', w')) \<Rightarrow> (NoFuel, w')
      | (Panic, (p', w')) \<Rightarrow> (case pw_drop_all fuel v ps w' of (_, w'') \<Rightarrow> (Panic, w''))
      | (_, (p', w')) \<Rightarrow> pw_drop_all fuel v ps w')"

definition fail_dropping ::
  "nat \<Rightarrow> 'h verbs \<Rightarrow> ('a, 'e) outcome \<Rightarrow> pending_work list \<Rightarrow> ('m \<times> 'h world, 'a, 'e) comp" where
  "fail_dropping fuel v r ps s =
     (case pw_drop_all fuel v ps (snd s) of
        (Ok _, w) \<Rightarrow> (r, (fst s, w))
      | (Err _, w) \<Rightarrow> (r, (fst s, w))
      | (Panic, w) \<Rightarrow> (Panic, (fst s, w))
      | (NoFuel, w) \<Rightarrow> (NoFuel, (fst s, w)))"

fun collect_pending ::
  "nat \<Rightarrow> 'h verbs \<Rightarrow> ('x \<Rightarrow> ('m \<times> 'h world, pending_work, 'e) comp) \<Rightarrow> 'x list \<Rightarrow>
     pending_work list \<Rightarrow> ('m \<times> 'h world, pending_work list, 'e) comp" where
  "collect_pending fuel v post [] acc s = (Ok acc, s)"
| "collect_pending fuel v post (x # xs) acc s =
     (case post x s of
        (Ok p, s') \<Rightarrow> collect_pending fuel v post xs (acc @ [p]) s'
      | (Err e, s') \<Rightarrow> fail_dropping fuel v (Err e) acc s'
      | (Panic, s') \<Rightarrow> fail_dropping fuel v Panic acc s'
      | (NoFuel, s') \<Rightarrow> (NoFuel, s'))"

definition scatter_send_unpolled ::
  "nat \<Rightarrow> 'h verbs \<Rightarrow> bool \<Rightarrow> peer_send_wr list \<Rightarrow> ('h, pending_work list, ibv_error) mc_comp" where
  "scatter_send_unpolled fuel v oc wrs = collect_pending fuel v (mc_send_unpolled v oc) wrs []"

definition scatter_write_unpolled ::
  "nat \<Rightarrow> 'h verbs \<Rightarrow> bool \<Rightarrow> peer_write_wr list \<Rightarrow> ('h, pending_work list, ibv_error) mc_comp" where
  "scatter_write_unpolled fuel v oc wrs = collect_pending fuel v (mc_write_unpolled v oc) wrs []"

definition gather_receive_unpolled ::
  "nat \<Rightarrow> 'h verbs \<Rightarrow> bool \<Rightarrow> peer_receive_wr list \<Rightarrow> ('h, pending_work list, ibv_error) mc_comp" where
  "gather_receive_unpolled fuel v oc wrs =
     collect_pending fuel v (mc_receive_unpolled v oc) wrs []"

definition gather_read_unpolled ::
  "nat \<Rightarrow> 'h verbs \<Rightarrow> bool \<Rightarrow> peer_read_wr list \<Rightarrow> ('h, pending_work list, ibv_error) mc_comp" where
  "gather_read_unpolled fuel v oc wrs = collect_pending fuel v (mc_read_unpolled v oc) wrs []"

definition multicast_send_unpolled ::
  "nat \<Rightarrow> 'h verbs \<Rightarrow> bool \<Rightarrow> nat list \<Rightarrow> send_work_request \<Rightarrow>
     ('h, pending_work list, ibv_error) mc_comp" where
  "multicast_send_unpolled fuel v oc peers wr =
     collect_pending fuel v (\<lambda>peer. mc_send_unpolled v oc (peer_send_from_wr peer wr)) peers []"

section \<open>builder.rs\<close>

record prepared_multi_channel =
  pmc_channels :: "prepared_channel list"
  pmc_pd :: protection_domain

definition multi_channel_builder ::
  "'h verbs \<Rightarrow> nat \<Rightarrow> protection_domain \<Rightarrow> u32 \<Rightarrow> qp_params \<Rightarrow>
     ('h, prepared_multi_channel, ibv_error) comp" where
  "multi_channel_builder v num_channels pd min_cq_entries p =
     bind_s (collect_s (\<lambda>_. channel_builder v pd min_cq_entries p) [0..<num_channels]) (\<lambda>channels.
       ret_s \<lparr>pmc_channels = channels, pmc_pd = pd\<rparr>)"

definition pmc_endpoints :: "prepared_multi_channel \<Rightarrow> queue_pair_endpoint list" where
  "pmc_endpoints p = map pch_endpoint (pmc_channels p)"

definition multi_channel_handshake ::
  "'h verbs \<Rightarrow> prepared_multi_channel \<Rightarrow> queue_pair_endpoint list \<Rightarrow>
     ('h world, multi_channel, ibv_error) comp" where
  "multi_channel_handshake v p endpoints =
     (if length (pmc_channels p) \<noteq> length endpoints
      then lift_s (Err (InvalidInput (''Expected '' @ show_nat (length (pmc_channels p)) @
                          '' endpoints but got '' @ show_nat (length endpoints))))
      else
        bind_s (collect_s (\<lambda>ce. channel_handshake v (fst ce) (snd ce))
                  (zip (pmc_channels p) endpoints)) (\<lambda>channels.
          ret_s \<lparr>mc_channels = channels, mc_pd = pmc_pd p\<rparr>))"

section \<open>Routing\<close>

lemma mc_channel_Ok: "mc_channel m peer = Ok ch \<longleftrightarrow> peer < mc_num_channels m \<and> ch = mc_channels m ! peer"
  by (auto simp: mc_channel_def mc_num_channels_def)

lemma mc_set_channel_simps [simp]:
  "mc_num_channels (mc_set_channel peer ch m) = mc_num_channels m"
  "mc_pd (mc_set_channel peer ch m) = mc_pd m"
  "mc_channels (mc_set_channel peer ch m) = (mc_channels m)[peer := ch]"
  by (simp_all add: mc_set_channel_def mc_num_channels_def)

text \<open>An operation on one peer runs exactly the channel operation and touches no other channel.\<close>

lemma at_channel_in_range:
  assumes "peer < mc_num_channels m"
  shows "at_channel conv peer op (m, w) =
           (case op (mc_channels m ! peer, w) of
              (r, (ch', w')) \<Rightarrow> (r, (mc_set_channel peer ch' m, w')))"
  using assms by (simp add: at_channel_def mc_channel_def mc_num_channels_def)

lemma at_channel_out_of_range:
  "mc_num_channels m \<le> peer \<Longrightarrow>
     at_channel conv peer op (m, w) = (Err (conv (peer_not_found peer)), (m, w))"
  by (simp add: at_channel_def mc_channel_def mc_num_channels_def)

lemma at_channel_others:
  assumes "at_channel conv peer op (m, w) = (r, (m', w'))"
  shows "mc_num_channels m' = mc_num_channels m \<and> mc_pd m' = mc_pd m \<and>
         (\<forall>i. i \<noteq> peer \<longrightarrow> mc_channels m' ! i = mc_channels m ! i)"
proof (cases "peer < mc_num_channels m")
  case True
  with assms show ?thesis
    by (auto simp: at_channel_in_range split: prod.splits)
next
  case False
  with assms show ?thesis by (simp add: at_channel_out_of_range)
qed

section \<open>Scatter, gather and multicast in a scope\<close>

text \<open>What a list of posts registers: one new handle each, in order, at the end of the list.\<close>

definition scope_post ::
  "('x \<Rightarrow> 'c selector) \<Rightarrow> ('x \<Rightarrow> (channel \<times> 'h world, pending_work, ibv_error) comp) \<Rightarrow> 'x \<Rightarrow>
     (('c, 'h) scope, nat, transport_error) comp" where
  "scope_post sel op x = map_err_s TIbv (channel_post (sel x) (op x))"

lemma scope_post_Ok:
  assumes "scope_post sel op x sc = (Ok i, sc')"
  shows "i = length (sc_wrs sc) \<and> (\<exists>p. sc_wrs sc' = sc_wrs sc @ [scoped_work_new p])"
  using assms
  by (auto simp: scope_post_def map_err_s_def channel_post_def Let_def
      split: outcome.splits prod.splits)

lemma collect_scope_post_Ok:
  "collect_s (scope_post sel op) xs sc = (Ok hs, sc') \<Longrightarrow>
     hs = [length (sc_wrs sc)..<length (sc_wrs sc) + length xs] \<and>
     length (sc_wrs sc') = length (sc_wrs sc) + length xs"
proof (induction xs arbitrary: sc hs)
  case Nil
  then show ?case by (simp add: ret_s_def)
next
  case (Cons x xs)
  from Cons.prems obtain i sc1 js where
    x: "scope_post sel op x sc = (Ok i, sc1)" and
    c: "collect_s (scope_post sel op) xs sc1 = (Ok js, sc')" and hs: "hs = i # js"
    by (auto simp: bind_s_eq_Ok ret_s_def)
  from scope_post_Ok [OF x] Cons.IH [OF c] show ?case
    by (auto simp: hs upt_conv_Cons simp del: upt_Suc)
qed

text \<open>Polling every handle to completion marks every work as polled by the user.\<close>

lemma scoped_spin_poll_polled:
  assumes "scoped_spin_poll fuel v i sc = (Ok r, sc')"
  shows "i < length (sc_wrs sc) \<and> length (sc_wrs sc') = length (sc_wrs sc) \<and>
         sw_user_polled (sc_wrs sc' ! i) \<and>
         (\<forall>j < length (sc_wrs sc). sw_user_polled (sc_wrs sc ! j) \<longrightarrow> sw_user_polled (sc_wrs sc' ! j))"
  using assms
  by (auto simp: scoped_spin_poll_def put_work_def Let_def nth_list_update
      split: if_splits prod.splits outcome.splits)

lemma collect_spin_polled:
  "collect_s (\<lambda>i. scoped_spin_poll fuel v i) js sc = (Ok rs, sc') \<Longrightarrow>
     length rs = length js \<and> length (sc_wrs sc') = length (sc_wrs sc) \<and>
     (\<forall>j < length (sc_wrs sc). (j \<in> set js \<or> sw_user_polled (sc_wrs sc ! j)) \<longrightarrow>
        sw_user_polled (sc_wrs sc' ! j))"
proof (induction js arbitrary: sc rs)
  case Nil
  then show ?case by (simp add: ret_s_def)
next
  case (Cons i js)
  from Cons.prems obtain r sc1 rs1 where
    i: "scoped_spin_poll fuel v i sc = (Ok r, sc1)" and
    c: "collect_s (\<lambda>i. scoped_spin_poll fuel v i) js sc1 = (Ok rs1, sc')" and rs: "rs = r # rs1"
    by (auto simp: bind_s_eq_Ok ret_s_def)
  from scoped_spin_poll_polled [OF i] Cons.IH [OF c] show ?case
    by (auto simp: rs)
qed

lemma post_all_and_spin_Ok:
  assumes "poll_ok v"
    and run: "post_all_and_spin fuel v (collect_s (scope_post sel op) xs) (inner, w) = (r, s')"
      "r \<noteq> NoFuel"
    and f: "bind_s (collect_s (scope_post sel op) xs)
              (\<lambda>wrs. collect_s (\<lambda>i. scoped_spin_poll fuel v i) wrs) (scope_new inner w) = (c, sc1)"
  shows "r = c \<and> (\<forall>rs. r = Ok rs \<longrightarrow> length rs = length xs)"
proof -
  let ?f = "bind_s (collect_s (scope_post sel op) xs)
              (\<lambda>wrs. collect_s (\<lambda>i. scoped_spin_poll fuel v i) wrs)"
  obtain sc2 where sc2: "scope_run_manual fuel v ?f (scope_new inner w) = (r, sc2)"
    using run(1) by (auto simp: post_all_and_spin_def run_manual_scope_def with_scope_def
        split: prod.splits)
  note res = scope_run_manual_result [OF assms(1) f sc2 run(2)]
  show ?thesis
  proof (cases c)
    case (Ok rs)
    from f Ok obtain hs sc0 where
      p: "collect_s (scope_post sel op) xs (scope_new inner w) = (Ok hs, sc0)" and
      q: "collect_s (\<lambda>i. scoped_spin_poll fuel v i) hs sc0 = (Ok rs, sc1)"
      by (auto simp: bind_s_eq_Ok)
    from collect_scope_post_Ok [OF p] collect_spin_polled [OF q]
    have "\<forall>y \<in> set (sc_wrs sc1). sw_user_polled y" "length rs = length xs"
      by (auto simp: scope_new_def in_set_conv_nth)
    with res Ok show ?thesis by simp
  qed (use res in auto)
qed

text \<open>The five operations are instances.\<close>

lemma mc_posts_are_scope_posts:
  "mc_post_send v oc = scope_post (\<lambda>p. mc_selector (psw_peer p)) (\<lambda>p. send_unpolled v oc (psw_wr p))"
  "mc_post_write v oc = scope_post (\<lambda>p. mc_selector (pww_peer p)) (\<lambda>p. write_unpolled v oc (pww_wr p))"
  "mc_post_receive v oc =
     scope_post (\<lambda>p. mc_selector (prw_peer p)) (\<lambda>p. receive_unpolled v oc (prw_wr p))"
  "mc_post_read v oc = scope_post (\<lambda>p. mc_selector (prd_peer p)) (\<lambda>p. read_unpolled v oc (prd_wr p))"
  "(\<lambda>peer. mc_post_send v oc (peer_send_from_wr peer wr)) =
     scope_post mc_selector (\<lambda>_. send_unpolled v oc wr)"
  by (auto simp: fun_eq_iff scope_post_def mc_post_send_def mc_post_write_def mc_post_receive_def
      mc_post_read_def channel_post_send_def channel_post_write_def channel_post_receive_def
      channel_post_read_def peer_send_from_wr_def)

lemma post_all_and_spin_result:
  assumes "poll_ok v" "posts = collect_s (scope_post sel op) xs"
    and "post_all_and_spin fuel v posts (m, w) = (r, s')" "r \<noteq> NoFuel"
  shows "r = fst (bind_s posts (collect_s (scoped_spin_poll fuel v)) (scope_new m w)) \<and>
         (\<forall>rs. r = Ok rs \<longrightarrow> length rs = length xs)"
proof -
  obtain c sc1 where c: "bind_s posts (collect_s (scoped_spin_poll fuel v)) (scope_new m w) = (c, sc1)"
    by (metis prod.exhaust)
  from post_all_and_spin_Ok [OF assms(1) assms(3,4) [unfolded assms(2)] c [unfolded assms(2)]] c
  show ?thesis by simp
qed

lemmas scatter_defs =
  scatter_send_def scatter_write_def gather_receive_def gather_read_def multicast_send_def

lemma posts_are_collects:
  "post_scatter_send v oc swrs =
     collect_s (scope_post (\<lambda>p. mc_selector (psw_peer p)) (\<lambda>p. send_unpolled v oc (psw_wr p))) swrs"
  "post_scatter_write v oc wwrs =
     collect_s (scope_post (\<lambda>p. mc_selector (pww_peer p)) (\<lambda>p. write_unpolled v oc (pww_wr p))) wwrs"
  "post_gather_receive v oc rwrs =
     collect_s (scope_post (\<lambda>p. mc_selector (prw_peer p)) (\<lambda>p. receive_unpolled v oc (prw_wr p))) rwrs"
  "post_gather_read v oc dwrs =
     collect_s (scope_post (\<lambda>p. mc_selector (prd_peer p)) (\<lambda>p. read_unpolled v oc (prd_wr p))) dwrs"
  "post_multicast_send v oc peers wr =
     collect_s (scope_post mc_selector (\<lambda>_. send_unpolled v oc wr)) peers"
  unfolding post_multicast_send_def mc_posts_are_scope_posts(5)
  by (simp_all add: post_scatter_send_def post_scatter_write_def post_gather_receive_def
      post_gather_read_def mc_posts_are_scope_posts(1-4))

section \<open>Unpolled lists\<close>

lemma collect_pending_Ok:
  "collect_pending fuel v post xs acc s = (Ok ps, s') \<longleftrightarrow>
     (\<exists>qs. collect_s post xs s = (Ok qs, s') \<and> ps = acc @ qs)"
proof (induction xs arbitrary: acc s)
  case Nil
  then show ?case by (auto simp: ret_s_def)
next
  case (Cons x xs)
  obtain r s1 where r: "post x s = (r, s1)" by (cases "post x s")
  show ?case
  proof (cases r)
    case (Ok p)
    with r Cons.IH show ?thesis by (auto simp: bind_s_def ret_s_def split: prod.splits outcome.splits)
  qed (use r in \<open>auto simp: bind_s_def fail_dropping_def split: prod.splits outcome.splits\<close>)
qed

text \<open>
  A list of unpolled posts succeeds with one fresh pending work per request, each waiting on the
  queue of its own peer's channel.
\<close>

lemma at_unpolled_Ok:
  assumes "at_channel conv peer (unpolled oc post) (m, w) = (Ok p, (m', w'))"
  shows "peer < mc_num_channels m \<and> pw_status p = None \<and>
         pw_shared p = ch_shared (mc_channels m ! peer) \<and>
         pw_wr_id p = ch_next_wr_id (mc_channels m ! peer) \<and>
         map ch_shared (mc_channels m') = map ch_shared (mc_channels m)"
proof -
  have peer: "peer < mc_num_channels m"
    using assms at_channel_out_of_range [of m peer conv "unpolled oc post" w] by fastforce
  from assms obtain ch' where
    u: "unpolled oc post (mc_channels m ! peer, w) = (Ok p, (ch', w'))" and
    m': "m' = mc_set_channel peer ch' m"
    by (auto simp: at_channel_in_range [OF peer] split: prod.splits)
  have "map ch_shared ((mc_channels m)[peer := ch']) = map ch_shared (mc_channels m)"
    using unpolled_wr_id [OF u] peer
    by (intro nth_equalityI) (auto simp: nth_list_update mc_num_channels_def)
  with unpolled_wr_id [OF u] peer m' show ?thesis by simp
qed

lemma collect_unpolled_Ok:
  assumes "\<And>x. x \<in> set xs \<Longrightarrow> \<exists>post. op x = at_channel conv (peer x) (unpolled oc post)"
  shows "collect_s op xs (m, w) = (Ok ps, (m', w')) \<Longrightarrow>
     length ps = length xs \<and>
     (\<forall>i < length xs. peer (xs ! i) < mc_num_channels m \<and> pw_status (ps ! i) = None \<and>
        pw_shared (ps ! i) = ch_shared (mc_channels m ! peer (xs ! i)))"
  using assms
proof (induction xs arbitrary: m w ps)
  case Nil
  then show ?case by (simp add: ret_s_def)
next
  case (Cons x xs)
  from Cons.prems(1) obtain p m1 w1 ps1 where
    p: "op x (m, w) = (Ok p, (m1, w1))" and
    c: "collect_s op xs (m1, w1) = (Ok ps1, (m', w'))" and ps: "ps = p # ps1"
    by (auto simp: bind_s_eq_Ok ret_s_def)
  obtain post where "op x = at_channel conv (peer x) (unpolled oc post)"
    using Cons.prems(2) [of x] by auto
  note x = at_unpolled_Ok [OF p [unfolded this]]
  have len: "mc_num_channels m1 = mc_num_channels m"
    using x by (auto simp: mc_num_channels_def dest: arg_cong [of _ _ length])
  have same: "ch_shared (mc_channels m1 ! k) = ch_shared (mc_channels m ! k)"
    if "k < mc_num_channels m" for k
  proof -
    have "map ch_shared (mc_channels m1) ! k = map ch_shared (mc_channels m) ! k" using x by simp
    with that len show ?thesis by (simp add: mc_num_channels_def)
  qed
  have IH: "length ps1 = length xs \<and>
     (\<forall>i < length xs. peer (xs ! i) < mc_num_channels m1 \<and> pw_status (ps1 ! i) = None \<and>
        pw_shared (ps1 ! i) = ch_shared (mc_channels m1 ! peer (xs ! i)))"
    using Cons.prems(2) by (intro Cons.IH [OF c]) auto
  with x len same show ?case by (auto simp: ps nth_Cons' less_Suc_eq_0_disj)
qed

lemma mc_unpolled_at:
  "mc_send_unpolled v oc p =
     at_channel id (psw_peer p) (unpolled oc (\<lambda>qp i. qp_post_send v qp (psw_wr p) i))"
  "mc_receive_unpolled v oc rp =
     at_channel id (prw_peer rp) (unpolled oc (\<lambda>qp i. qp_post_receive v qp (prw_wr rp) i))"
  "mc_write_unpolled v oc wp =
     at_channel id (pww_peer wp) (unpolled oc (\<lambda>qp i. qp_post_write v qp (pww_wr wp) i))"
  "mc_read_unpolled v oc dp =
     at_channel id (prd_peer dp) (unpolled oc (\<lambda>qp i. qp_post_read v qp (prd_wr dp) i))"
  by (simp_all add: mc_send_unpolled_def mc_receive_unpolled_def mc_write_unpolled_def
      mc_read_unpolled_def send_unpolled_def receive_unpolled_def write_unpolled_def
      read_unpolled_def)

section \<open>Construction\<close>

lemma channel_handshake_Ok:
  assumes "channel_handshake v c e w = (Ok ch, w')"
  shows "ch_qp ch = pqp_qp (pch_qp c) \<and> ch_shared ch = w_next w \<and> ch_next_wr_id ch = 0 \<and>
         w_next w' = Suc (w_next w) \<and> sh_cq (w_shared w' (w_next w)) = pch_cq c \<and>
         (\<forall>i. i \<noteq> w_next w \<longrightarrow> w_shared w' i = w_shared w i)"
proof -
  from assms obtain qp w1 where q: "on_hw (qp_handshake v (pch_qp c) e) w = (Ok qp, w1)"
    and rest: "ch = \<lparr>ch_qp = qp, ch_shared = w_next w1, ch_next_wr_id = 0\<rparr>"
      "w_next w' = Suc (w_next w1)" "sh_cq (w_shared w' (w_next w1)) = pch_cq c"
      "\<forall>i. i \<noteq> w_next w1 \<longrightarrow> w_shared w' i = w_shared w1 i"
    by (auto simp: channel_handshake_def bind_s_eq_Ok Let_def)
  from q have "qp = pqp_qp (pch_qp c)" "w_next w1 = w_next w" "w_shared w1 = w_shared w"
    by (auto simp: on_hw_def qp_handshake_def bind_s_eq_Ok ret_s_def Let_def split: prod.splits)
  with rest show ?thesis by simp
qed

lemma collect_handshake_Ok:
  "collect_s (\<lambda>ce. channel_handshake v (fst ce) (snd ce)) ces w = (Ok chs, w') \<Longrightarrow>
     map ch_shared chs = [w_next w..<w_next w + length ces] \<and>
     w_next w' = w_next w + length ces \<and> length chs = length ces \<and>
     (\<forall>i < length ces. ch_qp (chs ! i) = pqp_qp (pch_qp (fst (ces ! i))) \<and>
        ch_next_wr_id (chs ! i) = 0 \<and>
        sh_cq (w_shared w' (ch_shared (chs ! i))) = pch_cq (fst (ces ! i))) \<and>
     (\<forall>i < w_next w. w_shared w' i = w_shared w i)"
proof (induction ces arbitrary: w chs)
  case Nil
  then show ?case by (simp add: ret_s_def)
next
  case (Cons ce ces)
  from Cons.prems obtain ch w1 chs1 where
    h: "channel_handshake v (fst ce) (snd ce) w = (Ok ch, w1)" and
    c: "collect_s (\<lambda>ce. channel_handshake v (fst ce) (snd ce)) ces w1 = (Ok chs1, w')" and
    chs: "chs = ch # chs1"
    by (auto simp: bind_s_eq_Ok ret_s_def)
  note 1 = channel_handshake_Ok [OF h]
  note 2 = Cons.IH [OF c]
  from 1 2 have "w_shared w' (w_next w) = w_shared w1 (w_next w)" by simp
  with 1 2 show ?case
    by (auto simp: chs upt_conv_Cons nth_Cons' simp del: upt_Suc)
qed

end
