(* ===== verification/Barrier_Memory.thy ===== *)
theory Barrier_Memory
  imports Multi_Channel
begin

text \<open>
  \<open>src/network/barrier/memory.rs\<close>: the array of epoch flags a node exposes to its peers, the RDMA
  notification of a peer and the busy wait for a peer.

  A flag record has the \<open>#[repr(C)]\<close> layout 0, 8, 16 of size 24.  The two local counters are in
  \<open>bm_memory\<close>; the incoming epoch of peer \<open>p\<close> is the cell at \<open>bm_addr + 24 p + 16\<close>, which remote
  nodes write and the code reads with \<open>read_volatile\<close> (\<open>v_volatile_u64\<close> of the device).
\<close>

section \<open>Errors\<close>

text \<open>\<open>BarrierError\<close> of \<open>barrier/mod.rs\<close>.\<close>

datatype barrier_error =
    Poisoned
  | SelfNotInGroup
  | UnorderedPeers
  | DuplicatePeers
  | Timeout
  | BTransport transport_error

section \<open>The flags\<close>

record barrier_peer_flags =
  expected_in_epoch :: u64
  out_epoch :: u64
  in_epoch :: u64

definition flags_new :: barrier_peer_flags where
  "flags_new = \<lparr>expected_in_epoch = 0, out_epoch = 0, in_epoch = 0\<rparr>"

definition flags_size :: nat where "flags_size = 24"
definition out_epoch_offset :: nat where "out_epoch_offset = 8"
definition in_epoch_offset :: nat where "in_epoch_offset = 16"

record prepared_barrier_mr =
  pbm_rank :: nat
  pbm_addr :: usize
  pbm_memory :: "barrier_peer_flags list"
  pbm_mr :: memory_region

record barrier_mr =
  bm_rank :: nat
  bm_addr :: usize
  bm_memory :: "barrier_peer_flags list"
  bm_mr :: memory_region
  bm_remote_mrs :: "peer_remote_memory_region list"

text \<open>\<open>addr\<close> is the address of the boxed slice that the allocator returned.\<close>

definition barrier_mr_new ::
  "'h verbs \<Rightarrow> usize \<Rightarrow> protection_domain \<Rightarrow> nat \<Rightarrow> nat \<Rightarrow> ('h, prepared_barrier_mr, ibv_error) comp" where
  "barrier_mr_new v addr pd rank world_size =
     bind_s (register_shared_mr v (pd_handle pd) addr (word_of_nat (flags_size * world_size)))
       (\<lambda>mr. ret_s \<lparr>pbm_rank = rank, pbm_addr = addr,
                    pbm_memory = replicate world_size flags_new, pbm_mr = mr\<rparr>)"

definition pbm_remote :: "prepared_barrier_mr \<Rightarrow> peer_remote_memory_region" where
  "pbm_remote p = prmr_new (pbm_rank p) (mreg_remote (pbm_mr p))"

definition pbm_link_remote ::
  "prepared_barrier_mr \<Rightarrow> peer_remote_memory_region list \<Rightarrow> barrier_mr" where
  "pbm_link_remote p remote_mrs =
     \<lparr>bm_rank = pbm_rank p, bm_addr = pbm_addr p, bm_memory = pbm_memory p, bm_mr = pbm_mr p,
      bm_remote_mrs = remote_mrs\<rparr>"

section \<open>Notifying\<close>

type_synonym 'h net = "barrier_mr \<times> multi_channel \<times> 'h world"

text \<open>\<open>self.memory[peer]\<close>, which panics out of range, and the update of that record.\<close>

definition flags_at :: "barrier_mr \<Rightarrow> nat \<Rightarrow> (barrier_peer_flags, barrier_error) outcome" where
  "flags_at bm peer = (if peer < length (bm_memory bm) then Ok (bm_memory bm ! peer) else Panic)"

definition flags_put :: "nat \<Rightarrow> barrier_peer_flags \<Rightarrow> barrier_mr \<Rightarrow> barrier_mr" where
  "flags_put peer f bm = bm\<lparr>bm_memory := (bm_memory bm)[peer := f]\<rparr>"

definition increase_out_epoch :: "bool \<Rightarrow> nat \<Rightarrow> ('h net, unit, barrier_error) comp" where
  "increase_out_epoch oc peer s =
     (case s of (bm, m, w) \<Rightarrow>
        (case bind_outcome (flags_at bm peer) (\<lambda>f.
                map_ok (\<lambda>n. f\<lparr>out_epoch := n\<rparr>) (plain_add oc (out_epoch f) 1)) of
           Ok f \<Rightarrow> (Ok (), (flags_put peer f bm, m, w))
         | Err e \<Rightarrow> (Err e, s) | Panic \<Rightarrow> (Panic, s) | NoFuel \<Rightarrow> (NoFuel, s)))"

definition out_epoch_slice :: "barrier_mr \<Rightarrow> nat \<Rightarrow> slice" where
  "out_epoch_slice bm peer =
     \<lparr>sl_ptr = bm_addr bm + word_of_nat (peer * flags_size + out_epoch_offset), sl_len = 8\<rparr>"

text \<open>The work request that writes the outgoing epoch of \<open>peer\<close> into the peer's incoming cell.\<close>

definition notify_wr :: "bool \<Rightarrow> barrier_mr \<Rightarrow> nat \<Rightarrow> (peer_write_wr, unit) outcome" where
  "notify_wr oc bm peer =
     (if peer < length (bm_memory bm) \<and> peer < length (bm_remote_mrs bm) then
        bind_outcome
          (prmr_struct_array_field_unchecked oc (bm_remote_mrs bm ! peer) (word_of_nat flags_size)
             (word_of_nat (bm_rank bm)) (word_of_nat in_epoch_offset))
          (\<lambda>r. peer_write_new [gather_new_unchecked (bm_mr bm) (out_epoch_slice bm peer)] r)
      else Panic)"

text \<open>Runs a multi-channel operation inside the barrier's state, and discards its value.\<close>

definition on_channels ::
  "('h, 'a, transport_error) mc_comp \<Rightarrow> ('h net, unit, barrier_error) comp" where
  "on_channels op s =
     (case s of (bm, m, w) \<Rightarrow>
        (case op (m, w) of
           (r, (m', w')) \<Rightarrow> (map_ok (\<lambda>_. ()) (map_err BTransport r), (bm, m', w'))))"

definition notify_peer ::
  "nat \<Rightarrow> 'h verbs \<Rightarrow> bool \<Rightarrow> nat \<Rightarrow> ('h net, unit, barrier_error) comp" where
  "notify_peer fuel v oc peer =
     bind_s (increase_out_epoch oc peer) (\<lambda>_ s.
       case notify_wr oc (fst s) peer of
         Ok wr \<Rightarrow> on_channels (mc_write fuel v oc wr) s
       | _ \<Rightarrow> (Panic, s))"

definition scatter_notify_peers ::
  "nat \<Rightarrow> 'h verbs \<Rightarrow> bool \<Rightarrow> nat list \<Rightarrow> ('h net, unit, barrier_error) comp" where
  "scatter_notify_peers fuel v oc peers =
     bind_s (for_s (increase_out_epoch oc) peers) (\<lambda>_ s.
       case collect_outcome (notify_wr oc (fst s)) peers of
         Ok wrs \<Rightarrow> on_channels (scatter_write fuel v oc wrs) s
       | _ \<Rightarrow> (Panic, s))"

section \<open>Waiting\<close>

definition timeout_check_iters :: nat where "timeout_check_iters = 2 ^ 16"

definition increase_peer_expected_epoch ::
  "bool \<Rightarrow> nat \<Rightarrow> ('h net, unit, barrier_error) comp" where
  "increase_peer_expected_epoch oc peer s =
     (case s of (bm, m, w) \<Rightarrow>
        (case bind_outcome (flags_at bm peer) (\<lambda>f.
                map_ok (\<lambda>n. f\<lparr>expected_in_epoch := n\<rparr>) (plain_add oc (expected_in_epoch f) 1)) of
           Ok f \<Rightarrow> (Ok (), (flags_put peer f bm, m, w))
         | Err e \<Rightarrow> (Err e, s) | Panic \<Rightarrow> (Panic, s) | NoFuel \<Rightarrow> (NoFuel, s)))"

definition in_epoch_addr :: "barrier_mr \<Rightarrow> nat \<Rightarrow> u64" where
  "in_epoch_addr bm peer = bm_addr bm + word_of_nat (peer * flags_size + in_epoch_offset)"

definition is_peer_epoch_expected ::
  "'h verbs \<Rightarrow> nat \<Rightarrow> ('h net, bool, barrier_error) comp" where
  "is_peer_epoch_expected v peer s =
     (case s of (bm, m, w) \<Rightarrow>
        (case flags_at bm peer of
           Ok f \<Rightarrow>
             (case v_volatile_u64 v (in_epoch_addr bm peer) (w_hw w) of
                (e, h) \<Rightarrow> (Ok (e \<ge> expected_in_epoch f), (bm, m, w\<lparr>w_hw := h\<rparr>)))
         | Err e \<Rightarrow> (Err e, s) | Panic \<Rightarrow> (Panic, s) | NoFuel \<Rightarrow> (NoFuel, s)))"

definition instant_now :: "'h verbs \<Rightarrow> ('h net, nat, barrier_error) comp" where
  "instant_now v s =
     (case s of (bm, m, w) \<Rightarrow>
        (case v_now v (w_hw w) of (t, h) \<Rightarrow> (Ok t, (bm, m, w\<lparr>w_hw := h\<rparr>))))"

text \<open>The loop, with its counter \<open>iter\<close>; \<open>elapsed\<close> saturates at zero.\<close>

fun spin_epoch_loop ::
  "nat \<Rightarrow> 'h verbs \<Rightarrow> nat \<Rightarrow> nat \<Rightarrow> nat \<Rightarrow> nat \<Rightarrow> ('h net, unit, barrier_error) comp" where
  "spin_epoch_loop 0 v iter peer start timeout s = (NoFuel, s)"
| "spin_epoch_loop (Suc fuel) v iter peer start timeout s =
     bind_s (is_peer_epoch_expected v peer) (\<lambda>expected.
       if expected then ret_s ()
       else if Suc iter \<ge> timeout_check_iters then
         bind_s (instant_now v) (\<lambda>t.
           if t - start > timeout then lift_s (Err Timeout)
           else spin_epoch_loop fuel v 0 peer start timeout)
       else spin_epoch_loop fuel v (Suc iter) peer start timeout) s"

definition spin_poll_peer_epoch_expected ::
  "nat \<Rightarrow> 'h verbs \<Rightarrow> nat \<Rightarrow> nat \<Rightarrow> nat \<Rightarrow> ('h net, unit, barrier_error) comp" where
  "spin_poll_peer_epoch_expected fuel v peer start timeout =
     spin_epoch_loop fuel v 0 peer start timeout"

end
