(* ===== verification/Barrier.thy ===== *)
theory Barrier
  imports Barrier_Memory Rust_Std
begin

text \<open>
  \<open>src/network/barrier/\<close>: the three barrier algorithms (\<open>linear.rs\<close>, \<open>binary_tree.rs\<close>,
  \<open>dissemination.rs\<close>), the validation of the peer list, the poisoning, and the dispatch (\<open>mod.rs\<close>).

  The three structures of the code have the same three fields, so they are one record here; the
  constructors of \<open>barrier\<close> tell them apart.
\<close>

section \<open>The structures\<close>

record prepared_barrier_state =
  pbs_rank :: nat
  pbs_mr :: prepared_barrier_mr

record barrier_state =
  bs_rank :: nat
  bs_mr :: barrier_mr
  bs_poisoned :: bool

definition pbs_new ::
  "'h verbs \<Rightarrow> usize \<Rightarrow> protection_domain \<Rightarrow> nat \<Rightarrow> nat \<Rightarrow> ('h, prepared_barrier_state, ibv_error) comp"
where
  "pbs_new v addr pd rank world_size =
     bind_s (barrier_mr_new v addr pd rank world_size) (\<lambda>mr.
       ret_s \<lparr>pbs_rank = rank, pbs_mr = mr\<rparr>)"

definition pbs_remote :: "prepared_barrier_state \<Rightarrow> peer_remote_memory_region" where
  "pbs_remote p = pbm_remote (pbs_mr p)"

definition pbs_link_remote ::
  "prepared_barrier_state \<Rightarrow> peer_remote_memory_region list \<Rightarrow> barrier_state" where
  "pbs_link_remote p remote_mrs =
     \<lparr>bs_rank = pbs_rank p, bs_mr = pbm_link_remote (pbs_mr p) remote_mrs, bs_poisoned = False\<rparr>"

text \<open>The other two modules repeat these three functions for their own structures.\<close>

definition tree_new ::
  "'h verbs \<Rightarrow> usize \<Rightarrow> protection_domain \<Rightarrow> nat \<Rightarrow> nat \<Rightarrow> ('h, prepared_barrier_state, ibv_error) comp"
where
  "tree_new v addr pd rank world_size =
     bind_s (barrier_mr_new v addr pd rank world_size) (\<lambda>mr.
       ret_s \<lparr>pbs_rank = rank, pbs_mr = mr\<rparr>)"

definition tree_remote :: "prepared_barrier_state \<Rightarrow> peer_remote_memory_region" where
  "tree_remote p = pbm_remote (pbs_mr p)"

definition tree_link_remote ::
  "prepared_barrier_state \<Rightarrow> peer_remote_memory_region list \<Rightarrow> barrier_state" where
  "tree_link_remote p remote_mrs =
     \<lparr>bs_rank = pbs_rank p, bs_mr = pbm_link_remote (pbs_mr p) remote_mrs, bs_poisoned = False\<rparr>"

definition dissemination_new ::
  "'h verbs \<Rightarrow> usize \<Rightarrow> protection_domain \<Rightarrow> nat \<Rightarrow> nat \<Rightarrow> ('h, prepared_barrier_state, ibv_error) comp"
where
  "dissemination_new v addr pd rank world_size =
     bind_s (barrier_mr_new v addr pd rank world_size) (\<lambda>mr.
       ret_s \<lparr>pbs_rank = rank, pbs_mr = mr\<rparr>)"

definition dissemination_remote :: "prepared_barrier_state \<Rightarrow> peer_remote_memory_region" where
  "dissemination_remote p = pbm_remote (pbs_mr p)"

definition dissemination_link_remote ::
  "prepared_barrier_state \<Rightarrow> peer_remote_memory_region list \<Rightarrow> barrier_state" where
  "dissemination_link_remote p remote_mrs =
     \<lparr>bs_rank = pbs_rank p, bs_mr = pbm_link_remote (pbs_mr p) remote_mrs, bs_poisoned = False\<rparr>"

lemmas prepared_defs =
  pbs_new_def tree_new_def dissemination_new_def pbs_remote_def tree_remote_def
  dissemination_remote_def pbs_link_remote_def tree_link_remote_def dissemination_link_remote_def

section \<open>The algorithms\<close>

text \<open>\<open>increase_peer_expected_epoch(peer); spin_poll_peer_epoch_expected(peer, ..)?\<close>\<close>

definition wait_peer ::
  "nat \<Rightarrow> 'h verbs \<Rightarrow> bool \<Rightarrow> nat \<Rightarrow> nat \<Rightarrow> nat \<Rightarrow> ('h net, unit, barrier_error) comp" where
  "wait_peer fuel v oc start timeout peer =
     bind_s (increase_peer_expected_epoch oc peer)
       (\<lambda>_. spin_poll_peer_epoch_expected fuel v peer start timeout)"

definition linear_run_barrier ::
  "nat \<Rightarrow> 'h verbs \<Rightarrow> bool \<Rightarrow> nat \<Rightarrow> nat list \<Rightarrow> nat \<Rightarrow> ('h net, unit, barrier_error) comp" where
  "linear_run_barrier fuel v oc rank peers timeout =
     (if length peers < 2 then ret_s ()
      else
        bind_s (instant_now v) (\<lambda>start_time.
          let leader = peers ! 0 in
          if rank = leader then
            bind_s (for_s (\<lambda>peer. wait_peer fuel v oc start_time timeout peer) (drop 1 peers))
              (\<lambda>_. scatter_notify_peers fuel v oc (drop 1 peers))
          else
            bind_s (notify_peer fuel v oc leader) (\<lambda>_.
              wait_peer fuel v oc start_time timeout leader)))"

definition parent_index :: "nat \<Rightarrow> nat option" where
  "parent_index idx = (if idx > 0 then Some ((idx - 1) div 2) else None)"

definition child_indices :: "nat \<Rightarrow> nat \<Rightarrow> nat list" where
  "child_indices idx len = filter (\<lambda>c. c < len) [2 * idx + 1, 2 * idx + 2]"

definition self_index :: "nat list \<Rightarrow> nat \<Rightarrow> (nat, barrier_error) outcome" where
  "self_index peers rank = map_err (\<lambda>_. SelfNotInGroup) (binary_search peers rank)"

definition tree_run_barrier ::
  "nat \<Rightarrow> 'h verbs \<Rightarrow> bool \<Rightarrow> nat \<Rightarrow> nat list \<Rightarrow> nat \<Rightarrow> ('h net, unit, barrier_error) comp" where
  "tree_run_barrier fuel v oc rank peers timeout =
     (if length peers < 2 then ret_s ()
      else
        bind_s (instant_now v) (\<lambda>start_time.
        bind_s (lift_s (self_index peers rank)) (\<lambda>idx.
          let parent_rank = map_option (\<lambda>pi. peers ! pi) (parent_index idx);
              children_ranks = map (\<lambda>ci. peers ! ci) (child_indices idx (length peers))
          in
          bind_s (for_s (\<lambda>child. wait_peer fuel v oc start_time timeout child) children_ranks) (\<lambda>_.
          bind_s (case parent_rank of Some p \<Rightarrow> notify_peer fuel v oc p | None \<Rightarrow> ret_s ()) (\<lambda>_.
          bind_s (case parent_rank of
                    Some p \<Rightarrow> wait_peer fuel v oc start_time timeout p | None \<Rightarrow> ret_s ()) (\<lambda>_.
            scatter_notify_peers fuel v oc children_ranks))))))"

text \<open>
  \<open>successors(Some(1), |d| d.checked_mul(2)).take_while(|&d| d < len)\<close>.  The distances start at 1 and
  double, so the test \<open>0 < d\<close>, which only serves termination, always holds.
\<close>

function round_distances :: "nat \<Rightarrow> nat \<Rightarrow> nat list" where
  "round_distances len d =
     (if 0 < d \<and> d < len
      then d # (if d * 2 < 2 ^ 64 then round_distances len (d * 2) else [])
      else [])"
  by auto
termination
  by (relation "measure (\<lambda>(len, d). len - d)") auto

declare round_distances.simps [simp del]

definition round_pairs :: "nat \<Rightarrow> nat \<Rightarrow> (nat \<times> nat) list" where
  "round_pairs idx len =
     map (\<lambda>d. ((idx + d) mod len, (idx + len - d) mod len)) (round_distances len 1)"

definition dissemination_run_barrier ::
  "nat \<Rightarrow> 'h verbs \<Rightarrow> bool \<Rightarrow> nat \<Rightarrow> nat list \<Rightarrow> nat \<Rightarrow> ('h net, unit, barrier_error) comp" where
  "dissemination_run_barrier fuel v oc rank peers timeout =
     (if length peers < 2 then ret_s ()
      else
        bind_s (instant_now v) (\<lambda>start_time.
        bind_s (lift_s (self_index peers rank)) (\<lambda>idx.
          for_s (\<lambda>rl.
            let right_rank = peers ! fst rl; left_rank = peers ! snd rl in
            bind_s (notify_peer fuel v oc right_rank) (\<lambda>_.
              wait_peer fuel v oc start_time timeout left_rank))
            (round_pairs idx (length peers)))))"

section \<open>Validation and poisoning\<close>

definition validate_peer_list :: "nat list \<Rightarrow> (unit, barrier_error) outcome" where
  "validate_peer_list peers =
     (if \<not> is_sorted peers then Err UnorderedPeers
      else if windows2_any_eq peers then Err DuplicatePeers
      else Ok ())"

type_synonym 'h bar_comp = "(barrier_state \<times> multi_channel \<times> 'h world, unit, barrier_error) comp"

text \<open>
  \<open>barrier_unchecked\<close>, the same text in the three files, around the algorithm's \<open>run_barrier\<close>.
\<close>

definition poisoning ::
  "(nat \<Rightarrow> nat list \<Rightarrow> nat \<Rightarrow> ('h net, unit, barrier_error) comp) \<Rightarrow> nat list \<Rightarrow> nat \<Rightarrow> 'h bar_comp"
where
  "poisoning run_barrier peers timeout s =
     (case s of (b, m, w) \<Rightarrow>
        if bs_poisoned b then (Err Poisoned, s)
        else
          (case run_barrier (bs_rank b) peers timeout (bs_mr b, m, w) of
             (result, (bm, m', w')) \<Rightarrow>
               (result, (b\<lparr>bs_mr := bm,
                           bs_poisoned := (case result of Err _ \<Rightarrow> True | _ \<Rightarrow> False)\<rparr>, m', w'))))"

definition linear_barrier_unchecked ::
  "nat \<Rightarrow> 'h verbs \<Rightarrow> bool \<Rightarrow> nat list \<Rightarrow> nat \<Rightarrow> 'h bar_comp" where
  "linear_barrier_unchecked fuel v oc = poisoning (linear_run_barrier fuel v oc)"

definition linear_barrier ::
  "nat \<Rightarrow> 'h verbs \<Rightarrow> bool \<Rightarrow> nat list \<Rightarrow> nat \<Rightarrow> 'h bar_comp" where
  "linear_barrier fuel v oc peers timeout =
     bind_s (lift_s (validate_peer_list peers)) (\<lambda>_.
     bind_s (\<lambda>s. (self_index peers (bs_rank (fst s)), s)) (\<lambda>_.
       linear_barrier_unchecked fuel v oc peers timeout))"

definition tree_barrier_unchecked ::
  "nat \<Rightarrow> 'h verbs \<Rightarrow> bool \<Rightarrow> nat list \<Rightarrow> nat \<Rightarrow> 'h bar_comp" where
  "tree_barrier_unchecked fuel v oc = poisoning (tree_run_barrier fuel v oc)"

definition tree_barrier ::
  "nat \<Rightarrow> 'h verbs \<Rightarrow> bool \<Rightarrow> nat list \<Rightarrow> nat \<Rightarrow> 'h bar_comp" where
  "tree_barrier fuel v oc peers timeout =
     bind_s (lift_s (validate_peer_list peers)) (\<lambda>_. tree_barrier_unchecked fuel v oc peers timeout)"

definition dissemination_barrier_unchecked ::
  "nat \<Rightarrow> 'h verbs \<Rightarrow> bool \<Rightarrow> nat list \<Rightarrow> nat \<Rightarrow> 'h bar_comp" where
  "dissemination_barrier_unchecked fuel v oc = poisoning (dissemination_run_barrier fuel v oc)"

definition dissemination_barrier ::
  "nat \<Rightarrow> 'h verbs \<Rightarrow> bool \<Rightarrow> nat list \<Rightarrow> nat \<Rightarrow> 'h bar_comp" where
  "dissemination_barrier fuel v oc peers timeout =
     bind_s (lift_s (validate_peer_list peers)) (\<lambda>_.
       dissemination_barrier_unchecked fuel v oc peers timeout)"

section \<open>mod.rs: the dispatch\<close>

datatype barrier_algorithm = CentralizedAlg | BinaryTreeAlg | DisseminationAlg

datatype prepared_barrier =
    PCentralized (the_prepared: prepared_barrier_state)
  | PBinaryTree (the_prepared: prepared_barrier_state)
  | PDissemination (the_prepared: prepared_barrier_state)

datatype barrier =
    Centralized (the_state: barrier_state)
  | BinaryTree (the_state: barrier_state)
  | Dissemination (the_state: barrier_state)

definition new_centralized ::
  "'h verbs \<Rightarrow> usize \<Rightarrow> protection_domain \<Rightarrow> nat \<Rightarrow> nat \<Rightarrow> ('h, prepared_barrier, ibv_error) comp" where
  "new_centralized v addr pd rank world_size =
     bind_s (pbs_new v addr pd rank world_size) (\<lambda>p. ret_s (PCentralized p))"

definition new_binary_tree ::
  "'h verbs \<Rightarrow> usize \<Rightarrow> protection_domain \<Rightarrow> nat \<Rightarrow> nat \<Rightarrow> ('h, prepared_barrier, ibv_error) comp" where
  "new_binary_tree v addr pd rank world_size =
     bind_s (tree_new v addr pd rank world_size) (\<lambda>p. ret_s (PBinaryTree p))"

definition new_dissemination ::
  "'h verbs \<Rightarrow> usize \<Rightarrow> protection_domain \<Rightarrow> nat \<Rightarrow> nat \<Rightarrow> ('h, prepared_barrier, ibv_error) comp" where
  "new_dissemination v addr pd rank world_size =
     bind_s (dissemination_new v addr pd rank world_size) (\<lambda>p. ret_s (PDissemination p))"

fun algorithm_instance ::
  "barrier_algorithm \<Rightarrow> 'h verbs \<Rightarrow> usize \<Rightarrow> protection_domain \<Rightarrow> nat \<Rightarrow> nat \<Rightarrow>
     ('h, prepared_barrier, ibv_error) comp" where
  "algorithm_instance CentralizedAlg v addr pd rank world_size =
     new_centralized v addr pd rank world_size"
| "algorithm_instance BinaryTreeAlg v addr pd rank world_size =
     new_binary_tree v addr pd rank world_size"
| "algorithm_instance DisseminationAlg v addr pd rank world_size =
     new_dissemination v addr pd rank world_size"

fun prepared_remote_mr :: "prepared_barrier \<Rightarrow> peer_remote_memory_region" where
  "prepared_remote_mr (PCentralized p) = pbs_remote p"
| "prepared_remote_mr (PBinaryTree p) = tree_remote p"
| "prepared_remote_mr (PDissemination p) = dissemination_remote p"

fun prepared_link_remote :: "prepared_barrier \<Rightarrow> peer_remote_memory_region list \<Rightarrow> barrier" where
  "prepared_link_remote (PCentralized p) r = Centralized (pbs_link_remote p r)"
| "prepared_link_remote (PBinaryTree p) r = BinaryTree (tree_link_remote p r)"
| "prepared_link_remote (PDissemination p) r = Dissemination (dissemination_link_remote p r)"

text \<open>Runs a method of the structure inside a constructor.\<close>

definition in_barrier ::
  "(barrier_state \<Rightarrow> barrier) \<Rightarrow> barrier_state \<Rightarrow> 'h bar_comp \<Rightarrow> multi_channel \<Rightarrow> 'h world \<Rightarrow>
     (unit, barrier_error) outcome \<times> barrier \<times> multi_channel \<times> 'h world" where
  "in_barrier c b op m w = (case op (b, m, w) of (r, (b', m', w')) \<Rightarrow> (r, (c b', m', w')))"

fun barrier_barrier ::
  "nat \<Rightarrow> 'h verbs \<Rightarrow> bool \<Rightarrow> nat list \<Rightarrow> nat \<Rightarrow>
     (barrier \<times> multi_channel \<times> 'h world, unit, barrier_error) comp" where
  "barrier_barrier fuel v oc peers timeout (Centralized b, m, w) =
     in_barrier Centralized b (linear_barrier fuel v oc peers timeout) m w"
| "barrier_barrier fuel v oc peers timeout (BinaryTree b, m, w) =
     in_barrier BinaryTree b (tree_barrier fuel v oc peers timeout) m w"
| "barrier_barrier fuel v oc peers timeout (Dissemination b, m, w) =
     in_barrier Dissemination b (dissemination_barrier fuel v oc peers timeout) m w"

fun barrier_barrier_unchecked ::
  "nat \<Rightarrow> 'h verbs \<Rightarrow> bool \<Rightarrow> nat list \<Rightarrow> nat \<Rightarrow>
     (barrier \<times> multi_channel \<times> 'h world, unit, barrier_error) comp" where
  "barrier_barrier_unchecked fuel v oc peers timeout (Centralized b, m, w) =
     in_barrier Centralized b (linear_barrier_unchecked fuel v oc peers timeout) m w"
| "barrier_barrier_unchecked fuel v oc peers timeout (BinaryTree b, m, w) =
     in_barrier BinaryTree b (tree_barrier_unchecked fuel v oc peers timeout) m w"
| "barrier_barrier_unchecked fuel v oc peers timeout (Dissemination b, m, w) =
     in_barrier Dissemination b (dissemination_barrier_unchecked fuel v oc peers timeout) m w"

end
