(* ===== verification/Barrier_Topology.thy ===== *)
theory Barrier_Topology
  imports Barrier
begin

text \<open>
  The shape of the three algorithms: the binary tree of \<open>parent_index\<close> and \<open>child_indices\<close>, the rounds
  of \<open>round_pairs\<close>, and the sequence of notifications and waits each algorithm performs, to which
  \<open>run_barrier\<close> is proved equal.
\<close>

section \<open>The binary tree\<close>

lemma set_child_indices: "set (child_indices idx len) = {c. (c = 2 * idx + 1 \<or> c = 2 * idx + 2) \<and> c < len}"
  by (auto simp: child_indices_def)

lemma distinct_child_indices: "distinct (child_indices idx len)"
  by (simp add: child_indices_def)

text \<open>Parent and child are inverse relations.\<close>

lemma child_iff_parent: "c \<in> set (child_indices idx len) \<longleftrightarrow> c < len \<and> parent_index c = Some idx"
proof -
  have "0 < c \<and> (c - 1) div 2 = idx \<longleftrightarrow> c = 2 * idx + 1 \<or> c = 2 * idx + 2"
    by arith
  then show ?thesis by (auto simp: set_child_indices parent_index_def)
qed

lemma parent_less: "parent_index c = Some p \<Longrightarrow> p < c"
  by (auto simp: parent_index_def split: if_splits)

text \<open>The chain of parents from a node, which ends at the root.\<close>

function ancestors :: "nat \<Rightarrow> nat list" where
  "ancestors idx = (case parent_index idx of None \<Rightarrow> [] | Some p \<Rightarrow> p # ancestors p)"
  by pat_completeness auto
termination
  by (relation "measure id") (auto dest: parent_less)

declare ancestors.simps [simp del]

lemma ancestors_root: "idx = 0 \<or> last (ancestors idx) = 0"
proof (induction idx rule: ancestors.induct)
  case (1 idx)
  show ?case
  proof (cases "parent_index idx")
    case None
    then show ?thesis by (simp add: parent_index_def split: if_splits)
  next
    case (Some p)
    show ?thesis
    proof (cases "p = 0")
      case True
      with Some show ?thesis by (simp add: ancestors.simps [of idx] ancestors.simps [of 0] parent_index_def)
    next
      case False
      then have "ancestors p \<noteq> []" by (simp add: ancestors.simps [of p] parent_index_def)
      with 1 [OF Some] False Some show ?thesis by (simp add: ancestors.simps [of idx])
    qed
  qed
qed

text \<open>The depth of a node is the binary logarithm of its one-based position.\<close>

lemma ancestors_depth: "length (ancestors idx) = ilog2 (idx + 1)"
proof (induction idx rule: ancestors.induct)
  case (1 idx)
  show ?case
  proof (cases "idx = 0")
    case True
    then show ?thesis
      by (simp add: ancestors.simps [of 0] parent_index_def ilog2.simps [of "Suc 0"])
  next
    case False
    then have p: "parent_index idx = Some ((idx - 1) div 2)" by (simp add: parent_index_def)
    have "(idx + 1) div 2 = (idx - 1) div 2 + 1" using False by arith
    then have "ilog2 (idx + 1) = Suc (ilog2 ((idx - 1) div 2 + 1))"
      using False by (subst ilog2.simps) auto
    with 1 [OF p] p show ?thesis by (simp add: ancestors.simps [of idx])
  qed
qed

lemma ilog2_mono: "m \<le> n \<Longrightarrow> ilog2 m \<le> ilog2 n"
proof (induction m arbitrary: n rule: ilog2.induct)
  case (1 m)
  show ?case
  proof (cases "m \<le> 1")
    case True
    then show ?thesis by (subst ilog2.simps) auto
  next
    case False
    with 1 have "ilog2 (m div 2) \<le> ilog2 (n div 2)" by (auto intro: div_le_mono)
    with False 1(2) show ?thesis
      by (subst (1 2) ilog2.simps) auto
  qed
qed

section \<open>The rounds of the dissemination barrier\<close>

text \<open>The distances are the powers of two below the size of the group.\<close>

lemma round_distances_eq:
  assumes "len \<le> 2 ^ 63"
  shows "\<exists>m. round_distances len (2 ^ k) = map (\<lambda>r. 2 ^ r) [k..<m] \<and> k \<le> m \<and> len \<le> 2 ^ m \<and>
             (\<forall>r. k \<le> r \<and> r < m \<longrightarrow> 2 ^ r < len)"
proof (induction "len - 2 ^ k" arbitrary: k rule: less_induct)
  case less
  show ?case
  proof (cases "2 ^ k < len")
    case False
    then have "round_distances len (2 ^ k) = map (\<lambda>r. 2 ^ r) [k..<k]"
      by (subst round_distances.simps) simp
    with False show ?thesis by (intro exI [of _ k]) simp
  next
    case True
    then have "(2 :: nat) ^ k < 2 ^ 63" using assms by linarith
    then have "(2 :: nat) ^ k * 2 < 2 ^ 64" by simp
    with True have step: "round_distances len (2 ^ k) = 2 ^ k # round_distances len (2 ^ Suc k)"
      by (subst round_distances.simps) (simp add: mult.commute)
    have "(0 :: nat) < 2 ^ k" by simp
    then have "len - 2 ^ Suc k < len - 2 ^ k" using True unfolding power_Suc by linarith
    from less [OF this] obtain m where
      m: "round_distances len (2 ^ Suc k) = map (\<lambda>r. 2 ^ r) [Suc k..<m]" "Suc k \<le> m" "len \<le> 2 ^ m"
      "\<forall>r. Suc k \<le> r \<and> r < m \<longrightarrow> 2 ^ r < len" by blast
    have "\<forall>r. k \<le> r \<and> r < m \<longrightarrow> 2 ^ r < len"
      using m(4) True by (metis Suc_leI le_neq_implies_less)
    with m step show ?thesis
      by (intro exI [of _ m]) (simp add: upt_conv_Cons)
  qed
qed

definition num_rounds :: "nat \<Rightarrow> nat" where
  "num_rounds len = length (round_distances len 1)"

lemma round_distances_powers:
  assumes "len \<le> 2 ^ 63"
  shows "round_distances len 1 = map (\<lambda>r. 2 ^ r) [0..<num_rounds len]"
    and "len \<le> 2 ^ num_rounds len" and "\<And>r. r < num_rounds len \<Longrightarrow> 2 ^ r < len"
proof -
  obtain m where m: "round_distances len (2 ^ 0) = map (\<lambda>r. 2 ^ r) [0..<m]" "len \<le> 2 ^ m"
    "\<forall>r. 0 \<le> r \<and> r < m \<longrightarrow> 2 ^ r < len"
    using round_distances_eq [OF assms, of 0] by blast
  then have "num_rounds len = m" by (simp add: num_rounds_def)
  with m show "round_distances len 1 = map (\<lambda>r. 2 ^ r) [0..<num_rounds len]"
    and "len \<le> 2 ^ num_rounds len" and "\<And>r. r < num_rounds len \<Longrightarrow> 2 ^ r < len"
    by auto
qed

text \<open>The number of rounds is the ceiling of the binary logarithm.\<close>

lemma num_rounds_ceil_log2:
  assumes "len \<le> 2 ^ 63" "2 \<le> len"
  shows "len \<le> 2 ^ num_rounds len \<and> 2 ^ (num_rounds len - 1) < len"
proof -
  have "num_rounds len \<noteq> 0"
    using round_distances_powers(2) [OF assms(1)] assms(2) by (cases "num_rounds len") auto
  with round_distances_powers [OF assms(1)] show ?thesis by simp
qed

lemma num_rounds_le_63: "len \<le> 2 ^ 63 \<Longrightarrow> num_rounds len \<le> 63"
proof (rule ccontr)
  assume a: "len \<le> 2 ^ 63" "\<not> num_rounds len \<le> 63"
  then have "2 ^ 63 < len" using round_distances_powers(3) [OF a(1), of 63] by simp
  with a(1) show False by simp
qed

lemma round_pairs_nth:
  assumes "len \<le> 2 ^ 63" "r < num_rounds len"
  shows "round_pairs idx len ! r = ((idx + 2 ^ r) mod len, (idx + len - 2 ^ r) mod len)"
  using assms round_distances_powers(1) [OF assms(1)] by (simp add: round_pairs_def)

lemma length_round_pairs: "length (round_pairs idx len) = num_rounds len"
  by (simp add: round_pairs_def num_rounds_def)

text \<open>Moving \<open>d\<close> to the right and then \<open>d\<close> to the left is staying.\<close>

lemma mod_back:
  fixes i d n :: nat
  assumes "i < n" "d \<le> n"
  shows "((i + d) mod n + n - d) mod n = i" "((i + n - d) mod n + d) mod n = i"
proof -
  have "(i + d) mod n + n - d = (i + d) mod n + (n - d)" using assms by simp
  also have "\<dots> mod n = (i + d + (n - d)) mod n" by (rule mod_add_left_eq)
  also have "\<dots> = i" using assms by simp
  finally show "((i + d) mod n + n - d) mod n = i" .
  have "((i + n - d) mod n + d) mod n = (i + n - d + d) mod n" by (rule mod_add_left_eq)
  also have "\<dots> = i" using assms by simp
  finally show "((i + n - d) mod n + d) mod n = i" .
qed

lemma round_symmetric:
  assumes "len \<le> 2 ^ 63" "r < num_rounds len" "idx < len"
  shows "snd (round_pairs (fst (round_pairs idx len ! r)) len ! r) = idx"
    and "fst (round_pairs (snd (round_pairs idx len ! r)) len ! r) = idx"
proof -
  have "2 ^ r < len" by (rule round_distances_powers(3) [OF assms(1,2)])
  with assms show "snd (round_pairs (fst (round_pairs idx len ! r)) len ! r) = idx"
    and "fst (round_pairs (snd (round_pairs idx len ! r)) len ! r) = idx"
    by (simp_all add: round_pairs_nth mod_back)
qed

text \<open>Different distances lead to different nodes, and none leads back to the node itself.\<close>

lemma shift_right_inj:
  fixes i d e n :: nat
  assumes "d < n" "e < n" "(i + d) mod n = (i + e) mod n"
  shows "d = e"
proof -
  define j where "j = i mod n"
  have j: "j \<le> n" using assms(1) by (simp add: j_def less_imp_le)
  have eq: "(x + j) mod n = (i + x) mod n" for x
    unfolding j_def mod_add_right_eq by (simp only: add.commute)
  have "d = ((i + d) mod n + n - j) mod n"
    using mod_back(1) [OF assms(1) j] unfolding eq by (rule sym)
  also have "\<dots> = ((i + e) mod n + n - j) mod n"
    by (simp only: assms(3))
  also have "\<dots> = e"
    using mod_back(1) [OF assms(2) j] unfolding eq .
  finally show ?thesis .
qed

lemma round_never_self:
  assumes "len \<le> 2 ^ 63" "r < num_rounds len" "idx < len"
  shows "fst (round_pairs idx len ! r) \<noteq> idx" "snd (round_pairs idx len ! r) \<noteq> idx"
proof -
  have r: "2 ^ r < len" by (rule round_distances_powers(3) [OF assms(1,2)])
  have no: "(i + 2 ^ r) mod len \<noteq> i" if "i < len" for i
  proof
    assume "(i + 2 ^ r) mod len = i"
    then have "(i + 2 ^ r) mod len = (i + 0) mod len" using that by simp
    from shift_right_inj [OF r _ this] r show False by simp
  qed
  then show "fst (round_pairs idx len ! r) \<noteq> idx"
    using assms by (simp add: round_pairs_nth)
  have "(idx + len - 2 ^ r) mod len < len" using assms(3) by simp
  from no [OF this] mod_back(2) [OF assms(3), of "2 ^ r"] r
  show "snd (round_pairs idx len ! r) \<noteq> idx"
    using assms by (auto simp: round_pairs_nth)
qed

section \<open>What an algorithm does, as a sequence of actions\<close>

text \<open>
  \<open>Notify p\<close> is \<open>notify_peer\<close>, \<open>Scatter ps\<close> is \<open>scatter_notify_peers\<close>, and \<open>Wait p\<close> increases the
  expected epoch of \<open>p\<close> and waits for it.
\<close>

datatype action = Notify nat | Scatter "nat list" | Wait nat

fun run_action ::
  "nat \<Rightarrow> 'h verbs \<Rightarrow> bool \<Rightarrow> nat \<Rightarrow> nat \<Rightarrow> action \<Rightarrow> ('h net, unit, barrier_error) comp" where
  "run_action fuel v oc start timeout (Notify p) = notify_peer fuel v oc p"
| "run_action fuel v oc start timeout (Scatter ps) = scatter_notify_peers fuel v oc ps"
| "run_action fuel v oc start timeout (Wait p) = wait_peer fuel v oc start timeout p"

definition linear_actions :: "nat list \<Rightarrow> nat \<Rightarrow> action list" where
  "linear_actions peers rank =
     (if rank = peers ! 0 then map Wait (drop 1 peers) @ [Scatter (drop 1 peers)]
      else [Notify (peers ! 0), Wait (peers ! 0)])"

definition tree_actions :: "nat list \<Rightarrow> nat \<Rightarrow> action list" where
  "tree_actions peers idx =
     (let children = map (\<lambda>ci. peers ! ci) (child_indices idx (length peers)) in
      map Wait children @
      (case parent_index idx of
         None \<Rightarrow> []
       | Some p \<Rightarrow> [Notify (peers ! p), Wait (peers ! p)]) @
      [Scatter children])"

definition dissemination_actions :: "nat list \<Rightarrow> nat \<Rightarrow> action list" where
  "dissemination_actions peers idx =
     concat (map (\<lambda>rl. [Notify (peers ! fst rl), Wait (peers ! snd rl)])
               (round_pairs idx (length peers)))"

lemma for_s_map: "for_s f (map g xs) = for_s (\<lambda>x. f (g x)) xs"
  by (induction xs) simp_all

lemma for_s_concat_map:
  "for_s f (concat (map g xs)) = for_s (\<lambda>x. for_s f (g x)) xs"
  by (induction xs) (simp_all add: for_s_append)

lemma linear_run_is_actions:
  assumes "2 \<le> length peers"
  shows "linear_run_barrier fuel v oc rank peers timeout =
           bind_s (instant_now v)
             (\<lambda>start. for_s (run_action fuel v oc start timeout) (linear_actions peers rank))"
  using assms
  by (simp add: linear_run_barrier_def linear_actions_def for_s_append for_s_map Let_def)

lemma tree_run_is_actions:
  assumes "2 \<le> length peers" "self_index peers rank = Ok idx"
  shows "tree_run_barrier fuel v oc rank peers timeout =
           bind_s (instant_now v)
             (\<lambda>start. for_s (run_action fuel v oc start timeout) (tree_actions peers idx))"
proof -
  have lift: "bind_s (lift_s (Ok idx)) k = k idx" for k :: "nat \<Rightarrow> ('h net, unit, barrier_error) comp"
    by (simp add: fun_eq_iff bind_s_def lift_s_def)
  show ?thesis
    using assms
    by (cases "parent_index idx")
      (simp_all add: tree_run_barrier_def tree_actions_def for_s_append for_s_map Let_def lift
        bind_s_assoc)
qed

lemma dissemination_run_is_actions:
  assumes "2 \<le> length peers" "self_index peers rank = Ok idx"
  shows "dissemination_run_barrier fuel v oc rank peers timeout =
           bind_s (instant_now v)
             (\<lambda>start. for_s (run_action fuel v oc start timeout) (dissemination_actions peers idx))"
proof -
  have lift: "bind_s (lift_s (Ok idx)) k = k idx" for k :: "nat \<Rightarrow> ('h net, unit, barrier_error) comp"
    by (simp add: fun_eq_iff bind_s_def lift_s_def)
  show ?thesis
    using assms
    by (simp add: dissemination_run_barrier_def dissemination_actions_def for_s_concat_map Let_def
        lift)
qed

lemma self_index_nth:
  assumes "sorted peers" "distinct peers" "idx < length peers"
  shows "self_index peers (peers ! idx) = Ok idx"
  using binary_search_nth [OF assms] by (simp add: self_index_def)

end
