(* ===== verification/Barrier_Lemmas.thy ===== *)
theory Barrier_Lemmas
  imports Barrier_Topology
begin

text \<open>
  What one node can rely on: the verdict of the validation, the poisoning as an interface, the
  address a notification writes, how the epochs are counted, and that a wait ends.
\<close>

section \<open>Validation\<close>

lemma validate_peer_list_iff:
  "validate_peer_list peers = Ok () \<longleftrightarrow> sorted peers \<and> distinct peers"
  "validate_peer_list peers = Err UnorderedPeers \<longleftrightarrow> \<not> sorted peers"
  "validate_peer_list peers = Err DuplicatePeers \<longleftrightarrow> sorted peers \<and> \<not> distinct peers"
  by (auto simp: validate_peer_list_def is_sorted_iff windows2_any_eq_iff)

lemma validate_peer_list_cases:
  "validate_peer_list peers \<in> {Ok (), Err UnorderedPeers, Err DuplicatePeers}"
  by (simp add: validate_peer_list_def)

lemma self_index_cases:
  "(\<exists>i. self_index peers rank = Ok i) \<or> self_index peers rank = Err SelfNotInGroup"
  by (cases peers rank rule: binary_search_cases) (auto simp: self_index_def)

lemma self_index_Err:
  assumes "sorted peers"
  shows "self_index peers rank = Err SelfNotInGroup \<longleftrightarrow> rank \<notin> set peers"
proof (cases peers rank rule: binary_search_cases)
  case (1 i)
  with binary_search_member [OF assms, of rank] show ?thesis by (auto simp: self_index_def)
next
  case (2 i)
  with binary_search_member [OF assms, of rank] show ?thesis by (auto simp: self_index_def)
qed

section \<open>Poisoning\<close>

text \<open>A session: one call after the other, whatever the results.\<close>

fun run_calls ::
  "(nat list \<Rightarrow> nat \<Rightarrow> ('s, unit, barrier_error) comp) \<Rightarrow> (nat list \<times> nat) list \<Rightarrow> 's \<Rightarrow>
     (unit, barrier_error) outcome list \<times> 's" where
  "run_calls op [] s = ([], s)"
| "run_calls op (c # cs) s =
     (case op (fst c) (snd c) s of
        (r, s') \<Rightarrow> (case run_calls op cs s' of (rs, s'') \<Rightarrow> (r # rs, s'')))"

locale poisoning_barrier =
  fixes op :: "nat list \<Rightarrow> nat \<Rightarrow> ('s, unit, barrier_error) comp"
    and poisoned :: "'s \<Rightarrow> bool"
  assumes poisoned_stops: "poisoned s \<Longrightarrow> op peers timeout s = (Err Poisoned, s)"
    and error_poisons: "op peers timeout s = (Err e, s') \<Longrightarrow> poisoned s'"
begin

lemma poisoned_session:
  "poisoned s \<Longrightarrow> run_calls op calls s = (replicate (length calls) (Err Poisoned), s)"
  by (induction calls) (simp_all add: poisoned_stops)

text \<open>Successes, then at most one error of its own, then only \<open>Poisoned\<close>.\<close>

lemma session_shape:
  assumes "run_calls op calls s = (rs, s')" "Panic \<notin> set rs" "NoFuel \<notin> set rs"
  shows "rs = replicate (length calls) (Ok ()) \<or>
         (\<exists>k e. k < length calls \<and>
            rs = replicate k (Ok ()) @ Err e # replicate (length calls - Suc k) (Err Poisoned) \<and>
            poisoned s')"
  using assms
proof (induction calls arbitrary: s rs)
  case Nil
  then show ?case by simp
next
  case (Cons c cs)
  obtain r s1 where r: "op (fst c) (snd c) s = (r, s1)" by (metis prod.exhaust)
  obtain rs1 s2 where rs1: "run_calls op cs s1 = (rs1, s2)" by (metis prod.exhaust)
  from Cons.prems(1) r rs1 have rs: "rs = r # rs1" "s' = s2" by simp_all
  show ?case
  proof (cases r)
    case (Ok u)
    have "rs1 = replicate (length cs) (Ok ()) \<or>
         (\<exists>k e. k < length cs \<and>
            rs1 = replicate k (Ok ()) @ Err e # replicate (length cs - Suc k) (Err Poisoned) \<and>
            poisoned s')"
      using Cons.prems(2,3) rs rs1 by (intro Cons.IH) auto
    then show ?thesis
    proof (elim disjE exE conjE)
      fix k e
      assume k: "k < length cs" "poisoned s'"
        "rs1 = replicate k (Ok ()) @ Err e # replicate (length cs - Suc k) (Err Poisoned)"
      show ?thesis
        by (rule disjI2, rule exI [of _ "Suc k"], rule exI [of _ e]) (use k rs Ok in simp)
    qed (use rs Ok in simp)
  next
    case (Err e)
    with r have p: "poisoned s1" by (simp add: error_poisons)
    from poisoned_session [OF this, of cs] rs1 have "rs1 = replicate (length cs) (Err Poisoned)" "s2 = s1"
      by simp_all
    with p rs Err show ?thesis
      by (intro disjI2 exI [of _ 0] exI [of _ e]) simp
  qed (use Cons.prems rs in auto)
qed

end

lemma poisoning_stops:
  "bs_poisoned (fst s) \<Longrightarrow> poisoning run peers timeout s = (Err Poisoned, s)"
  by (cases s) (simp add: poisoning_def)

lemma poisoning_poisons:
  "poisoning run peers timeout s = (Err e, s') \<Longrightarrow> bs_poisoned (fst s')"
  by (cases s) (auto simp: poisoning_def split: if_splits prod.splits)

interpretation linear: poisoning_barrier "linear_barrier_unchecked fuel v oc" "\<lambda>s. bs_poisoned (fst s)"
  by unfold_locales (auto simp: linear_barrier_unchecked_def poisoning_stops dest: poisoning_poisons)

interpretation tree: poisoning_barrier "tree_barrier_unchecked fuel v oc" "\<lambda>s. bs_poisoned (fst s)"
  by unfold_locales (auto simp: tree_barrier_unchecked_def poisoning_stops dest: poisoning_poisons)

interpretation diss: poisoning_barrier "dissemination_barrier_unchecked fuel v oc"
  "\<lambda>s. bs_poisoned (fst s)"
  by unfold_locales
    (auto simp: dissemination_barrier_unchecked_def poisoning_stops dest: poisoning_poisons)

lemma dispatch_stops:
  assumes "bs_poisoned (the_state (fst s))"
  shows "barrier_barrier_unchecked fuel v oc peers timeout s = (Err Poisoned, s)"
proof -
  obtain b m w where s: "s = (b, m, w)" by (metis prod.exhaust)
  show ?thesis
    using assms by (cases b) (simp_all add: s in_barrier_def linear.poisoned_stops
        tree.poisoned_stops diss.poisoned_stops)
qed

lemma dispatch_poisons:
  assumes "barrier_barrier_unchecked fuel v oc peers timeout s = (Err e, s')"
  shows "bs_poisoned (the_state (fst s'))"
proof -
  obtain b m w where s: "s = (b, m, w)" by (metis prod.exhaust)
  show ?thesis
    using assms by (cases b)
      (auto simp: s in_barrier_def split: prod.splits
        dest: linear.error_poisons tree.error_poisons diss.error_poisons)
qed

interpretation dispatch: poisoning_barrier "barrier_barrier_unchecked fuel v oc"
  "\<lambda>s. bs_poisoned (the_state (fst s))"
  by unfold_locales (auto simp: dispatch_stops dest: dispatch_poisons)

section \<open>Where a notification goes\<close>

text \<open>
  A barrier memory region as the construction leaves it: own region and remote regions cover the
  flags of the whole world, inside the address space.
\<close>

definition wf_barrier_mr :: "barrier_mr \<Rightarrow> bool" where
  "wf_barrier_mr bm \<longleftrightarrow>
     (let n = length (bm_memory bm) in
      n < 2 ^ 58 \<and> bm_rank bm < n \<and> length (bm_remote_mrs bm) = n \<and>
      mreg_address (bm_mr bm) = bm_addr bm \<and> unat (mreg_length (bm_mr bm)) = flags_size * n \<and>
      unat (bm_addr bm) + flags_size * n < 2 ^ 64 \<and>
      (\<forall>p < n. prmr_peer (bm_remote_mrs bm ! p) = p \<and>
         unat (rmr_length (prmr_remote_mr (bm_remote_mrs bm ! p))) = flags_size * n \<and>
         unat (rmr_addr (prmr_remote_mr (bm_remote_mrs bm ! p))) + flags_size * n < 2 ^ 64))"

lemma unat_of_nat_u64: "n < 2 ^ 64 \<Longrightarrow> unat (word_of_nat n :: u64) = n"
  by (simp add: unat_of_nat)

lemma unat_plus_of_nat:
  fixes a :: u64
  assumes "unat a + n < 2 ^ 64"
  shows "unat (a + word_of_nat n) = unat a + n"
proof -
  have "unat (word_of_nat n :: u64) = n" using assms by (intro unat_of_nat_u64) simp
  with assms show ?thesis by (simp add: unat_word_ariths)
qed

lemma notify_wr_eq:
  assumes wf: "wf_barrier_mr bm" and p: "peer < length (bm_memory bm)"
  defines "r \<equiv> prmr_remote_mr (bm_remote_mrs bm ! peer)"
  shows "\<exists>t. notify_wr oc bm peer =
           Ok \<lparr>pww_peer = peer,
               pww_wr = \<lparr>wrt_gather = [gather_new_unchecked (bm_mr bm) (out_epoch_slice bm peer)],
                         wrt_remote_mr = t, wrt_imm = None\<rparr>\<rparr> \<and>
           unat (rmr_addr t) = unat (rmr_addr r) + (bm_rank bm * flags_size + in_epoch_offset) \<and>
           rmr_rkey t = rmr_rkey r \<and>
           unat (rmr_length t) = flags_size * length (bm_memory bm) -
             (bm_rank bm * flags_size + in_epoch_offset) \<and>
           8 \<le> unat (rmr_length t)"
proof -
  let ?n = "length (bm_memory bm)"
  let ?o = "bm_rank bm * flags_size + in_epoch_offset"
  have n: "?n < 2 ^ 58" "bm_rank bm < ?n" "length (bm_remote_mrs bm) = ?n"
    "unat (rmr_length r) = flags_size * ?n" "unat (rmr_addr r) + flags_size * ?n < 2 ^ 64"
    "prmr_peer (bm_remote_mrs bm ! peer) = peer"
    using wf p by (simp_all add: wf_barrier_mr_def Let_def r_def)
  have o: "?o + 8 \<le> flags_size * ?n"
    using n(2) by (simp add: flags_size_def in_epoch_offset_def)
  have u: "unat (word_of_nat flags_size :: u64) = flags_size"
    "unat (word_of_nat in_epoch_offset :: u64) = in_epoch_offset"
    "unat (word_of_nat (bm_rank bm) :: u64) = bm_rank bm"
    using n(1,2) by (simp_all add: flags_size_def in_epoch_offset_def unat_of_nat)
  have lt: "bm_rank bm * flags_size + in_epoch_offset < 2 ^ 64"
    using o n(5) by linarith
  have off: "word_of_nat (bm_rank bm) * word_of_nat flags_size + word_of_nat in_epoch_offset =
      (word_of_nat ?o :: u64)" by simp
  have uo: "unat (word_of_nat ?o :: u64) = ?o" using lt by (rule unat_of_nat_u64)
  have "sub_region r (word_of_nat ?o) \<noteq> None"
    using o n(4,5) uo
    by (auto simp: sub_region_def checked_add_def word_less_nat_alt split: option.splits if_splits)
  then obtain t where s: "sub_region r (word_of_nat ?o) = Some t" by blast
  have f: "remote_struct_array_field r (word_of_nat flags_size) (word_of_nat (bm_rank bm))
      (word_of_nat in_epoch_offset) = Some t"
    unfolding remote_struct_array_field_Some off u using s lt by (auto simp: mult.commute)
  have pr: "prmr_struct_array_field_unchecked oc (bm_remote_mrs bm ! peer) (word_of_nat flags_size)
      (word_of_nat (bm_rank bm)) (word_of_nat in_epoch_offset) =
      (Ok \<lparr>prmr_peer = peer, prmr_remote_mr = t\<rparr> :: (peer_remote_memory_region, unit) outcome)"
    using prmr_struct_array_field_unchecked_eq [OF f [unfolded r_def]] n(6) by simp
  show ?thesis
  proof (intro exI conjI)
    show "notify_wr oc bm peer =
           Ok \<lparr>pww_peer = peer,
               pww_wr = \<lparr>wrt_gather = [gather_new_unchecked (bm_mr bm) (out_epoch_slice bm peer)],
                         wrt_remote_mr = t, wrt_imm = None\<rparr>\<rparr>"
      using p n(3) pr by (simp add: notify_wr_def peer_write_new_def write_wr_new_def fits_i32_def)
    show "unat (rmr_addr t) = unat (rmr_addr r) + ?o" "rmr_rkey t = rmr_rkey r"
      using sub_region_values [OF s] uo by simp_all
    show l: "unat (rmr_length t) = flags_size * ?n - ?o"
      using sub_region_values [OF s] uo n(4) by simp
    show "8 \<le> unat (rmr_length t)" unfolding l using o by simp
  qed
qed

text \<open>The bytes the notification sends lie in the node's own region.\<close>

lemma out_epoch_slice_enclosed:
  assumes wf: "wf_barrier_mr bm" and p: "peer < length (bm_memory bm)"
  shows "encloses_slice (bm_mr bm) (out_epoch_slice bm peer) \<and>
         unat (sl_ptr (out_epoch_slice bm peer)) =
           unat (bm_addr bm) + (peer * flags_size + out_epoch_offset)"
proof -
  let ?n = "length (bm_memory bm)"
  have n: "mreg_address (bm_mr bm) = bm_addr bm" "unat (mreg_length (bm_mr bm)) = flags_size * ?n"
    "unat (bm_addr bm) + flags_size * ?n < 2 ^ 64"
    using wf by (simp_all add: wf_barrier_mr_def Let_def)
  have o: "peer * flags_size + out_epoch_offset + 8 \<le> flags_size * ?n"
    using p by (simp add: flags_size_def out_epoch_offset_def)
  have "unat (bm_addr bm + word_of_nat (peer * flags_size + out_epoch_offset)) =
          unat (bm_addr bm) + (peer * flags_size + out_epoch_offset)"
    using o n(3) by (intro unat_plus_of_nat) linarith
  with o n show ?thesis
    by (simp add: encloses_slice_def out_epoch_slice_def encloses_iff)
qed

text \<open>The cell a peer polls for this node is exactly the cell the notification writes.\<close>

lemma in_epoch_addr_value:
  assumes wf: "wf_barrier_mr bm" and p: "p < length (bm_memory bm)"
  shows "unat (in_epoch_addr bm p) = unat (bm_addr bm) + (p * flags_size + in_epoch_offset)"
proof -
  have "unat (bm_addr bm) + flags_size * length (bm_memory bm) < 2 ^ 64"
    using wf by (simp add: wf_barrier_mr_def Let_def)
  moreover have "p * flags_size + in_epoch_offset \<le> flags_size * length (bm_memory bm)"
    using p by (simp add: flags_size_def in_epoch_offset_def)
  ultimately show ?thesis
    unfolding in_epoch_addr_def by (intro unat_plus_of_nat) linarith
qed

lemma notify_reaches_polled_cell:
  assumes "wf_barrier_mr bm" "wf_barrier_mr bm'"
    and "bm_rank bm' < length (bm_memory bm)" "bm_rank bm < length (bm_memory bm')"
    and link: "rmr_addr (prmr_remote_mr (bm_remote_mrs bm ! bm_rank bm')) = bm_addr bm'"
    and wr: "notify_wr oc bm (bm_rank bm') = Ok wr"
  shows "rmr_addr (wrt_remote_mr (pww_wr wr)) = in_epoch_addr bm' (bm_rank bm) \<and>
         pww_peer wr = bm_rank bm'"
proof -
  from notify_wr_eq [OF assms(1,3)] obtain t where
    t: "notify_wr oc bm (bm_rank bm') =
           Ok \<lparr>pww_peer = bm_rank bm',
               pww_wr = \<lparr>wrt_gather =
                           [gather_new_unchecked (bm_mr bm) (out_epoch_slice bm (bm_rank bm'))],
                         wrt_remote_mr = t, wrt_imm = None\<rparr>\<rparr>"
    "unat (rmr_addr t) = unat (bm_addr bm') + (bm_rank bm * flags_size + in_epoch_offset)"
    using link by auto
  from t(2) in_epoch_addr_value [OF assms(2,4)] have "rmr_addr t = in_epoch_addr bm' (bm_rank bm)"
    by (simp add: word_unat_eq_iff)
  with t(1) wr show ?thesis by auto
qed

text \<open>Different senders write disjoint cells.\<close>

lemma in_epoch_cells_disjoint:
  assumes wf: "wf_barrier_mr bm" and "p < length (bm_memory bm)" "q < length (bm_memory bm)" "p \<noteq> q"
  shows "unat (in_epoch_addr bm p) + 8 \<le> unat (in_epoch_addr bm q) \<or>
         unat (in_epoch_addr bm q) + 8 \<le> unat (in_epoch_addr bm p)"
  using assms in_epoch_addr_value [OF wf]
  by (simp add: flags_size_def in_epoch_offset_def) linarith

section \<open>Counting epochs\<close>

fun notifications :: "nat \<Rightarrow> action \<Rightarrow> nat" where
  "notifications q (Notify p) = (if p = q then 1 else 0)"
| "notifications q (Scatter ps) = count_list ps q"
| "notifications q (Wait p) = 0"

fun waits :: "nat \<Rightarrow> action \<Rightarrow> nat" where
  "waits q (Notify p) = 0"
| "waits q (Scatter ps) = 0"
| "waits q (Wait p) = (if p = q then 1 else 0)"

text \<open>\<open>epochs_advance bm bm' f g\<close>: from \<open>bm\<close> to \<open>bm'\<close> only the counters changed, by \<open>f\<close> and \<open>g\<close>.\<close>

definition epochs_advance :: "barrier_mr \<Rightarrow> barrier_mr \<Rightarrow> (nat \<Rightarrow> nat) \<Rightarrow> (nat \<Rightarrow> nat) \<Rightarrow> bool" where
  "epochs_advance bm bm' f g \<longleftrightarrow>
     bm' = bm\<lparr>bm_memory := bm_memory bm'\<rparr> \<and> length (bm_memory bm') = length (bm_memory bm) \<and>
     (\<forall>q < length (bm_memory bm).
        out_epoch (bm_memory bm' ! q) = out_epoch (bm_memory bm ! q) + word_of_nat (f q) \<and>
        expected_in_epoch (bm_memory bm' ! q) =
          expected_in_epoch (bm_memory bm ! q) + word_of_nat (g q))"

lemma epochs_advance_refl: "epochs_advance bm bm (\<lambda>_. 0) (\<lambda>_. 0)"
  by (simp add: epochs_advance_def)

lemma epochs_advance_trans:
  assumes "epochs_advance a b f g" "epochs_advance b c f' g'"
  shows "epochs_advance a c (\<lambda>q. f q + f' q) (\<lambda>q. g q + g' q)"
proof -
  have "b = a\<lparr>bm_memory := bm_memory b\<rparr>" "c = b\<lparr>bm_memory := bm_memory c\<rparr>"
    using assms by (simp_all add: epochs_advance_def)
  then have "c = a\<lparr>bm_memory := bm_memory c\<rparr>"
    by (metis barrier_mr.surjective barrier_mr.update_convs(3))
  with assms show ?thesis by (simp add: epochs_advance_def algebra_simps)
qed

lemma flags_put_advances:
  assumes "p < length (bm_memory bm)"
  shows "epochs_advance bm
           (flags_put p ((bm_memory bm ! p)\<lparr>out_epoch := out_epoch (bm_memory bm ! p) + 1\<rparr>) bm)
           (\<lambda>q. if p = q then 1 else 0) (\<lambda>_. 0)"
    and "epochs_advance bm
           (flags_put p ((bm_memory bm ! p)\<lparr>expected_in_epoch :=
                            expected_in_epoch (bm_memory bm ! p) + 1\<rparr>) bm)
           (\<lambda>_. 0) (\<lambda>q. if p = q then 1 else 0)"
  using assms by (simp_all add: epochs_advance_def flags_put_def nth_list_update)

lemma plain_add_Ok: "plain_add oc a b = Ok n \<Longrightarrow> n = a + b"
  by (simp add: plain_add_def split: if_splits)

lemma increase_out_epoch_advances:
  assumes "increase_out_epoch oc p (bm, m, w) = (Ok u, (bm', m', w'))"
  shows "epochs_advance bm bm' (\<lambda>q. if p = q then 1 else 0) (\<lambda>_. 0) \<and> m' = m \<and> w' = w"
proof (cases "p < length (bm_memory bm)")
  case True
  let ?a = "plain_add oc (out_epoch (bm_memory bm ! p)) 1 :: (u64, barrier_error) outcome"
  have step: "increase_out_epoch oc p (bm, m, w) =
      (case map_ok (\<lambda>n. (bm_memory bm ! p)\<lparr>out_epoch := n\<rparr>) ?a of
         Ok f \<Rightarrow> (Ok (), (flags_put p f bm, m, w))
       | Err e \<Rightarrow> (Err e, (bm, m, w)) | Panic \<Rightarrow> (Panic, (bm, m, w)) | NoFuel \<Rightarrow> (NoFuel, (bm, m, w)))"
    using True by (simp add: increase_out_epoch_def flags_at_def)
  show ?thesis
  proof (cases ?a)
    case (Ok n)
    note sum = plain_add_Ok [OF Ok]
    from assms have "bm' = flags_put p ((bm_memory bm ! p)\<lparr>out_epoch := n\<rparr>) bm" "m' = m" "w' = w"
      unfolding step Ok by simp_all
    then show ?thesis unfolding sum using flags_put_advances(1) [OF True] by simp
  next
    case (Err e)
    from assms show ?thesis unfolding step Err by simp
  next
    case Panic
    from assms show ?thesis unfolding step Panic by simp
  next
    case NoFuel
    from assms show ?thesis unfolding step NoFuel by simp
  qed
next
  case False
  with assms show ?thesis by (simp add: increase_out_epoch_def flags_at_def)
qed

lemma increase_expected_advances:
  assumes "increase_peer_expected_epoch oc p (bm, m, w) = (Ok u, (bm', m', w'))"
  shows "epochs_advance bm bm' (\<lambda>_. 0) (\<lambda>q. if p = q then 1 else 0) \<and> m' = m \<and> w' = w"
proof (cases "p < length (bm_memory bm)")
  case True
  let ?a = "plain_add oc (expected_in_epoch (bm_memory bm ! p)) 1 :: (u64, barrier_error) outcome"
  have step: "increase_peer_expected_epoch oc p (bm, m, w) =
      (case map_ok (\<lambda>n. (bm_memory bm ! p)\<lparr>expected_in_epoch := n\<rparr>) ?a of
         Ok f \<Rightarrow> (Ok (), (flags_put p f bm, m, w))
       | Err e \<Rightarrow> (Err e, (bm, m, w)) | Panic \<Rightarrow> (Panic, (bm, m, w)) | NoFuel \<Rightarrow> (NoFuel, (bm, m, w)))"
    using True by (simp add: increase_peer_expected_epoch_def flags_at_def)
  show ?thesis
  proof (cases ?a)
    case (Ok n)
    note sum = plain_add_Ok [OF Ok]
    from assms have "bm' = flags_put p ((bm_memory bm ! p)\<lparr>expected_in_epoch := n\<rparr>) bm"
      "m' = m" "w' = w"
      unfolding step Ok by simp_all
    then show ?thesis unfolding sum using flags_put_advances(2) [OF True] by simp
  next
    case (Err e)
    from assms show ?thesis unfolding step Err by simp
  next
    case Panic
    from assms show ?thesis unfolding step Panic by simp
  next
    case NoFuel
    from assms show ?thesis unfolding step NoFuel by simp
  qed
next
  case False
  with assms show ?thesis by (simp add: increase_peer_expected_epoch_def flags_at_def)
qed

text \<open>Neither the busy wait nor the RDMA operation touches the local counters.\<close>

lemma is_peer_epoch_expected_frame:
  "is_peer_epoch_expected v p s = (r, s') \<Longrightarrow> fst s' = fst s \<and> fst (snd s') = fst (snd s)"
  by (cases s) (auto simp: is_peer_epoch_expected_def split: outcome.splits prod.splits)

lemma instant_now_frame:
  "instant_now v s = (r, s') \<Longrightarrow> fst s' = fst s \<and> fst (snd s') = fst (snd s) \<and> is_ok r"
  by (cases s) (auto simp: instant_now_def split: prod.splits)

lemma spin_epoch_loop_frame:
  "spin_epoch_loop fuel v iter p start timeout s = (r, s') \<Longrightarrow> fst s' = fst s"
proof (induction fuel arbitrary: iter s)
  case 0
  then show ?case by simp
next
  case (Suc fuel)
  obtain x s1 where x: "is_peer_epoch_expected v p s = (x, s1)" by (metis prod.exhaust)
  obtain y s2 where y: "instant_now v s1 = (y, s2)" by (metis prod.exhaust)
  note f = is_peer_epoch_expected_frame [OF x] instant_now_frame [OF y]
  show ?case
  proof (cases x)
    case (Ok e)
    with Suc.prems x y f show ?thesis
      by (cases y)
        (auto simp: bind_s_def ret_s_def lift_s_def split: if_splits dest: Suc.IH)
  qed (use Suc.prems x f in \<open>auto simp: bind_s_def\<close>)
qed

lemma on_channels_frame: "on_channels op (bm, s) = (r, (bm', s')) \<Longrightarrow> bm' = bm"
  by (cases s) (auto simp: on_channels_def split: prod.splits)

lemma wait_peer_advances:
  assumes "wait_peer fuel v oc start timeout p (bm, s) = (Ok u, (bm', s'))"
  shows "epochs_advance bm bm' (\<lambda>_. 0) (\<lambda>q. if p = q then 1 else 0)"
proof -
  obtain bm1 m1 w1 where
    1: "increase_peer_expected_epoch oc p (bm, s) = (Ok (), (bm1, m1, w1))" and
    2: "spin_epoch_loop fuel v 0 p start timeout (bm1, m1, w1) = (Ok u, (bm', s'))"
    using assms by (auto simp: wait_peer_def bind_s_eq_Ok spin_poll_peer_epoch_expected_def)
  obtain m w where s: "s = (m, w)" by (cases s)
  from spin_epoch_loop_frame [OF 2] increase_expected_advances [OF 1 [unfolded s]]
  show ?thesis by simp
qed

lemma notify_peer_advances:
  assumes "notify_peer fuel v oc p (bm, s) = (Ok u, (bm', s'))"
  shows "epochs_advance bm bm' (\<lambda>q. if p = q then 1 else 0) (\<lambda>_. 0)"
proof -
  obtain m w where s: "s = (m, w)" by (cases s)
  obtain bm1 m1 w1 where
    1: "increase_out_epoch oc p (bm, s) = (Ok (), (bm1, m1, w1))" and
    2: "(case notify_wr oc bm1 p of
           Ok wr \<Rightarrow> on_channels (mc_write fuel v oc wr) (bm1, m1, w1)
         | _ \<Rightarrow> (Panic, (bm1, m1, w1))) = (Ok u, (bm', s'))"
    using assms by (auto simp: notify_peer_def bind_s_eq_Ok)
  from 2 have "bm' = bm1"
    by (auto split: outcome.splits dest: on_channels_frame)
  with increase_out_epoch_advances [OF 1 [unfolded s]] show ?thesis by simp
qed

lemma increase_all_advances:
  "for_s (increase_out_epoch oc) ps (bm, m, w) = (Ok u, (bm', m', w')) \<Longrightarrow>
     epochs_advance bm bm' (\<lambda>q. count_list ps q) (\<lambda>_. 0)"
proof (induction ps arbitrary: bm m w)
  case Nil
  then show ?case by (simp add: ret_s_def epochs_advance_refl)
next
  case (Cons p ps)
  from Cons.prems obtain bm1 m1 w1 where
    1: "increase_out_epoch oc p (bm, m, w) = (Ok (), (bm1, m1, w1))" and
    2: "for_s (increase_out_epoch oc) ps (bm1, m1, w1) = (Ok u, (bm', m', w'))"
    by (auto simp: bind_s_eq_Ok)
  have "(\<lambda>q. (if p = q then 1 else 0) + count_list ps q) = (\<lambda>q. count_list (p # ps) q)"
    by (rule ext) simp
  with epochs_advance_trans [OF increase_out_epoch_advances [OF 1, THEN conjunct1] Cons.IH [OF 2]]
  show ?case by simp
qed

lemma scatter_notify_advances:
  assumes "scatter_notify_peers fuel v oc ps (bm, s) = (Ok u, (bm', s'))"
  shows "epochs_advance bm bm' (\<lambda>q. count_list ps q) (\<lambda>_. 0)"
proof -
  obtain m w where s: "s = (m, w)" by (cases s)
  obtain bm1 m1 w1 where
    1: "for_s (increase_out_epoch oc) ps (bm, s) = (Ok (), (bm1, m1, w1))" and
    2: "(case collect_outcome (notify_wr oc bm1) ps of
           Ok wrs \<Rightarrow> on_channels (scatter_write fuel v oc wrs) (bm1, m1, w1)
         | _ \<Rightarrow> (Panic, (bm1, m1, w1))) = (Ok u, (bm', s'))"
    using assms by (auto simp: scatter_notify_peers_def bind_s_eq_Ok)
  from 2 have "bm' = bm1"
    by (auto split: outcome.splits dest: on_channels_frame)
  with increase_all_advances [OF 1 [unfolded s]] show ?thesis by simp
qed

lemma run_action_advances:
  "run_action fuel v oc start timeout a (bm, s) = (Ok u, (bm', s')) \<Longrightarrow>
     epochs_advance bm bm' (\<lambda>q. notifications q a) (\<lambda>q. waits q a)"
  by (cases a) (auto dest: notify_peer_advances scatter_notify_advances wait_peer_advances)

lemma run_actions_advance:
  "for_s (run_action fuel v oc start timeout) acts (bm, s) = (Ok u, (bm', s')) \<Longrightarrow>
     epochs_advance bm bm' (\<lambda>q. sum_list (map (notifications q) acts))
       (\<lambda>q. sum_list (map (waits q) acts))"
proof (induction acts arbitrary: bm s)
  case Nil
  then show ?case by (simp add: ret_s_def epochs_advance_refl)
next
  case (Cons a acts)
  from Cons.prems obtain bm1 s1 where
    1: "run_action fuel v oc start timeout a (bm, s) = (Ok (), (bm1, s1))" and
    2: "for_s (run_action fuel v oc start timeout) acts (bm1, s1) = (Ok u, (bm', s'))"
    by (auto simp: bind_s_eq_Ok)
  from epochs_advance_trans [OF run_action_advances [OF 1] Cons.IH [OF 2]] show ?case by simp
qed

section \<open>A wait ends\<close>

text \<open>
  The device clock \<open>c\<close>: \<open>v_now\<close> reads it, it never goes back, and a volatile read takes time.
\<close>

definition clock_runs :: "'h verbs \<Rightarrow> ('h \<Rightarrow> nat) \<Rightarrow> bool" where
  "clock_runs v c \<longleftrightarrow>
     (\<forall>h. fst (v_now v h) = c h \<and> c h \<le> c (snd (v_now v h))) \<and>
     (\<forall>a h. c h < c (snd (v_volatile_u64 v a h)))"

lemma is_peer_epoch_expected_clock:
  assumes "clock_runs v c" "is_peer_epoch_expected v p s = (Ok e, s')"
  shows "c (w_hw (snd (snd s))) < c (w_hw (snd (snd s')))"
proof -
  obtain bm m w where s: "s = (bm, m, w)" by (metis prod.exhaust)
  obtain x h where x: "v_volatile_u64 v (in_epoch_addr bm p) (w_hw w) = (x, h)"
    by (metis prod.exhaust)
  have "c (w_hw w) < c (snd (v_volatile_u64 v (in_epoch_addr bm p) (w_hw w)))"
    using assms(1) unfolding clock_runs_def by blast
  with assms(2) x show ?thesis
    by (auto simp: is_peer_epoch_expected_def s split: outcome.splits)
qed

lemma instant_now_clock:
  assumes "clock_runs v c" "instant_now v s = (Ok t, s')"
  shows "t = c (w_hw (snd (snd s))) \<and> t \<le> c (w_hw (snd (snd s')))"
proof -
  obtain bm m w where s: "s = (bm, m, w)" by (metis prod.exhaust)
  have "fst (v_now v (w_hw w)) = c (w_hw w) \<and> c (w_hw w) \<le> c (snd (v_now v (w_hw w)))"
    using assms(1) unfolding clock_runs_def by blast
  with assms(2) show ?thesis by (auto simp: instant_now_def s split: prod.splits)
qed

text \<open>
  The fuel that is enough: one unit for every nanosecond that remains, then one period of the
  timeout check.
\<close>

definition wait_fuel :: "nat \<Rightarrow> nat \<Rightarrow> nat" where
  "wait_fuel remaining iter =
     (if remaining = 0 then timeout_check_iters - iter else remaining + timeout_check_iters)"

lemma spin_epoch_loop_ends:
  assumes "clock_runs v c"
  shows "iter < timeout_check_iters \<Longrightarrow>
     wait_fuel (Suc timeout - (c (w_hw (snd (snd s))) - start)) iter < fuel \<Longrightarrow>
     start \<le> c (w_hw (snd (snd s))) \<Longrightarrow>
     fst (spin_epoch_loop fuel v iter p start timeout s) \<noteq> NoFuel"
proof (induction fuel arbitrary: iter s)
  case 0
  then show ?case by simp
next
  case (Suc fuel)
  obtain x s1 where x: "is_peer_epoch_expected v p s = (x, s1)" by (metis prod.exhaust)
  have nf: "x \<noteq> NoFuel"
    using x by (cases s) (auto simp: is_peer_epoch_expected_def flags_at_def
        split: if_splits prod.splits)
  show ?case
  proof (cases x)
    case (Ok e)
    let ?c0 = "c (w_hw (snd (snd s)))" and ?c1 = "c (w_hw (snd (snd s1)))"
    have c1: "?c0 < ?c1" using is_peer_epoch_expected_clock [OF assms] x Ok by simp
    obtain y s2 where y: "instant_now v s1 = (y, s2)" by (metis prod.exhaust)
    obtain t where t: "y = Ok t" using instant_now_frame [OF y] by (auto simp: is_ok_iff)
    have c2: "t = ?c1" "?c1 \<le> c (w_hw (snd (snd s2)))"
      using instant_now_clock [OF assms] y t by auto
    let ?c2 = "c (w_hw (snd (snd s2)))"
    have base: "Suc timeout - (?c2 - start) < Suc timeout - (?c0 - start) \<or>
        Suc timeout - (?c2 - start) = 0" using c1 c2 Suc.prems(3) by linarith
    have base1: "Suc timeout - (?c1 - start) < Suc timeout - (?c0 - start) \<or>
        Suc timeout - (?c1 - start) = 0 \<and> Suc timeout - (?c0 - start) = 0"
      using c1 Suc.prems(3) by linarith
    have tci: "0 < timeout_check_iters" by (simp add: timeout_check_iters_def)
    consider (fin) "e" | (check) "\<not> e" "Suc iter \<ge> timeout_check_iters"
      | (more) "\<not> e" "Suc iter < timeout_check_iters" by linarith
    then show ?thesis
    proof cases
      case fin
      then show ?thesis using x Ok by (simp add: bind_s_def ret_s_def)
    next
      case check
      show ?thesis
      proof (cases "t - start > timeout")
        case True
        with check x Ok y t show ?thesis by (simp add: bind_s_def lift_s_def)
      next
        case False
        then have "Suc timeout - (?c0 - start) \<noteq> 0" using c1 c2 by linarith
        then have "wait_fuel (Suc timeout - (?c2 - start)) 0 < fuel"
          using Suc.prems(2) base tci by (auto simp: wait_fuel_def split: if_splits)
        with Suc.IH [of 0 s2] c1 c2 Suc.prems(3) tci False check x Ok y t show ?thesis
          by (simp add: bind_s_def)
      qed
    next
      case more
      then have "wait_fuel (Suc timeout - (?c1 - start)) (Suc iter) < fuel"
        using Suc.prems(2) base1 by (auto simp: wait_fuel_def split: if_splits)
      with Suc.IH [of "Suc iter" s1] c1 Suc.prems(3) more x Ok show ?thesis
        by (simp add: bind_s_def)
    qed
  qed (use x nf in \<open>auto simp: bind_s_def\<close>)
qed

end
