(* ===== verification/Barrier_Global.thy ===== *)
theory Barrier_Global
  imports Barrier_Lemmas
begin

text \<open>
  The barrier as the nodes run it together.  Every node executes the barrier calls of its groups in
  one common order; inside a call it performs the actions of its algorithm
  (\<open>Barrier_Topology\<close>).  The network is asynchronous: a node steps when it can, a posted write is
  delivered at any later time, and a node may stop for good (a timeout or a transport error).

  The locale \<open>barrier_protocol\<close> states what an algorithm has to provide, and proves from it that no
  node leaves a barrier before all members have entered it, and that without failures the
  nodes never get stuck.  Every algorithm of the code interprets it in \<open>Barrier_Protocols\<close>.
\<close>

section \<open>The distributed system\<close>

text \<open>
  A node is between calls (\<open>Idle\<close>), between two actions of a call (\<open>Ready\<close>), in a busy wait
  (\<open>Waiting\<close>), or in a blocking write whose notifications to the given peers are not yet
  delivered (\<open>Sending\<close>).  \<open>nd_bar\<close> counts the calls behind it, \<open>nd_k\<close> the actions done in the current
  one.
\<close>

datatype stage = Idle | Ready | Waiting | Sending "nat list"

record gnode =
  nd_bar :: nat
  nd_k :: nat
  nd_stage :: stage
  nd_failed :: bool

text \<open>
  The epochs are the fields of \<open>BarrierPeerFlags\<close>: \<open>gs_exp i j\<close>, \<open>gs_out i j\<close> and \<open>gs_cell i j\<close> are the
  expected, outgoing and incoming epoch for peer \<open>j\<close> in the memory of node \<open>i\<close>.
\<close>

record gstate =
  gs_node :: "nat \<Rightarrow> gnode"
  gs_exp :: "nat \<Rightarrow> nat \<Rightarrow> u64"
  gs_out :: "nat \<Rightarrow> nat \<Rightarrow> u64"
  gs_cell :: "nat \<Rightarrow> nat \<Rightarrow> u64"

fun targets :: "action \<Rightarrow> nat list" where
  "targets (Notify p) = [p]"
| "targets (Scatter ps) = ps"
| "targets (Wait p) = []"

text \<open>The actions of node \<open>i\<close> in the call of number \<open>t\<close>.\<close>

definition program ::
  "(nat list \<Rightarrow> nat \<Rightarrow> action list) \<Rightarrow> nat list list \<Rightarrow> nat \<Rightarrow> nat \<Rightarrow> action list" where
  "program acts groups t i =
     (if t < length groups \<and> i \<in> set (groups ! t) then acts (groups ! t) i else [])"

definition gs_init :: gstate where
  "gs_init = \<lparr>gs_node = (\<lambda>_. \<lparr>nd_bar = 0, nd_k = 0, nd_stage = Idle, nd_failed = False\<rparr>),
              gs_exp = (\<lambda>_ _. 0), gs_out = (\<lambda>_ _. 0), gs_cell = (\<lambda>_ _. 0)\<rparr>"

definition put_node :: "nat \<Rightarrow> gnode \<Rightarrow> gstate \<Rightarrow> gstate" where
  "put_node i n s = s\<lparr>gs_node := (gs_node s)(i := n)\<rparr>"

abbreviation prog_of where
  "prog_of acts groups s i \<equiv> program acts groups (nd_bar (gs_node s i)) i"

inductive gstep ::
  "(nat list \<Rightarrow> nat \<Rightarrow> action list) \<Rightarrow> nat list list \<Rightarrow> nat \<Rightarrow> gstate \<Rightarrow> gstate \<Rightarrow> bool"
  for acts groups world where
  call: "i < world \<Longrightarrow> n = gs_node s i \<Longrightarrow> \<not> nd_failed n \<Longrightarrow> nd_stage n = Idle \<Longrightarrow>
     nd_bar n < length groups \<Longrightarrow> i \<in> set (groups ! nd_bar n) \<Longrightarrow>
     gstep acts groups world s (put_node i (n\<lparr>nd_stage := Ready\<rparr>) s)"
| skip: "i < world \<Longrightarrow> n = gs_node s i \<Longrightarrow> \<not> nd_failed n \<Longrightarrow> nd_stage n = Idle \<Longrightarrow>
     nd_bar n < length groups \<Longrightarrow> i \<notin> set (groups ! nd_bar n) \<Longrightarrow>
     gstep acts groups world s (put_node i (n\<lparr>nd_bar := Suc (nd_bar n)\<rparr>) s)"
| begin_wait: "i < world \<Longrightarrow> n = gs_node s i \<Longrightarrow> \<not> nd_failed n \<Longrightarrow> nd_stage n = Ready \<Longrightarrow>
     nd_k n < length (prog_of acts groups s i) \<Longrightarrow> prog_of acts groups s i ! nd_k n = Wait j \<Longrightarrow>
     gstep acts groups world s
       ((put_node i (n\<lparr>nd_stage := Waiting\<rparr>) s)
          \<lparr>gs_exp := (gs_exp s)(i := (gs_exp s i)(j := gs_exp s i j + 1))\<rparr>)"
| end_wait: "i < world \<Longrightarrow> n = gs_node s i \<Longrightarrow> \<not> nd_failed n \<Longrightarrow> nd_stage n = Waiting \<Longrightarrow>
     prog_of acts groups s i ! nd_k n = Wait j \<Longrightarrow> gs_cell s i j \<ge> gs_exp s i j \<Longrightarrow>
     gstep acts groups world s (put_node i (n\<lparr>nd_stage := Ready, nd_k := Suc (nd_k n)\<rparr>) s)"
| begin_send: "i < world \<Longrightarrow> n = gs_node s i \<Longrightarrow> \<not> nd_failed n \<Longrightarrow> nd_stage n = Ready \<Longrightarrow>
     nd_k n < length (prog_of acts groups s i) \<Longrightarrow> a = prog_of acts groups s i ! nd_k n \<Longrightarrow>
     (\<forall>j. a \<noteq> Wait j) \<Longrightarrow>
     gstep acts groups world s
       ((put_node i (n\<lparr>nd_stage := Sending (targets a)\<rparr>) s)
          \<lparr>gs_out := (gs_out s)
             (i := (\<lambda>j. gs_out s i j + word_of_nat (count_list (targets a) j)))\<rparr>)"
| deliver: "i < world \<Longrightarrow> n = gs_node s i \<Longrightarrow> nd_stage n = Sending ps \<Longrightarrow> j \<in> set ps \<Longrightarrow>
     gstep acts groups world s
       ((put_node i (n\<lparr>nd_stage := Sending (remove1 j ps)\<rparr>) s)
          \<lparr>gs_cell := (gs_cell s)(j := (gs_cell s j)(i := gs_out s i j))\<rparr>)"
| end_send: "i < world \<Longrightarrow> n = gs_node s i \<Longrightarrow> \<not> nd_failed n \<Longrightarrow> nd_stage n = Sending [] \<Longrightarrow>
     gstep acts groups world s (put_node i (n\<lparr>nd_stage := Ready, nd_k := Suc (nd_k n)\<rparr>) s)"
| return: "i < world \<Longrightarrow> n = gs_node s i \<Longrightarrow> \<not> nd_failed n \<Longrightarrow> nd_stage n = Ready \<Longrightarrow>
     nd_k n = length (prog_of acts groups s i) \<Longrightarrow>
     gstep acts groups world s
       (put_node i (n\<lparr>nd_bar := Suc (nd_bar n), nd_k := 0, nd_stage := Idle\<rparr>) s)"

text \<open>A node stops: a timeout, a transport error, or a crash at any moment.\<close>

inductive gfail :: "gstate \<Rightarrow> gstate \<Rightarrow> bool" where
  stop: "n = gs_node s i \<Longrightarrow> gfail s (put_node i (n\<lparr>nd_failed := True\<rparr>) s)"

inductive greach ::
  "(nat list \<Rightarrow> nat \<Rightarrow> action list) \<Rightarrow> nat list list \<Rightarrow> nat \<Rightarrow> gstate \<Rightarrow> bool"
  for acts groups world where
  init: "greach acts groups world gs_init"
| step: "greach acts groups world s \<Longrightarrow> gstep acts groups world s s' \<Longrightarrow> greach acts groups world s'"
| fail: "greach acts groups world s \<Longrightarrow> gfail s s' \<Longrightarrow> greach acts groups world s'"

inductive_cases gfailE: "gfail s s'"

text \<open>What the property speaks about: a node has called barrier \<open>m\<close>, and has returned from it.\<close>

definition has_entered :: "gstate \<Rightarrow> nat \<Rightarrow> nat \<Rightarrow> bool" where
  "has_entered s m i \<longleftrightarrow>
     m < nd_bar (gs_node s i) \<or> m = nd_bar (gs_node s i) \<and> nd_stage (gs_node s i) \<noteq> Idle"

definition has_left :: "gstate \<Rightarrow> nat \<Rightarrow> nat \<Rightarrow> bool" where
  "has_left s m i \<longleftrightarrow> m < nd_bar (gs_node s i)"

section \<open>What an algorithm knows\<close>

text \<open>
  \<open>knows f i k x\<close>: node \<open>i\<close>, after its first \<open>k\<close> actions, can only be there if \<open>x\<close> has entered, because
  it waited for a node that notifies it after knowing that.  \<open>f\<close> gives the actions of each node.
\<close>

inductive knows :: "(nat \<Rightarrow> action list) \<Rightarrow> nat \<Rightarrow> nat \<Rightarrow> nat \<Rightarrow> bool" for f where
  self: "knows f i k i"
| hear: "l < k \<Longrightarrow> l < length (f i) \<Longrightarrow> f i ! l = Wait j \<Longrightarrow> l' < length (f j) \<Longrightarrow>
     i \<in> set (targets (f j ! l')) \<Longrightarrow> knows f j l' x \<Longrightarrow> knows f i k x"

lemma knows_mono: "knows f i k x \<Longrightarrow> k \<le> k' \<Longrightarrow> knows f i k' x"
proof (induction arbitrary: k' rule: knows.induct)
  case (self i k)
  show ?case by (rule knows.self)
next
  case (hear l k i j l' x)
  then show ?case by (intro knows.hear [of l k' f i j l' x]) auto
qed

section \<open>Counting\<close>

lemma notifications_targets: "notifications q a = count_list (targets a) q"
  by (cases a) auto

definition sent_in :: "action list \<Rightarrow> nat \<Rightarrow> nat \<Rightarrow> nat" where
  "sent_in p k q = sum_list (map (notifications q) (take k p))"

definition waited_in :: "action list \<Rightarrow> nat \<Rightarrow> nat \<Rightarrow> nat" where
  "waited_in p k q = sum_list (map (waits q) (take k p))"

lemma sent_in_simps [simp]: "sent_in p 0 q = 0" "sent_in [] k q = 0"
  "k < length p \<Longrightarrow> sent_in p (Suc k) q = sent_in p k q + notifications q (p ! k)"
  by (simp_all add: sent_in_def take_Suc_conv_app_nth)

lemma waited_in_simps [simp]: "waited_in p 0 q = 0" "waited_in [] k q = 0"
  "k < length p \<Longrightarrow> waited_in p (Suc k) q = waited_in p k q + waits q (p ! k)"
  by (simp_all add: waited_in_def take_Suc_conv_app_nth)

lemma sent_in_mono: "k \<le> k' \<Longrightarrow> sent_in p k q \<le> sent_in p k' q"
  by (metis le_add1 le_add_diff_inverse map_append sent_in_def sum_list_append take_add)

lemma waited_in_mono: "k \<le> k' \<Longrightarrow> waited_in p k q \<le> waited_in p k' q"
  by (metis le_add1 le_add_diff_inverse map_append waited_in_def sum_list_append take_add)

lemma sent_in_full: "length p \<le> k \<Longrightarrow> sent_in p k q = sent_in p (length p) q"
  by (simp add: sent_in_def)

lemma waited_in_full: "length p \<le> k \<Longrightarrow> waited_in p k q = waited_in p (length p) q"
  by (simp add: waited_in_def)

lemma sent_in_zero:
  "(\<forall>l < k. l < length p \<longrightarrow> q \<notin> set (targets (p ! l))) \<Longrightarrow> sent_in p k q = 0"
proof (induction k)
  case 0
  then show ?case by simp
next
  case (Suc k)
  then show ?case
    by (cases "k < length p")
      (simp_all add: notifications_targets count_list_0_iff sent_in_full [of p k]
        sent_in_full [of p "Suc k"])
qed

text \<open>How many notifications a node has issued, has not yet delivered, and how many waits it began.\<close>

type_synonym programs = "nat \<Rightarrow> nat \<Rightarrow> action list"

definition full_sent :: "programs \<Rightarrow> nat \<Rightarrow> nat \<Rightarrow> nat \<Rightarrow> nat" where
  "full_sent P j i t = sent_in (P t j) (length (P t j)) i"

definition full_waited :: "programs \<Rightarrow> nat \<Rightarrow> nat \<Rightarrow> nat \<Rightarrow> nat" where
  "full_waited P i j t = waited_in (P t i) (length (P t i)) j"

definition issued :: "programs \<Rightarrow> gnode \<Rightarrow> nat \<Rightarrow> nat \<Rightarrow> nat" where
  "issued P n j i =
     (\<Sum>t < nd_bar n. full_sent P j i t) + sent_in (P (nd_bar n) j) (nd_k n) i +
     (case nd_stage n of Sending _ \<Rightarrow> notifications i (P (nd_bar n) j ! nd_k n) | _ \<Rightarrow> 0)"

definition pending :: "gnode \<Rightarrow> nat \<Rightarrow> nat" where
  "pending n i = (case nd_stage n of Sending ps \<Rightarrow> count_list ps i | _ \<Rightarrow> 0)"

definition begun_waits :: "programs \<Rightarrow> gnode \<Rightarrow> nat \<Rightarrow> nat \<Rightarrow> nat" where
  "begun_waits P n i j =
     (\<Sum>t < nd_bar n. full_waited P i j t) + waited_in (P (nd_bar n) i) (nd_k n) j +
     (case nd_stage n of Waiting \<Rightarrow> waits j (P (nd_bar n) i ! nd_k n) | _ \<Rightarrow> 0)"

text \<open>The shape of a node's record.\<close>

definition node_ok :: "programs \<Rightarrow> nat \<Rightarrow> nat \<Rightarrow> gnode \<Rightarrow> bool" where
  "node_ok P calls i n \<longleftrightarrow>
     nd_bar n \<le> calls \<and> nd_k n \<le> length (P (nd_bar n) i) \<and>
     (case nd_stage n of
        Idle \<Rightarrow> nd_k n = 0
      | Ready \<Rightarrow> nd_bar n < calls
      | Waiting \<Rightarrow> nd_k n < length (P (nd_bar n) i) \<and> (\<exists>j. P (nd_bar n) i ! nd_k n = Wait j)
      | Sending ps \<Rightarrow>
          nd_k n < length (P (nd_bar n) i) \<and> distinct ps \<and>
          set ps \<subseteq> set (targets (P (nd_bar n) i ! nd_k n)) \<and>
          (\<forall>j. P (nd_bar n) i ! nd_k n \<noteq> Wait j))"

definition passed :: "gnode \<Rightarrow> nat \<Rightarrow> nat \<Rightarrow> bool" where
  "passed n t l \<longleftrightarrow> t < nd_bar n \<or> t = nd_bar n \<and> l < nd_k n"

definition begun :: "gnode \<Rightarrow> nat \<Rightarrow> nat \<Rightarrow> bool" where
  "begun n t l \<longleftrightarrow>
     passed n t l \<or> t = nd_bar n \<and> l = nd_k n \<and> (\<exists>ps. nd_stage n = Sending ps)"

text \<open>Everyone a node heard from had begun the notification it waited for.\<close>

definition heard :: "programs \<Rightarrow> gstate \<Rightarrow> bool" where
  "heard P s \<longleftrightarrow>
     (\<forall>i j t l. passed (gs_node s i) t l \<longrightarrow> l < length (P t i) \<longrightarrow> P t i ! l = Wait j \<longrightarrow>
        (\<exists>l' < length (P t j). i \<in> set (targets (P t j ! l')) \<and> begun (gs_node s j) t l'))"

definition counters :: "programs \<Rightarrow> gstate \<Rightarrow> bool" where
  "counters P s \<longleftrightarrow>
     (\<forall>i j. gs_out s j i = word_of_nat (issued P (gs_node s j) j i) \<and>
            gs_cell s i j =
              word_of_nat (issued P (gs_node s j) j i - pending (gs_node s j) i) \<and>
            gs_exp s i j = word_of_nat (begun_waits P (gs_node s i) i j))"

text \<open>What the counting needs of the programs: at most one message each way, and matched waits.\<close>

definition programs_ok :: "programs \<Rightarrow> nat \<Rightarrow> bool" where
  "programs_ok P calls \<longleftrightarrow>
     (\<forall>t i j. full_sent P j i t \<le> (if t < calls then 1 else 0) \<and>
              full_waited P i j t = full_sent P j i t)"

lemma count_list_distinct: "distinct ps \<Longrightarrow> count_list ps i = (if i \<in> set ps then 1 else 0)"
  by (induction ps) auto

lemma count_list_pos: "i \<in> set ps \<Longrightarrow> 1 \<le> count_list ps i"
  by (induction ps) auto

lemma full_sent_le:
  assumes "programs_ok P calls"
  shows "full_sent P j i t \<le> (if t < calls then 1 else 0)"
  using assms unfolding programs_ok_def by blast

lemma full_sent_le_1: "programs_ok P calls \<Longrightarrow> full_sent P j i t \<le> 1"
  using full_sent_le [of P calls j i t] by (simp split: if_splits)

lemma pending_le_issued:
  assumes "node_ok P calls j n"
  shows "pending n i \<le> notifications i (P (nd_bar n) j ! nd_k n) \<and> pending n i \<le> issued P n j i"
proof (cases "nd_stage n")
  case (Sending ps)
  have "count_list ps i \<le> count_list (targets (P (nd_bar n) j ! nd_k n)) i"
  proof (cases "i \<in> set ps")
    case True
    with assms Sending have "count_list ps i = 1" "i \<in> set (targets (P (nd_bar n) j ! nd_k n))"
      by (auto simp: node_ok_def count_list_distinct)
    then show ?thesis using count_list_pos by fastforce
  qed simp
  with Sending show ?thesis by (simp add: pending_def issued_def notifications_targets)
qed (simp_all add: pending_def)

lemma issued_le:
  assumes "node_ok P calls j n"
  shows "issued P n j i \<le> (\<Sum>t < Suc (nd_bar n). full_sent P j i t)"
proof -
  let ?p = "P (nd_bar n) j"
  have "sent_in ?p (nd_k n) i +
      (case nd_stage n of Sending _ \<Rightarrow> notifications i (?p ! nd_k n) | _ \<Rightarrow> 0) \<le> sent_in ?p (length ?p) i"
  proof (cases "nd_stage n")
    case (Sending ps)
    with assms have "nd_k n < length ?p" by (simp add: node_ok_def)
    with sent_in_mono [of "Suc (nd_k n)" "length ?p" ?p i] Sending show ?thesis by simp
  qed (use assms sent_in_mono [of "nd_k n" "length ?p" ?p i] in \<open>simp_all add: node_ok_def\<close>)
  then show ?thesis by (simp add: issued_def full_sent_def)
qed

lemma begun_waits_le:
  assumes "node_ok P calls i n"
  shows "begun_waits P n i j \<le> (\<Sum>t < Suc (nd_bar n). full_waited P i j t)"
proof -
  let ?p = "P (nd_bar n) i"
  have "waited_in ?p (nd_k n) j +
      (case nd_stage n of Waiting \<Rightarrow> waits j (?p ! nd_k n) | _ \<Rightarrow> 0) \<le> waited_in ?p (length ?p) j"
  proof (cases "nd_stage n")
    case Waiting
    with assms have "nd_k n < length ?p" by (simp add: node_ok_def)
    with waited_in_mono [of "Suc (nd_k n)" "length ?p" ?p j] Waiting show ?thesis by simp
  qed (use assms waited_in_mono [of "nd_k n" "length ?p" ?p j] in \<open>simp_all add: node_ok_def\<close>)
  then show ?thesis by (simp add: begun_waits_def full_waited_def)
qed

lemma sum_full_sent_le:
  assumes "programs_ok P calls" "b \<le> calls"
  shows "(\<Sum>t < Suc b. full_sent P j i t) \<le> calls"
proof -
  have f: "full_sent P j i t \<le> (if t < calls then 1 else 0)" for t
    using assms(1) by (rule full_sent_le)
  have "(\<Sum>t < Suc b. full_sent P j i t) \<le> (\<Sum>t < Suc b. if t < calls then 1 else 0)"
    by (rule sum_mono) (rule f)
  also have "\<dots> \<le> (\<Sum>t < Suc calls. if t < calls then 1 else 0)"
    using assms(2) by (intro sum_mono2) auto
  also have "\<dots> = calls" by simp
  finally show ?thesis .
qed

lemma full_waited_eq: "programs_ok P calls \<Longrightarrow> full_waited P i j t = full_sent P j i t"
  unfolding programs_ok_def by blast

text \<open>
  The heart of the argument: if the count of notifications from \<open>j\<close> reaches the count of waits that \<open>i\<close>
  has begun, then \<open>j\<close> has begun the notification of this very call.
\<close>

lemma count_reached_begun:
  assumes ok: "programs_ok P calls"
    and ni: "node_ok P calls i n" "nd_stage n = Waiting" "P (nd_bar n) i ! nd_k n = Wait j"
    and nj: "node_ok P calls j m"
    and l': "l' < length (P (nd_bar n) j)" "i \<in> set (targets (P (nd_bar n) j ! l'))"
    and reached: "begun_waits P n i j \<le> issued P m j i"
  shows "begun m (nd_bar n) l'"
proof (rule ccontr)
  assume no: "\<not> begun m (nd_bar n) l'"
  let ?t = "nd_bar n" and ?p = "P (nd_bar n) j"
  have "(\<Sum>t < ?t. full_waited P i j t) < begun_waits P n i j"
    using ni by (simp add: begun_waits_def)
  then have lt: "(\<Sum>t < ?t. full_sent P j i t) < issued P m j i"
    using reached by (simp add: full_waited_eq [OF ok])
  from no have "nd_bar m \<le> ?t" by (auto simp: begun_def passed_def)
  then consider "nd_bar m < ?t" | "nd_bar m = ?t" by linarith
  then show False
  proof cases
    case 1
    then have "(\<Sum>t < Suc (nd_bar m). full_sent P j i t) \<le> (\<Sum>t < ?t. full_sent P j i t)"
      by (intro sum_mono2) auto
    with issued_le [OF nj, of i] lt show False by linarith
  next
    case 2
    from no 2 have pos: "nd_k m \<le> l'" "nd_k m = l' \<Longrightarrow> \<nexists>ps. nd_stage m = Sending ps"
      by (auto simp: begun_def passed_def)
    have "1 \<le> notifications i (?p ! l')"
      using count_list_pos [OF l'(2)] by (simp add: notifications_targets)
    moreover have "sent_in ?p (Suc l') i \<le> 1"
    proof -
      have "sent_in ?p (Suc l') i \<le> sent_in ?p (length ?p) i"
        using l'(1) by (intro sent_in_mono) simp
      also have "\<dots> \<le> 1" using full_sent_le_1 [OF ok, of j i ?t] by (simp add: full_sent_def)
      finally show ?thesis .
    qed
    ultimately have z: "sent_in ?p l' i = 0" using l'(1) by simp
    have "sent_in ?p (nd_k m) i +
        (case nd_stage m of Sending _ \<Rightarrow> notifications i (?p ! nd_k m) | _ \<Rightarrow> 0) = 0"
    proof (cases "nd_stage m")
      case (Sending ps)
      with pos have "Suc (nd_k m) \<le> l'" by fastforce
      with sent_in_mono [OF this, of ?p i] z l'(1) Sending show ?thesis by simp
    qed (use sent_in_mono [OF pos(1), of ?p i] z in simp_all)
    with lt 2 show False by (simp add: issued_def split: stage.splits)
  qed
qed

section \<open>The invariant\<close>

definition ginv :: "programs \<Rightarrow> nat \<Rightarrow> gstate \<Rightarrow> bool" where
  "ginv P calls s \<longleftrightarrow> counters P s \<and> heard P s \<and> (\<forall>i. node_ok P calls i (gs_node s i))"

lemma gs_node_put [simp]: "gs_node (put_node i n s) = (gs_node s)(i := n)"
  "gs_out (put_node i n s) = gs_out s" "gs_cell (put_node i n s) = gs_cell s"
  "gs_exp (put_node i n s) = gs_exp s"
  by (simp_all add: put_node_def)

lemma ginv_init: "ginv P calls gs_init"
  by (simp add: ginv_def counters_def heard_def node_ok_def gs_init_def issued_def pending_def
      begun_waits_def passed_def)

text \<open>A step that only replaces one node's record, as the counters see it.\<close>

lemma counters_put:
  assumes "counters P s"
    and "\<And>j. issued P n i j = issued P (gs_node s i) i j"
    and "\<And>j. pending n j = pending (gs_node s i) j"
    and "\<And>j. begun_waits P n i j = begun_waits P (gs_node s i) i j"
  shows "counters P (put_node i n s)"
  using assms by (simp add: counters_def)

text \<open>
  A step keeps \<open>heard\<close> when it forgets nothing that was begun and the action it newly passes, if any,
  is not a wait.
\<close>

lemma heard_put:
  assumes "heard P s" "gs_node s' = (gs_node s)(i := n)"
    and "\<And>t l. begun (gs_node s i) t l \<Longrightarrow> l < length (P t i) \<Longrightarrow> begun n t l"
    and "\<And>t l j. passed n t l \<Longrightarrow> l < length (P t i) \<Longrightarrow> P t i ! l = Wait j \<Longrightarrow>
           passed (gs_node s i) t l"
  shows "heard P s'"
  unfolding heard_def
proof (intro allI impI)
  fix i' j t l
  assume p: "passed (gs_node s' i') t l" "l < length (P t i')" "P t i' ! l = Wait j"
  have "passed (gs_node s i') t l"
    using p assms(2,4) by (cases "i' = i") auto
  with assms(1) p obtain l' where
    "l' < length (P t j)" "i' \<in> set (targets (P t j ! l'))" "begun (gs_node s j) t l'"
    unfolding heard_def by blast
  with assms(2,3) show "\<exists>l' < length (P t j). i' \<in> set (targets (P t j ! l')) \<and> begun (gs_node s' j) t l'"
    by (cases "j = i") auto
qed

lemma node_ok_put:
  "\<forall>i. node_ok P calls i (gs_node s i) \<Longrightarrow> gs_node s' = (gs_node s)(i := n) \<Longrightarrow> node_ok P calls i n \<Longrightarrow>
     \<forall>i. node_ok P calls i (gs_node s' i)"
  by simp

lemma failed_same:
  "issued P (n\<lparr>nd_failed := b\<rparr>) i j = issued P n i j"
  "pending (n\<lparr>nd_failed := b\<rparr>) j = pending n j"
  "begun_waits P (n\<lparr>nd_failed := b\<rparr>) i j = begun_waits P n i j"
  "node_ok P calls i (n\<lparr>nd_failed := b\<rparr>) = node_ok P calls i n"
  "passed (n\<lparr>nd_failed := b\<rparr>) t l = passed n t l"
  "begun (n\<lparr>nd_failed := b\<rparr>) t l = begun n t l"
  by (cases "nd_stage n"; simp add: issued_def pending_def begun_waits_def node_ok_def passed_def
      begun_def)+

lemma ginv_fail:
  assumes "ginv P calls s" "gfail s s'"
  shows "ginv P calls s'"
  using assms(2)
proof (cases rule: gfail.cases)
  case (stop n i)
  let ?n = "n\<lparr>nd_failed := True\<rparr>"
  note same = failed_same
  have ok: "node_ok P calls i n" using assms(1) stop by (simp add: ginv_def)
  have "counters P s'"
    unfolding stop using assms(1) stop by (intro counters_put) (simp_all add: same ginv_def)
  moreover have "heard P s'"
    by (rule heard_put [where s = s and i = i and n = ?n])
      (use assms(1) stop in \<open>simp_all add: same ginv_def\<close>)
  ultimately show ?thesis
    using assms(1) stop ok by (simp add: ginv_def same)
qed

lemma wait_ge_count:
  assumes "ginv P calls s" "programs_ok P calls" "calls < 2 ^ 64"
    and "gs_cell s i j \<ge> gs_exp s i j"
  shows "begun_waits P (gs_node s i) i j \<le> issued P (gs_node s j) j i"
proof -
  have ok: "node_ok P calls i (gs_node s i)" "node_ok P calls j (gs_node s j)"
    using assms(1) by (simp_all add: ginv_def)
  have b: "nd_bar (gs_node s i) \<le> calls" "nd_bar (gs_node s j) \<le> calls"
    using ok by (simp_all add: node_ok_def)
  have "issued P (gs_node s j) j i \<le> calls"
    using issued_le [OF ok(2)] sum_full_sent_le [OF assms(2) b(2)] by (rule le_trans)
  moreover have "begun_waits P (gs_node s i) i j \<le> calls"
    using begun_waits_le [OF ok(1), of j] sum_full_sent_le [OF assms(2) b(1), of j i]
    by (simp add: full_waited_eq [OF assms(2)])
  ultimately have u: "unat (gs_exp s i j) = begun_waits P (gs_node s i) i j"
    "unat (gs_cell s i j) = issued P (gs_node s j) j i - pending (gs_node s j) i"
    using assms(1,3) by (simp_all add: ginv_def counters_def unat_of_nat)
  with assms(4) show ?thesis by (simp add: word_le_nat_alt)
qed

text \<open>Each kind of step, on the record of the node that makes it.\<close>

lemma issued_call:
  "nd_stage n = Idle \<Longrightarrow> issued P (n\<lparr>nd_stage := Ready\<rparr>) i j = issued P n i j"
  "nd_stage n = Idle \<Longrightarrow> begun_waits P (n\<lparr>nd_stage := Ready\<rparr>) i j = begun_waits P n i j"
  "nd_stage n = Idle \<Longrightarrow> pending (n\<lparr>nd_stage := Ready\<rparr>) j = pending n j"
  by (simp_all add: issued_def begun_waits_def pending_def)

lemma idle_update:
  "nd_k n = 0 \<Longrightarrow> nd_stage n = Idle \<Longrightarrow>
     n\<lparr>nd_bar := b, nd_k := 0, nd_stage := Idle\<rparr> = n\<lparr>nd_bar := b\<rparr>"
  by (cases n) simp

lemma issued_next_call:
  assumes "nd_stage n \<in> {Idle, Ready}" "nd_k n = length (P (nd_bar n) i)"
  shows "issued P (n\<lparr>nd_bar := Suc (nd_bar n), nd_k := 0, nd_stage := Idle\<rparr>) i j = issued P n i j"
    and "begun_waits P (n\<lparr>nd_bar := Suc (nd_bar n), nd_k := 0, nd_stage := Idle\<rparr>) i j = begun_waits P n i j"
    and "pending (n\<lparr>nd_bar := Suc (nd_bar n), nd_k := 0, nd_stage := Idle\<rparr>) j = pending n j"
  using assms
  by (auto simp: issued_def begun_waits_def pending_def full_sent_def full_waited_def)

lemma issued_begin_wait:
  assumes "nd_stage n = Ready" "P (nd_bar n) i ! nd_k n = Wait j"
  shows "issued P (n\<lparr>nd_stage := Waiting\<rparr>) i q = issued P n i q"
    and "pending (n\<lparr>nd_stage := Waiting\<rparr>) q = pending n q"
    and "begun_waits P (n\<lparr>nd_stage := Waiting\<rparr>) i q = begun_waits P n i q + (if q = j then 1 else 0)"
  using assms by (auto simp: issued_def begun_waits_def pending_def)

lemma issued_end_wait:
  assumes "nd_stage n = Waiting" "P (nd_bar n) i ! nd_k n = Wait j" "nd_k n < length (P (nd_bar n) i)"
  shows "issued P (n\<lparr>nd_stage := Ready, nd_k := Suc (nd_k n)\<rparr>) i q = issued P n i q"
    and "pending (n\<lparr>nd_stage := Ready, nd_k := Suc (nd_k n)\<rparr>) q = pending n q"
    and "begun_waits P (n\<lparr>nd_stage := Ready, nd_k := Suc (nd_k n)\<rparr>) i q = begun_waits P n i q"
  using assms by (auto simp: issued_def begun_waits_def pending_def)

lemma issued_begin_send:
  assumes "nd_stage n = Ready" "P (nd_bar n) i ! nd_k n = a"
  shows "issued P (n\<lparr>nd_stage := Sending (targets a)\<rparr>) i q = issued P n i q + count_list (targets a) q"
    and "pending (n\<lparr>nd_stage := Sending (targets a)\<rparr>) q = count_list (targets a) q"
    and "pending n q = 0"
    and "begun_waits P (n\<lparr>nd_stage := Sending (targets a)\<rparr>) i q = begun_waits P n i q"
  using assms by (auto simp: issued_def begun_waits_def pending_def notifications_targets)

lemma issued_deliver:
  assumes "nd_stage n = Sending ps"
  shows "issued P (n\<lparr>nd_stage := Sending qs\<rparr>) i q = issued P n i q"
    and "pending (n\<lparr>nd_stage := Sending qs\<rparr>) q = count_list qs q"
    and "pending n q = count_list ps q"
    and "begun_waits P (n\<lparr>nd_stage := Sending qs\<rparr>) i q = begun_waits P n i q"
  using assms by (auto simp: issued_def begun_waits_def pending_def)

lemma issued_end_send:
  assumes "nd_stage n = Sending []" "nd_k n < length (P (nd_bar n) i)"
    "\<forall>j. P (nd_bar n) i ! nd_k n \<noteq> Wait j"
  shows "issued P (n\<lparr>nd_stage := Ready, nd_k := Suc (nd_k n)\<rparr>) i q = issued P n i q"
    and "pending (n\<lparr>nd_stage := Ready, nd_k := Suc (nd_k n)\<rparr>) q = pending n q"
    and "begun_waits P (n\<lparr>nd_stage := Ready, nd_k := Suc (nd_k n)\<rparr>) i q = begun_waits P n i q"
  using assms
  by (cases "P (nd_bar n) i ! nd_k n"; auto simp: issued_def begun_waits_def pending_def)+

lemmas position_defs = passed_def begun_def

lemma program_beyond: "length groups \<le> t \<Longrightarrow> program acts groups t i = []"
  by (simp add: program_def)

text \<open>Delivered or not, the difference of issued and pending is what the cell holds.\<close>

lemma counters_step:
  assumes st: "gstep acts groups world s s'"
    and inv: "ginv (program acts groups) (length groups) s"
  shows "counters (program acts groups) s'"
proof -
  let ?P = "program acts groups"
  have c: "counters ?P s" and ok: "\<And>i. node_ok ?P (length groups) i (gs_node s i)"
    using inv by (simp_all add: ginv_def)
  from st show ?thesis
  proof cases
    case (call i n)
    then show ?thesis
      using c by (simp only:) (rule counters_put; simp add: issued_call)
  next
    case (skip i n)
    have k: "nd_k n = length (?P (nd_bar n) i)"
      using skip ok [of i] by (simp add: node_ok_def program_def)
    have "nd_k n = 0" using skip ok [of i] by (simp add: node_ok_def)
    then have s': "s' = put_node i (n\<lparr>nd_bar := Suc (nd_bar n), nd_k := 0, nd_stage := Idle\<rparr>) s"
      using skip by (simp add: idle_update)
    show ?thesis
      unfolding s' using c skip k by (intro counters_put) (simp_all add: issued_next_call)
  next
    case (begin_wait i n j)
    with c issued_begin_wait [of n ?P i j] show ?thesis
      by (auto simp: counters_def)
  next
    case (end_wait i n j)
    have k: "nd_k n < length (?P (nd_bar n) i)"
      using end_wait ok [of i] by (simp add: node_ok_def)
    show ?thesis
      unfolding end_wait(1) using c end_wait issued_end_wait [of n ?P i j] k
      by (intro counters_put) simp_all
  next
    case (begin_send i n a)
    with c issued_begin_send [of n ?P i a] show ?thesis
      by (auto simp: counters_def)
  next
    case (deliver i n ps j)
    have d: "distinct ps" using deliver ok [of i] by (simp add: node_ok_def)
    have one: "count_list ps j = 1"
      using d deliver by (simp add: count_list_distinct)
    have st: "nd_stage n = Sending ps" using deliver by simp
    show ?thesis
      using c deliver one issued_deliver [OF st] by (auto simp: counters_def)
  next
    case (end_send i n)
    have k: "nd_k n < length (?P (nd_bar n) i)" "\<forall>j. ?P (nd_bar n) i ! nd_k n \<noteq> Wait j"
      using end_send ok [of i] by (simp_all add: node_ok_def)
    show ?thesis
      unfolding end_send(1) using c end_send issued_end_send [of n ?P i] k
      by (intro counters_put) simp_all
  next
    case (return i n)
    show ?thesis
      unfolding return(1) using c return by (intro counters_put) (simp_all add: issued_next_call)
  qed
qed

text \<open>What a step does to the position of the node that makes it.\<close>

lemma heard_step:
  assumes st: "gstep acts groups world s s'"
    and inv: "ginv (program acts groups) (length groups) s"
    and ok: "programs_ok (program acts groups) (length groups)" "length groups < 2 ^ 64"
    and match: "\<And>t i l j. l < length (program acts groups t i) \<Longrightarrow>
        program acts groups t i ! l = Wait j \<Longrightarrow>
        \<exists>l' < length (program acts groups t j). i \<in> set (targets (program acts groups t j ! l'))"
  shows "heard (program acts groups) s'"
proof -
  let ?P = "program acts groups"
  have h: "heard ?P s" and nok: "\<And>i. node_ok ?P (length groups) i (gs_node s i)"
    using inv by (simp_all add: ginv_def)
  from st show ?thesis
  proof cases
    case (call i n)
    show ?thesis
      by (rule heard_put [where i = i and n = "n\<lparr>nd_stage := Ready\<rparr>", OF h])
        (use call nok [of i] in \<open>auto simp: position_defs node_ok_def\<close>)
  next
    case (skip i n)
    show ?thesis
      by (rule heard_put [where i = i and n = "n\<lparr>nd_bar := Suc (nd_bar n)\<rparr>", OF h])
        (use skip nok [of i] in \<open>auto simp: position_defs node_ok_def program_def less_Suc_eq\<close>)
  next
    case (begin_wait i n j)
    show ?thesis
      by (rule heard_put [where i = i and n = "n\<lparr>nd_stage := Waiting\<rparr>", OF h])
        (use begin_wait in \<open>auto simp: position_defs\<close>)
  next
    case (begin_send i n a)
    show ?thesis
      by (rule heard_put [where i = i and n = "n\<lparr>nd_stage := Sending (targets a)\<rparr>", OF h])
        (use begin_send in \<open>auto simp: position_defs\<close>)
  next
    case (deliver i n ps j)
    show ?thesis
      by (rule heard_put [where i = i and n = "n\<lparr>nd_stage := Sending (remove1 j ps)\<rparr>", OF h])
        (use deliver in \<open>auto simp: position_defs\<close>)
  next
    case (end_send i n)
    show ?thesis
      by (rule heard_put [where i = i and n = "n\<lparr>nd_stage := Ready, nd_k := Suc (nd_k n)\<rparr>", OF h])
        (use end_send nok [of i] in \<open>auto simp: position_defs node_ok_def less_Suc_eq\<close>)
  next
    case (return i n)
    show ?thesis
      by (rule heard_put [where i = i and
            n = "n\<lparr>nd_bar := Suc (nd_bar n), nd_k := 0, nd_stage := Idle\<rparr>", OF h])
        (use return in \<open>auto simp: position_defs less_Suc_eq\<close>)
  next
    case (end_wait i n j)
    let ?n = "n\<lparr>nd_stage := Ready, nd_k := Suc (nd_k n)\<rparr>"
    have k: "nd_k n < length (?P (nd_bar n) i)"
      using end_wait nok [of i] by (simp add: node_ok_def)
    have w: "?P (nd_bar n) i ! nd_k n = Wait j" using end_wait by simp
    from match [OF k w] obtain l' where l': "l' < length (?P (nd_bar n) j)"
      "i \<in> set (targets (?P (nd_bar n) j ! l'))" by blast
    have "begun (gs_node s j) (nd_bar n) l'"
      using count_reached_begun [OF ok(1) nok [of i] _ _ nok [of j]] end_wait w l'
        wait_ge_count [OF inv ok, of i j] by simp
    then have new: "begun (gs_node s' j) (nd_bar n) l'"
      using end_wait by (auto simp: position_defs)
    have keep: "begun (gs_node s' q) t m" if "begun (gs_node s q) t m" for q t m
      using that end_wait by (auto simp: position_defs)
    show ?thesis
      unfolding heard_def
    proof (intro allI impI)
      fix i' j' t l
      assume p: "passed (gs_node s' i') t l" "l < length (?P t i')" "?P t i' ! l = Wait j'"
      consider "passed (gs_node s i') t l" | "i' = i" "t = nd_bar n" "l = nd_k n"
        using p(1) end_wait by (auto simp: position_defs less_Suc_eq split: if_splits)
      then show "\<exists>l' < length (?P t j'). i' \<in> set (targets (?P t j' ! l')) \<and> begun (gs_node s' j') t l'"
      proof cases
        case 1
        with h p keep show ?thesis unfolding heard_def by blast
      next
        case 2
        with p(3) w have "j' = j" by simp
        with 2 l' new show ?thesis by blast
      qed
    qed
  qed
qed

lemma node_ok_step:
  assumes st: "gstep acts groups world s s'"
    and ok: "\<And>i. node_ok (program acts groups) (length groups) i (gs_node s i)"
    and dist: "\<And>t i a. a \<in> set (program acts groups t i) \<Longrightarrow> distinct (targets a)"
  shows "node_ok (program acts groups) (length groups) i (gs_node s' i)"
  using st
proof cases
  case (call i' n)
  with ok [of i] show ?thesis by (auto simp: node_ok_def)
next
  case (skip i' n)
  with ok [of i] show ?thesis by (auto simp: node_ok_def)
next
  case (begin_wait i' n j)
  with ok [of i] show ?thesis by (auto simp: node_ok_def)
next
  case (end_wait i' n j)
  with ok [of i] show ?thesis by (auto simp: node_ok_def program_def split: if_splits)
next
  case (begin_send i' n a)
  then have "a \<in> set (program acts groups (nd_bar n) i')" by simp
  then have "distinct (targets a)" by (rule dist)
  with begin_send ok [of i] show ?thesis by (auto simp: node_ok_def)
next
  case (deliver i' n ps j)
  with ok [of i] set_remove1_subset [of j ps] show ?thesis by (auto simp: node_ok_def)
next
  case (end_send i' n)
  with ok [of i] show ?thesis by (auto simp: node_ok_def program_def split: if_splits)
next
  case (return i' n)
  with ok [of i] show ?thesis by (auto simp: node_ok_def)
qed

end
