(* ===== verification/Barrier_Protocol.thy ===== *)
theory Barrier_Protocol
  imports Barrier_Global
begin

text \<open>
  The contract of a barrier algorithm, as the locale \<open>barrier_protocol\<close>, and what it gives: nobody
  leaves a barrier before every member has entered it, and without failures nobody gets stuck and
  the calls end.
\<close>

definition valid_group :: "nat list \<Rightarrow> bool" where
  "valid_group g \<longleftrightarrow> sorted g \<and> distinct g \<and> length g \<le> 2 ^ 63"

definition valid_calls :: "nat list list \<Rightarrow> nat \<Rightarrow> bool" where
  "valid_calls groups world \<longleftrightarrow>
     length groups < 2 ^ 64 \<and> (\<forall>g \<in> set groups. valid_group g \<and> (\<forall>i \<in> set g. i < world))"

text \<open>
  \<open>acts g i\<close> is what member \<open>i\<close> does in a barrier of the group \<open>g\<close>; \<open>level g i l\<close> orders the actions of all
  members so that every wait comes after the notification it waits for.
\<close>

locale barrier_protocol =
  fixes acts :: "nat list \<Rightarrow> nat \<Rightarrow> action list"
    and level :: "nat list \<Rightarrow> nat \<Rightarrow> nat \<Rightarrow> nat"
  assumes distinct_targets:
      "valid_group g \<Longrightarrow> i \<in> set g \<Longrightarrow> a \<in> set (acts g i) \<Longrightarrow> distinct (targets a)"
    and once_sent:
      "valid_group g \<Longrightarrow> j \<in> set g \<Longrightarrow> sent_in (acts g j) (length (acts g j)) i \<le> 1"
    and once_waited:
      "valid_group g \<Longrightarrow> i \<in> set g \<Longrightarrow> waited_in (acts g i) (length (acts g i)) j \<le> 1"
    and wait_matched:
      "valid_group g \<Longrightarrow> i \<in> set g \<Longrightarrow> l < length (acts g i) \<Longrightarrow> acts g i ! l = Wait j \<Longrightarrow>
         j \<in> set g \<and> (\<exists>l' < length (acts g j). i \<in> set (targets (acts g j ! l')))"
    and sent_matched:
      "valid_group g \<Longrightarrow> j \<in> set g \<Longrightarrow> l < length (acts g j) \<Longrightarrow> i \<in> set (targets (acts g j ! l)) \<Longrightarrow>
         i \<in> set g \<and> Wait j \<in> set (acts g i)"
    and complete:
      "valid_group g \<Longrightarrow> i \<in> set g \<Longrightarrow> x \<in> set g \<Longrightarrow> knows (acts g) i (length (acts g i)) x"
    and level_next:
      "valid_group g \<Longrightarrow> i \<in> set g \<Longrightarrow> Suc l < length (acts g i) \<Longrightarrow> level g i l < level g i (Suc l)"
    and level_wait:
      "valid_group g \<Longrightarrow> i \<in> set g \<Longrightarrow> l < length (acts g i) \<Longrightarrow> acts g i ! l = Wait j \<Longrightarrow>
         l' < length (acts g j) \<Longrightarrow> i \<in> set (targets (acts g j ! l')) \<Longrightarrow> level g j l' < level g i l"

lemma sent_in_pos:
  "l < length p \<Longrightarrow> q \<in> set (targets (p ! l)) \<Longrightarrow> 1 \<le> sent_in p (length p) q"
proof -
  assume l: "l < length p" "q \<in> set (targets (p ! l))"
  have "1 \<le> notifications q (p ! l)"
    using count_list_pos [OF l(2)] by (simp add: notifications_targets)
  then have "1 \<le> sent_in p (Suc l) q" using l(1) by simp
  also have "\<dots> \<le> sent_in p (length p) q" using l(1) by (intro sent_in_mono) simp
  finally show ?thesis .
qed

lemma waited_in_pos: "Wait q \<in> set p \<Longrightarrow> 1 \<le> waited_in p (length p) q"
proof -
  assume "Wait q \<in> set p"
  then obtain l where l: "l < length p" "p ! l = Wait q" by (auto simp: in_set_conv_nth)
  then have "1 \<le> waited_in p (Suc l) q" by simp
  also have "\<dots> \<le> waited_in p (length p) q" using l(1) by (intro waited_in_mono) simp
  finally show ?thesis .
qed

lemma waited_in_zero: "Wait q \<notin> set p \<Longrightarrow> waited_in p k q = 0"
proof (induction k)
  case 0
  then show ?case by simp
next
  case (Suc k)
  show ?case
  proof (cases "k < length p")
    case True
    then have "p ! k \<noteq> Wait q" using Suc.prems nth_mem by metis
    then have "waits q (p ! k) = 0" by (cases "p ! k") auto
    with True Suc show ?thesis by simp
  next
    case False
    with Suc show ?thesis by (simp add: waited_in_def)
  qed
qed

section \<open>How much is left to do\<close>

definition action_cost :: "action \<Rightarrow> nat" where
  "action_cost a = 2 + length (targets a)"

definition call_cost :: "action list \<Rightarrow> nat" where
  "call_cost p = 2 + sum_list (map action_cost p)"

definition node_left :: "programs \<Rightarrow> nat \<Rightarrow> nat \<Rightarrow> gnode \<Rightarrow> nat" where
  "node_left P calls i n =
     (\<Sum>t \<in> {Suc (nd_bar n)..<calls}. call_cost (P t i)) +
     (if nd_bar n < calls then
        (case nd_stage n of
           Idle \<Rightarrow> call_cost (P (nd_bar n) i)
         | Ready \<Rightarrow> 1 + sum_list (map action_cost (drop (nd_k n) (P (nd_bar n) i)))
         | Waiting \<Rightarrow> 2 + sum_list (map action_cost (drop (Suc (nd_k n)) (P (nd_bar n) i)))
         | Sending ps \<Rightarrow>
             2 + length ps + sum_list (map action_cost (drop (Suc (nd_k n)) (P (nd_bar n) i))))
      else 0)"

definition system_left :: "programs \<Rightarrow> nat \<Rightarrow> nat \<Rightarrow> gstate \<Rightarrow> nat" where
  "system_left P calls world s = (\<Sum>i < world. node_left P calls i (gs_node s i))"

definition all_done :: "nat list list \<Rightarrow> nat \<Rightarrow> gstate \<Rightarrow> bool" where
  "all_done groups world s \<longleftrightarrow> (\<forall>i < world. nd_bar (gs_node s i) = length groups)"

lemma system_left_decreases:
  assumes "gs_node s' = (gs_node s)(i := n)" "i < world"
    and "node_left P calls i n < node_left P calls i (gs_node s i)"
  shows "system_left P calls world s' < system_left P calls world s"
  unfolding system_left_def
  by (rule sum_strict_mono_ex1) (use assms in \<open>auto intro!: bexI [of _ i]\<close>)

lemma left_next_call:
  assumes "nd_bar n < calls" "nd_stage n = Idle \<or> nd_stage n = Ready"
  shows "node_left P calls i (n\<lparr>nd_bar := Suc (nd_bar n), nd_k := 0, nd_stage := Idle\<rparr>) <
         node_left P calls i n"
proof (cases "Suc (nd_bar n) < calls")
  case True
  then have "(\<Sum>t \<in> {Suc (nd_bar n)..<calls}. call_cost (P t i)) =
      call_cost (P (Suc (nd_bar n)) i) + (\<Sum>t \<in> {Suc (Suc (nd_bar n))..<calls}. call_cost (P t i))"
    by (simp add: sum.atLeast_Suc_lessThan)
  with assms True show ?thesis by (auto simp: node_left_def call_cost_def)
next
  case False
  with assms show ?thesis by (auto simp: node_left_def call_cost_def)
qed

lemma drop_cost:
  "k < length p \<Longrightarrow> sum_list (map action_cost (drop k p)) =
     action_cost (p ! k) + sum_list (map action_cost (drop (Suc k) p))"
  by (simp add: Cons_nth_drop_Suc [symmetric])

lemma step_decreases:
  assumes st: "gstep acts groups world s s'"
    and ok: "\<And>i. node_ok (program acts groups) (length groups) i (gs_node s i)"
  shows "system_left (program acts groups) (length groups) world s' <
         system_left (program acts groups) (length groups) world s"
  using st
proof cases
  case (call i n)
  show ?thesis
    by (rule system_left_decreases [of _ _ i "n\<lparr>nd_stage := Ready\<rparr>"])
      (use call ok [of i] in \<open>auto simp: node_left_def call_cost_def node_ok_def\<close>)
next
  case (skip i n)
  have "nd_k n = 0" using skip ok [of i] by (simp add: node_ok_def)
  then have n: "n\<lparr>nd_bar := Suc (nd_bar n), nd_k := 0, nd_stage := Idle\<rparr> = n\<lparr>nd_bar := Suc (nd_bar n)\<rparr>"
    using skip by (intro idle_update) auto
  have "node_left (program acts groups) (length groups) i (n\<lparr>nd_bar := Suc (nd_bar n)\<rparr>) <
        node_left (program acts groups) (length groups) i n"
    using left_next_call [of n "length groups" "program acts groups" i, unfolded n] skip by blast
  then show ?thesis
    by (intro system_left_decreases [of _ _ i "n\<lparr>nd_bar := Suc (nd_bar n)\<rparr>"]) (use skip in auto)
next
  case (begin_wait i n j)
  have "nd_bar n < length groups" using begin_wait ok [of i] by (simp add: node_ok_def)
  then show ?thesis
    by (intro system_left_decreases [of _ _ i "n\<lparr>nd_stage := Waiting\<rparr>"])
      (use begin_wait in \<open>auto simp: node_left_def drop_cost action_cost_def\<close>)
next
  case (end_wait i n j)
  have "nd_bar n < length groups"
    using end_wait ok [of i] by (auto simp: node_ok_def program_def split: if_splits)
  then show ?thesis
    by (intro system_left_decreases [of _ _ i "n\<lparr>nd_stage := Ready, nd_k := Suc (nd_k n)\<rparr>"])
      (use end_wait in \<open>auto simp: node_left_def\<close>)
next
  case (begin_send i n a)
  have "nd_bar n < length groups" using begin_send ok [of i] by (simp add: node_ok_def)
  then show ?thesis
    by (intro system_left_decreases [of _ _ i "n\<lparr>nd_stage := Sending (targets a)\<rparr>"])
      (use begin_send in \<open>auto simp: node_left_def drop_cost action_cost_def\<close>)
next
  case (deliver i n ps j)
  have "nd_bar n < length groups"
    using deliver ok [of i] by (auto simp: node_ok_def program_def split: if_splits)
  moreover have "length (remove1 j ps) < length ps"
    using deliver by (metis One_nat_def Suc_pred length_pos_if_in_set length_remove1 lessI)
  ultimately show ?thesis
    by (intro system_left_decreases [of _ _ i "n\<lparr>nd_stage := Sending (remove1 j ps)\<rparr>"])
      (use deliver in \<open>auto simp: node_left_def\<close>)
next
  case (end_send i n)
  have "nd_bar n < length groups"
    using end_send ok [of i] by (auto simp: node_ok_def program_def split: if_splits)
  then show ?thesis
    by (intro system_left_decreases [of _ _ i "n\<lparr>nd_stage := Ready, nd_k := Suc (nd_k n)\<rparr>"])
      (use end_send in \<open>auto simp: node_left_def\<close>)
next
  case (return i n)
  have "nd_bar n < length groups" using return ok [of i] by (simp add: node_ok_def)
  then show ?thesis
    using left_next_call [of n "length groups" "program acts groups" i] return
    by (intro system_left_decreases
        [of _ _ i "n\<lparr>nd_bar := Suc (nd_bar n), nd_k := 0, nd_stage := Idle\<rparr>"]) auto
qed

text \<open>A node that is not in a busy wait can always step.\<close>

lemma can_step_unless_waiting:
  assumes ok: "node_ok (program acts groups) (length groups) i (gs_node s i)"
    and i: "i < world" "\<not> nd_failed (gs_node s i)" "nd_bar (gs_node s i) < length groups"
    and stuck: "\<nexists>s'. gstep acts groups world s s'"
  shows "nd_stage (gs_node s i) = Waiting"
proof (cases "nd_stage (gs_node s i)")
  case Idle
  then show ?thesis
    using stuck gstep.call [OF i(1) refl i(2)] gstep.skip [OF i(1) refl i(2)] i(3) by blast
next
  case Ready
  let ?p = "prog_of acts groups s i"
  have "nd_k (gs_node s i) \<le> length ?p" using ok by (simp add: node_ok_def)
  then consider "nd_k (gs_node s i) = length ?p" | "nd_k (gs_node s i) < length ?p" by linarith
  then show ?thesis
  proof cases
    case 1
    with stuck gstep.return [OF i(1) refl i(2) Ready] show ?thesis by blast
  next
    case 2
    show ?thesis
    proof (cases "\<exists>j. ?p ! nd_k (gs_node s i) = Wait j")
      case True
      with 2 stuck gstep.begin_wait [OF i(1) refl i(2) Ready] show ?thesis by blast
    next
      case False
      with 2 stuck gstep.begin_send [OF i(1) refl i(2) Ready 2 refl] show ?thesis by blast
    qed
  qed
next
  case (Sending ps)
  show ?thesis
  proof (cases ps)
    case Nil
    with Sending stuck gstep.end_send [OF i(1) refl i(2)] show ?thesis by blast
  next
    case (Cons j js)
    then have "j \<in> set ps" by simp
    with stuck gstep.deliver [OF i(1) refl Sending] show ?thesis by blast
  qed
qed

context barrier_protocol
begin

lemma program_member:
  assumes "valid_calls groups world" "l < length (program acts groups t i)"
  shows "t < length groups \<and> i \<in> set (groups ! t) \<and> valid_group (groups ! t) \<and> i < world \<and>
         program acts groups t i = acts (groups ! t) i"
  using assms by (auto simp: program_def valid_calls_def split: if_splits)

lemma programs_match:
  assumes v: "valid_calls groups world" and l: "l < length (program acts groups t i)"
    "program acts groups t i ! l = Wait j"
  shows "\<exists>l' < length (program acts groups t j). i \<in> set (targets (program acts groups t j ! l'))"
proof -
  note m = program_member [OF v l(1)]
  with wait_matched [of "groups ! t" i l j] l have "j \<in> set (groups ! t)"
    "\<exists>l' < length (acts (groups ! t) j). i \<in> set (targets (acts (groups ! t) j ! l'))" by auto
  with m show ?thesis by (simp add: program_def)
qed

lemma programs_distinct:
  assumes "valid_calls groups world" "a \<in> set (program acts groups t i)"
  shows "distinct (targets a)"
proof -
  from assms(2) obtain l where "l < length (program acts groups t i)"
    by (auto simp: in_set_conv_nth)
  from program_member [OF assms(1) this] assms(2) distinct_targets show ?thesis by auto
qed

lemma counts_equal:
  assumes g: "valid_group g" "i \<in> set g" "j \<in> set g"
  shows "waited_in (acts g i) (length (acts g i)) j = sent_in (acts g j) (length (acts g j)) i"
proof (cases "Wait j \<in> set (acts g i)")
  case True
  then obtain l where l: "l < length (acts g i)" "acts g i ! l = Wait j"
    by (auto simp: in_set_conv_nth)
  from wait_matched [OF g(1,2) l] obtain l' where
    "l' < length (acts g j)" "i \<in> set (targets (acts g j ! l'))" by blast
  from sent_in_pos [OF this] waited_in_pos [OF True] once_sent [OF g(1,3), of i]
    once_waited [OF g(1,2), of j] show ?thesis by simp
next
  case False
  have "sent_in (acts g j) (length (acts g j)) i = 0"
  proof (rule sent_in_zero, intro allI impI notI)
    fix l assume "l < length (acts g j)" "i \<in> set (targets (acts g j ! l))"
    with sent_matched [OF g(1,3)] False show False by blast
  qed
  with waited_in_zero [OF False] show ?thesis by simp
qed

lemma counts_outside:
  assumes g: "valid_group g"
  shows "j \<in> set g \<Longrightarrow> i \<notin> set g \<Longrightarrow> sent_in (acts g j) k i = 0"
    and "i \<in> set g \<Longrightarrow> j \<notin> set g \<Longrightarrow> waited_in (acts g i) k j = 0"
proof -
  show "sent_in (acts g j) k i = 0" if m: "j \<in> set g" "i \<notin> set g"
  proof (rule sent_in_zero, intro allI impI notI)
    fix l assume "l < k" "l < length (acts g j)" "i \<in> set (targets (acts g j ! l))"
    with sent_matched [OF g m(1), of l i] m(2) show False by blast
  qed
  show "waited_in (acts g i) k j = 0" if m: "i \<in> set g" "j \<notin> set g"
  proof (rule waited_in_zero, rule notI)
    assume "Wait j \<in> set (acts g i)"
    then obtain l where "l < length (acts g i)" "acts g i ! l = Wait j"
      by (auto simp: in_set_conv_nth)
    with wait_matched [OF g m(1)] m(2) show False by blast
  qed
qed

lemma programs_ok_acts:
  assumes v: "valid_calls groups world"
  shows "programs_ok (program acts groups) (length groups)"
  unfolding programs_ok_def
proof (intro allI)
  fix t i j
  let ?P = "program acts groups"
  show "full_sent ?P j i t \<le> (if t < length groups then 1 else 0) \<and>
        full_waited ?P i j t = full_sent ?P j i t"
  proof (cases "t < length groups")
    case True
    let ?g = "groups ! t"
    have g: "valid_group ?g" using v True by (auto simp: valid_calls_def)
    have p: "?P t q = (if q \<in> set ?g then acts ?g q else [])" for q
      using True by (simp add: program_def)
    show ?thesis
    proof (cases "i \<in> set ?g")
      case i: True
      show ?thesis
      proof (cases "j \<in> set ?g")
        case True
        with i once_sent [OF g True, of i] counts_equal [OF g i True] \<open>t < length groups\<close>
        show ?thesis by (simp add: full_sent_def full_waited_def p)
      next
        case False
        with i counts_outside(2) [OF g i False] show ?thesis
          by (simp add: full_sent_def full_waited_def p)
      qed
    next
      case i: False
      show ?thesis
      proof (cases "j \<in> set ?g")
        case True
        with i counts_outside(1) [OF g True i] show ?thesis
          by (simp add: full_sent_def full_waited_def p)
      next
        case False
        with i show ?thesis by (simp add: full_sent_def full_waited_def p)
      qed
    qed
  qed (simp add: full_sent_def full_waited_def program_def)
qed

lemma ginv_reach:
  assumes "greach acts groups world s" "valid_calls groups world"
  shows "ginv (program acts groups) (length groups) s"
  using assms(1)
proof (induction rule: greach.induct)
  case init
  show ?case by (rule ginv_init)
next
  case (step s s')
  let ?P = "program acts groups"
  have ok: "programs_ok ?P (length groups)" "length groups < 2 ^ 64"
    using programs_ok_acts [OF assms(2)] assms(2) by (simp_all add: valid_calls_def)
  have "counters ?P s'" using step.hyps(2) step.IH by (rule counters_step)
  moreover have "heard ?P s'"
    using step.hyps(2) step.IH ok programs_match [OF assms(2)] by (rule heard_step)
  moreover have "node_ok ?P (length groups) i (gs_node s' i)" for i
  proof (rule node_ok_step [OF step.hyps(2)])
    show "node_ok ?P (length groups) q (gs_node s q)" for q
      using step.IH by (simp add: ginv_def)
    show "distinct (targets a)" if "a \<in> set (?P t q)" for t q a
      using assms(2) that by (rule programs_distinct)
  qed
  ultimately show ?case by (simp add: ginv_def)
next
  case (fail s s')
  from fail.IH fail.hyps(2) show ?case by (rule ginv_fail)
qed

text \<open>A node that reached the point where it knows of \<open>x\<close> can rely on it.\<close>

lemma knows_entered:
  assumes v: "valid_calls groups world" and inv: "ginv (program acts groups) (length groups) s"
    and t: "t < length groups"
  shows "knows (acts (groups ! t)) i k x \<Longrightarrow> i \<in> set (groups ! t) \<Longrightarrow>
     t < nd_bar (gs_node s i) \<or> t = nd_bar (gs_node s i) \<and> nd_stage (gs_node s i) \<noteq> Idle \<and>
       k \<le> nd_k (gs_node s i) \<Longrightarrow>
     has_entered s t x"
proof (induction rule: knows.induct)
  case (self i k)
  then show ?case by (auto simp: has_entered_def)
next
  case (hear l k i j l' x)
  let ?g = "groups ! t" and ?P = "program acts groups"
  have g: "valid_group ?g" using v t by (auto simp: valid_calls_def)
  have j: "j \<in> set ?g" using wait_matched [OF g hear.prems(1) hear.hyps(2,3)] by blast
  have Pi: "?P t i = acts ?g i" "?P t j = acts ?g j"
    using t hear.prems(1) j by (simp_all add: program_def)
  have "passed (gs_node s i) t l"
    using hear.prems(2) hear.hyps(1) by (auto simp: passed_def)
  with inv hear.hyps(2,3) Pi obtain m where
    m: "m < length (acts ?g j)" "i \<in> set (targets (acts ?g j ! m))" "begun (gs_node s j) t m"
    unfolding ginv_def heard_def by metis
  have "m = l'"
  proof (rule ccontr)
    assume ne: "m \<noteq> l'"
    have "2 \<le> sent_in (acts ?g j) (length (acts ?g j)) i"
    proof -
      define a b where "a = min m l'" and "b = max m l'"
      have ab: "a < b" "b < length (acts ?g j)" "i \<in> set (targets (acts ?g j ! a))"
        "i \<in> set (targets (acts ?g j ! b))"
        using ne m(1,2) hear.hyps(4,5) by (auto simp: a_def b_def min_def max_def)
      have n: "1 \<le> notifications i (acts ?g j ! a)" "1 \<le> notifications i (acts ?g j ! b)"
        using count_list_pos [OF ab(3)] count_list_pos [OF ab(4)]
        by (simp_all add: notifications_targets)
      have "1 \<le> sent_in (acts ?g j) (Suc a) i" using n(1) ab(1,2) by simp
      also have "\<dots> \<le> sent_in (acts ?g j) b i" using ab(1) by (intro sent_in_mono) simp
      finally have "2 \<le> sent_in (acts ?g j) (Suc b) i" using n(2) ab(2) by simp
      also have "\<dots> \<le> sent_in (acts ?g j) (length (acts ?g j)) i"
        using ab(2) by (intro sent_in_mono) simp
      finally show ?thesis .
    qed
    with once_sent [OF g j, of i] show False by simp
  qed
  have ok: "node_ok ?P (length groups) j (gs_node s j)" using inv by (simp add: ginv_def)
  have "t < nd_bar (gs_node s j) \<or> t = nd_bar (gs_node s j) \<and> nd_stage (gs_node s j) \<noteq> Idle \<and>
       l' \<le> nd_k (gs_node s j)"
    using m(3) ok unfolding \<open>m = l'\<close> begun_def passed_def node_ok_def by auto
  with j show ?case by (rule hear.IH)
qed

lemma safety:
  assumes "greach acts groups world s" "valid_calls groups world"
    and "t < length groups" "i \<in> set (groups ! t)" "has_left s t i" "x \<in> set (groups ! t)"
  shows "has_entered s t x"
proof -
  have "valid_group (groups ! t)" using assms(2,3) by (auto simp: valid_calls_def)
  from complete [OF this assms(4,6)] show ?thesis
    using knows_entered [OF assms(2) ginv_reach [OF assms(1,2)] assms(3) _ assms(4)] assms(5)
    unfolding has_left_def by blast
qed

lemma level_mono:
  assumes "valid_group g" "i \<in> set g"
  shows "l < l' \<Longrightarrow> l' < length (acts g i) \<Longrightarrow> level g i l < level g i l'"
proof (induction l')
  case 0
  then show ?case by simp
next
  case (Suc l')
  from level_next [OF assms Suc.prems(2)] Suc show ?case
    by (cases "l = l'") (auto intro: less_trans)
qed

lemma not_stuck:
  assumes r: "greach acts groups world s" and v: "valid_calls groups world"
    and nofail: "\<And>i. \<not> nd_failed (gs_node s i)" and undone: "\<not> all_done groups world s"
  shows "\<exists>s'. gstep acts groups world s s'"
proof (rule ccontr)
  assume stuck: "\<nexists>s'. gstep acts groups world s s'"
  let ?P = "program acts groups" and ?n = "gs_node s" and ?M = "length groups"
  note inv = ginv_reach [OF r v]
  have ok: "node_ok ?P ?M i (?n i)" for i using inv by (simp add: ginv_def)
  note pok = programs_ok_acts [OF v]
  have waiting: "nd_stage (?n i) = Waiting" if "i < world" "nd_bar (?n i) < ?M" for i
    by (rule can_step_unless_waiting [OF ok that(1) nofail that(2) stuck])
  define U where "U i \<longleftrightarrow> i < world \<and> nd_bar (?n i) < ?M" for i
  have "\<exists>i. U i"
    using undone ok by (auto simp: all_done_def U_def node_ok_def le_less)
  then obtain i0 where i0: "U i0" "\<And>i. U i \<Longrightarrow> nd_bar (?n i0) \<le> nd_bar (?n i)"
    using ex_has_least_nat [of U _ "\<lambda>i. nd_bar (?n i)"] by blast
  define t where "t = nd_bar (?n i0)"
  let ?g = "groups ! t"
  define lv where "lv i = level ?g i (nd_k (?n i))" for i
  obtain i where i: "U i" "nd_bar (?n i) = t" and
    least: "\<And>j. U j \<Longrightarrow> nd_bar (?n j) = t \<Longrightarrow> lv i \<le> lv j"
    using ex_has_least_nat [of "\<lambda>i. U i \<and> nd_bar (?n i) = t" i0 lv] i0(1)
    by (auto simp: t_def)
  have t: "t < ?M" using i by (simp add: U_def)
  have g: "valid_group ?g" using v t by (auto simp: valid_calls_def)
  have wi: "nd_stage (?n i) = Waiting" using waiting i by (simp add: U_def)
  from ok [of i] wi i(2) obtain j where
    k: "nd_k (?n i) < length (?P t i)" "?P t i ! nd_k (?n i) = Wait j"
    by (auto simp: node_ok_def)
  have im: "i \<in> set ?g" "?P t i = acts ?g i" using program_member [OF v k(1)] by auto
  from wait_matched [OF g im(1), of "nd_k (?n i)" j] k im(2) obtain l' where
    j: "j \<in> set ?g" and l': "l' < length (acts ?g j)" "i \<in> set (targets (acts ?g j ! l'))"
    by auto
  have jw: "j < world" using v t j by (auto simp: valid_calls_def)
  have Pj: "?P t j = acts ?g j" using t j by (simp add: program_def)
  have bj: "t \<le> nd_bar (?n j)"
    using i0(2) [of j] ok [of j] jw t by (cases "nd_bar (?n j) < ?M") (auto simp: U_def t_def node_ok_def)
  have pend: "pending (?n j) i = 0"
  proof (cases "nd_bar (?n j) < ?M")
    case True
    then show ?thesis using waiting jw by (simp add: pending_def)
  next
    case False
    then show ?thesis
      using ok [of j] by (auto simp: pending_def node_ok_def program_def split: stage.splits if_splits)
  qed
  have "(\<Sum>q < Suc t. full_sent ?P j i q) \<le> issued ?P (?n j) j i"
  proof (cases "nd_bar (?n j) = t")
    case False
    then have "(\<Sum>q < Suc t. full_sent ?P j i q) \<le> (\<Sum>q < nd_bar (?n j). full_sent ?P j i q)"
      using bj by (intro sum_mono2) auto
    then show ?thesis by (simp add: issued_def)
  next
    case True
    have uj: "U j" using jw t True by (simp add: U_def)
    have wj: "nd_stage (?n j) = Waiting" using waiting uj by (simp add: U_def)
    with ok [of j] True Pj obtain q where
      kj: "nd_k (?n j) < length (acts ?g j)" "acts ?g j ! nd_k (?n j) = Wait q"
      by (auto simp: node_ok_def)
    have "l' \<noteq> nd_k (?n j)" using kj(2) l'(2) by auto
    moreover have "\<not> nd_k (?n j) < l'"
    proof
      assume "nd_k (?n j) < l'"
      then have "lv j < level ?g j l'" unfolding lv_def by (rule level_mono [OF g j _ l'(1)])
      also have "\<dots> < lv i"
        unfolding lv_def using k im(2) l' by (intro level_wait [OF g im(1)]) auto
      finally show False using least [OF uj True] by simp
    qed
    ultimately have lt: "l' < nd_k (?n j)" by simp
    have "1 \<le> notifications i (acts ?g j ! l')"
      using count_list_pos [OF l'(2)] by (simp add: notifications_targets)
    then have "1 \<le> sent_in (acts ?g j) (Suc l') i" using l'(1) by simp
    also have "\<dots> \<le> sent_in (acts ?g j) (nd_k (?n j)) i" using lt by (intro sent_in_mono) simp
    finally have "full_sent ?P j i t \<le> sent_in (acts ?g j) (nd_k (?n j)) i"
      using full_sent_le_1 [OF pok, of j i t] by simp
    then show ?thesis by (simp add: issued_def True Pj)
  qed
  moreover have "begun_waits ?P (?n i) i j \<le> (\<Sum>q < Suc t. full_sent ?P j i q)"
    using begun_waits_le [OF ok [of i], of j] unfolding i(2) by (simp add: full_waited_eq [OF pok])
  ultimately have le: "begun_waits ?P (?n i) i j \<le> issued ?P (?n j) j i" by linarith
  have "issued ?P (?n j) j i < 2 ^ 64"
  proof -
    have "nd_bar (?n j) \<le> ?M" using ok [of j] by (simp add: node_ok_def)
    from le_trans [OF issued_le [OF ok [of j]] sum_full_sent_le [OF pok this]] show ?thesis
      using v by (auto simp: valid_calls_def intro: le_less_trans)
  qed
  with le inv pend have "gs_exp s i j \<le> gs_cell s i j"
    by (simp add: ginv_def counters_def word_le_nat_alt unat_of_nat)
  with stuck gstep.end_wait [of i world "?n i" s acts groups j] i(1) wi k i(2) nofail show False
    by (auto simp: U_def)
qed

lemma runs_end:
  assumes run: "(gstep acts groups world ^^ k) gs_init s" and v: "valid_calls groups world"
  shows "k \<le> system_left (program acts groups) (length groups) world gs_init \<and>
         ((\<nexists>s'. gstep acts groups world s s') \<longrightarrow> all_done groups world s)"
proof -
  let ?left = "system_left (program acts groups) (length groups) world"
  have "k + ?left s \<le> ?left gs_init \<and> greach acts groups world s \<and> (\<forall>i. \<not> nd_failed (gs_node s i))"
    using run
  proof (induction k arbitrary: s)
    case 0
    then have s: "s = gs_init" by simp
    show ?case unfolding s using greach.init by (simp add: gs_init_def)
  next
    case (Suc k)
    then obtain s0 where s0: "(gstep acts groups world ^^ k) gs_init s0" "gstep acts groups world s0 s"
      by auto
    from Suc.IH [OF s0(1)] have IH: "k + ?left s0 \<le> ?left gs_init" "greach acts groups world s0"
      "\<forall>i. \<not> nd_failed (gs_node s0 i)" by simp_all
    have "node_ok (program acts groups) (length groups) i (gs_node s0 i)" for i
      using ginv_reach [OF IH(2) v] by (simp add: ginv_def)
    from step_decreases [OF s0(2) this] IH(1) have "Suc k + ?left s \<le> ?left gs_init" by simp
    moreover have "\<forall>i. \<not> nd_failed (gs_node s i)"
      using s0(2) IH(3) by (cases rule: gstep.cases) (auto split: if_splits)
    ultimately show ?case using greach.step [OF IH(2) s0(2)] by simp
  qed
  then show ?thesis using not_stuck [OF _ v, of s] by auto
qed

end

end
