(* ===== verification/Barrier_Instances.thy ===== *)
theory Barrier_Instances
  imports Barrier_Protocol
begin

text \<open>
  The three algorithms of the code satisfy the contract \<open>barrier_protocol\<close>.  The actions of a member
  are those of \<open>Barrier_Topology\<close>, to which the \<open>run_barrier\<close> functions are equal; a group of fewer
  than two members performs none.
\<close>

definition linear_acts :: "nat list \<Rightarrow> nat \<Rightarrow> action list" where
  "linear_acts g r = (if length g < 2 then [] else linear_actions g r)"

definition tree_acts :: "nat list \<Rightarrow> nat \<Rightarrow> action list" where
  "tree_acts g r =
     (if length g < 2 then []
      else case self_index g r of Ok idx \<Rightarrow> tree_actions g idx | _ \<Rightarrow> [])"

definition dissemination_acts :: "nat list \<Rightarrow> nat \<Rightarrow> action list" where
  "dissemination_acts g r =
     (if length g < 2 then []
      else case self_index g r of Ok idx \<Rightarrow> dissemination_actions g idx | _ \<Rightarrow> [])"

lemma sent_in_whole: "sent_in p (length p) q = sum_list (map (notifications q) p)"
  by (simp add: sent_in_def)

lemma waited_in_whole: "waited_in p (length p) q = sum_list (map (waits q) p)"
  by (simp add: waited_in_def)

lemma sum_notifications_Wait [simp]: "sum_list (map (notifications q) (map Wait xs)) = 0"
  by (induction xs) auto

lemma sum_waits_Wait [simp]: "sum_list (map (waits q) (map Wait xs)) = count_list xs q"
  by (induction xs) auto

lemma sum_notifications_Wait_comp [simp]: "sum_list (map (notifications q \<circ> Wait) xs) = 0"
  by (induction xs) auto

lemma sum_waits_Wait_comp [simp]: "sum_list (map (waits q \<circ> Wait) xs) = count_list xs q"
  by (induction xs) auto

text \<open>A valid group has none, one, or at least two members.\<close>

lemma group_cases:
  obtains "length g < 2" | a xs where "g = a # xs" "xs \<noteq> []"
proof (cases g)
  case Nil
  then show ?thesis using that by simp
next
  case (Cons a xs)
  then show ?thesis using that by (cases "xs = []") auto
qed

lemma small_group_knows:
  "length g < 2 \<Longrightarrow> i \<in> set g \<Longrightarrow> x \<in> set g \<Longrightarrow> knows f i k x"
  by (cases g) (auto intro: knows.self)

section \<open>The centralized barrier\<close>

lemma linear_acts_eq:
  "xs \<noteq> [] \<Longrightarrow> linear_acts (a # xs) i =
     (if i = a then map Wait xs @ [Scatter xs] else [Notify a, Wait a])"
  by (cases xs) (simp_all add: linear_acts_def linear_actions_def)

lemma linear_acts_small: "length g < 2 \<Longrightarrow> linear_acts g i = []"
  by (simp add: linear_acts_def)

lemma linear_wait_pos:
  assumes ne: "xs \<noteq> []"
    and "l < length (linear_acts (a # xs) i)" "linear_acts (a # xs) i ! l = Wait j"
  shows "i = a \<and> l < length xs \<and> j = xs ! l \<or> i \<noteq> a \<and> l = 1 \<and> j = a"
proof (cases "i = a")
  case True
  have "l < length xs"
  proof (rule ccontr)
    assume "\<not> l < length xs"
    with assms(2) True have "l = length xs" by (simp add: linear_acts_eq ne)
    with assms(3) True show False by (simp add: linear_acts_eq ne nth_append)
  qed
  moreover from this have "linear_acts (a # xs) i ! l = Wait (xs ! l)"
    using True by (simp add: linear_acts_eq ne nth_append)
  ultimately show ?thesis using assms(3) True by simp
next
  case False
  with assms show ?thesis by (auto simp: linear_acts_eq ne less_Suc_eq)
qed

lemma linear_sent_pos:
  assumes ne: "xs \<noteq> []"
    and "l < length (linear_acts (a # xs) j)" "i \<in> set (targets (linear_acts (a # xs) j ! l))"
  shows "j = a \<and> l = length xs \<and> i \<in> set xs \<or> j \<noteq> a \<and> l = 0 \<and> i = a"
proof (cases "j = a")
  case True
  have "\<not> l < length xs"
  proof
    assume "l < length xs"
    then have "linear_acts (a # xs) j ! l = Wait (xs ! l)"
      using True by (simp add: linear_acts_eq ne nth_append)
    with assms(3) show False by simp
  qed
  with assms True show ?thesis by (auto simp: linear_acts_eq ne nth_append)
next
  case False
  with assms show ?thesis by (auto simp: linear_acts_eq ne less_Suc_eq)
qed

definition linear_level :: "nat list \<Rightarrow> nat \<Rightarrow> nat \<Rightarrow> nat" where
  "linear_level g i l = (if i = g ! 0 then Suc l else if l = 0 then 0 else Suc (length g))"

lemma linear_wait_at:
  "l < length xs \<Longrightarrow> linear_acts (a # xs) a ! l = Wait (xs ! l)"
  by (cases "xs = []") (simp_all add: linear_acts_eq nth_append)

lemma linear_scatter_at: "xs \<noteq> [] \<Longrightarrow> linear_acts (a # xs) a ! length xs = Scatter xs"
  by (simp add: linear_acts_eq nth_append)

lemma linear_complete:
  assumes ne: "xs \<noteq> []" and g: "distinct (a # xs)" and m: "i \<in> set (a # xs)" "x \<in> set (a # xs)"
  shows "knows (linear_acts (a # xs)) i (length (linear_acts (a # xs) i)) x"
proof -
  let ?f = "linear_acts (a # xs)"
  have leader: "knows ?f a (length xs) y" if "y \<in> set (a # xs)" for y
  proof (cases "y = a")
    case True
    then show ?thesis by (simp add: knows.self)
  next
    case False
    with that obtain l where l: "l < length xs" "xs ! l = y"
      by (auto simp: in_set_conv_nth)
    show ?thesis
      by (rule knows.hear [of l _ ?f a y 0])
        (use l linear_wait_at [OF l(1), of a] False in \<open>simp_all add: linear_acts_eq ne knows.self\<close>)
  qed
  show ?thesis
  proof (cases "i = a")
    case True
    with knows_mono [OF leader [OF m(2)], of "length (?f i)"] show ?thesis
      by (simp add: linear_acts_eq ne)
  next
    case False
    show ?thesis
      by (rule knows.hear [of 1 _ ?f i a "length xs"])
        (use False m leader [OF m(2)] linear_scatter_at [OF ne, of a] in
          \<open>simp_all add: linear_acts_eq ne\<close>)
  qed
qed

interpretation linear_protocol: barrier_protocol linear_acts linear_level
proof
  fix g i j l l' x a
  assume v: "valid_group g" and i: "i \<in> set g"
  then have d: "distinct g" by (simp add: valid_group_def)
  show "a \<in> set (linear_acts g i) \<Longrightarrow> distinct (targets a)"
    by (cases g rule: group_cases)
      (use d in \<open>auto simp: linear_acts_eq linear_acts_small split: if_splits\<close>)
  show "sent_in (linear_acts g i) (length (linear_acts g i)) j \<le> 1"
    by (cases g rule: group_cases)
      (use d in \<open>auto simp: sent_in_whole linear_acts_eq linear_acts_small count_list_distinct\<close>)
  show "waited_in (linear_acts g i) (length (linear_acts g i)) j \<le> 1"
    by (cases g rule: group_cases)
      (use d in \<open>auto simp: waited_in_whole linear_acts_eq linear_acts_small count_list_distinct\<close>)
  show "x \<in> set g \<Longrightarrow> knows (linear_acts g) i (length (linear_acts g i)) x"
    by (cases g rule: group_cases) (use d i in \<open>simp_all add: linear_complete small_group_knows\<close>)
  show "Suc l < length (linear_acts g i) \<Longrightarrow> linear_level g i l < linear_level g i (Suc l)"
    by (cases g rule: group_cases)
      (auto simp: linear_level_def linear_acts_eq linear_acts_small split: if_splits)
  show "j \<in> set g \<and> (\<exists>l' < length (linear_acts g j). i \<in> set (targets (linear_acts g j ! l')))"
    if "l < length (linear_acts g i)" "linear_acts g i ! l = Wait j"
  proof (cases g rule: group_cases)
    case 1
    with that show ?thesis by (simp add: linear_acts_small)
  next
    case (2 a xs)
    from linear_wait_pos [OF 2(2) that [unfolded 2(1)]] show ?thesis
    proof (elim disjE conjE)
      assume c: "i = a" "l < length xs" "j = xs ! l"
      then have "j \<in> set xs" by simp
      with c 2 d show ?thesis by (auto simp: linear_acts_eq intro!: exI [of _ 0])
    next
      assume c: "i \<noteq> a" "l = 1" "j = a"
      with 2 i linear_scatter_at [OF 2(2), of a] show ?thesis
        by (auto simp: linear_acts_eq intro!: exI [of _ "length xs"])
    qed
  qed
  show "j \<in> set g \<and> Wait i \<in> set (linear_acts g j)"
    if "l < length (linear_acts g i)" "j \<in> set (targets (linear_acts g i ! l))"
  proof (cases g rule: group_cases)
    case 1
    with that show ?thesis by (simp add: linear_acts_small)
  next
    case (2 a xs)
    from linear_sent_pos [OF 2(2) that [unfolded 2(1)]] 2 d i show ?thesis
      by (auto simp: linear_acts_eq)
  qed
  show "linear_level g j l' < linear_level g i l"
    if "l < length (linear_acts g i)" "linear_acts g i ! l = Wait j"
      "l' < length (linear_acts g j)" "i \<in> set (targets (linear_acts g j ! l'))"
  proof (cases g rule: group_cases)
    case 1
    with that show ?thesis by (simp add: linear_acts_small)
  next
    case (2 a xs)
    from linear_wait_pos [OF 2(2) that(1,2) [unfolded 2(1)]] linear_sent_pos [OF 2(2) that(3,4) [unfolded 2(1)]] 2 d
    show ?thesis by (auto simp: linear_level_def)
  qed
qed

section \<open>The binary tree barrier\<close>

lemma member_index:
  assumes "valid_group g" "i \<in> set g"
  obtains idx where "idx < length g" "g ! idx = i" "self_index g i = Ok idx"
proof -
  from assms(2) obtain idx where "idx < length g" "g ! idx = i" by (rule nth_the_index)
  with that self_index_nth [of g idx] assms(1) show ?thesis by (auto simp: valid_group_def)
qed

lemma nth_inject:
  "valid_group g \<Longrightarrow> x < length g \<Longrightarrow> y < length g \<Longrightarrow> g ! x = g ! y \<longleftrightarrow> x = y"
  by (simp add: valid_group_def nth_eq_iff_index_eq)

text \<open>The positions of the actions of one node.\<close>

definition num_children :: "nat list \<Rightarrow> nat \<Rightarrow> nat" where
  "num_children g idx = length (child_indices idx (length g))"

lemma num_children_le: "num_children g idx \<le> 2"
  by (simp add: num_children_def child_indices_def)

lemma tree_acts_small: "length g < 2 \<Longrightarrow> tree_acts g i = []"
  by (simp add: tree_acts_def)

lemma tree_acts_root:
  assumes "self_index g i = Ok 0" "2 \<le> length g"
  shows "tree_acts g i =
     map (\<lambda>c. Wait (g ! c)) (child_indices 0 (length g)) @
     [Scatter (map (\<lambda>c. g ! c) (child_indices 0 (length g)))]"
  using assms by (simp add: tree_acts_def tree_actions_def parent_index_def Let_def)

lemma tree_acts_inner:
  assumes "self_index g i = Ok idx" "2 \<le> length g" "parent_index idx = Some p"
  shows "tree_acts g i =
     map (\<lambda>c. Wait (g ! c)) (child_indices idx (length g)) @
     [Notify (g ! p), Wait (g ! p), Scatter (map (\<lambda>c. g ! c) (child_indices idx (length g)))]"
  using assms by (simp add: tree_acts_def tree_actions_def Let_def)

lemma parent_cases:
  obtains "idx = 0" "parent_index idx = None" | p where "parent_index idx = Some p" "0 < idx" "p < idx"
proof (cases "idx = 0")
  case True
  then show ?thesis using that by (simp add: parent_index_def)
next
  case False
  then have "parent_index idx = Some ((idx - 1) div 2)" by (simp add: parent_index_def)
  with that parent_less [OF this] False show ?thesis by blast
qed

lemma tree_length:
  assumes "self_index g i = Ok idx" "2 \<le> length g"
  shows "length (tree_acts g i) = num_children g idx + (if idx = 0 then 1 else 3)"
proof (cases rule: parent_cases [of idx])
  case 1
  with assms show ?thesis by (simp add: tree_acts_root num_children_def)
next
  case (2 p)
  with tree_acts_inner [OF assms 2(1)] show ?thesis by (simp add: num_children_def)
qed

lemma tree_child_wait:
  assumes "self_index g i = Ok idx" "2 \<le> length g" "l < num_children g idx"
  shows "tree_acts g i ! l = Wait (g ! (child_indices idx (length g) ! l))"
proof (cases rule: parent_cases [of idx])
  case 1
  with assms tree_acts_root [of g i] show ?thesis by (simp add: num_children_def nth_append)
next
  case (2 p)
  with assms tree_acts_inner [OF assms(1,2) 2(1)] show ?thesis
    by (simp add: num_children_def nth_append)
qed

lemma tree_parent_actions:
  assumes "self_index g i = Ok idx" "2 \<le> length g" "parent_index idx = Some p"
  shows "tree_acts g i ! num_children g idx = Notify (g ! p)"
    and "tree_acts g i ! Suc (num_children g idx) = Wait (g ! p)"
  using tree_acts_inner [OF assms] by (simp_all add: num_children_def nth_append)

lemma tree_last:
  assumes "self_index g i = Ok idx" "2 \<le> length g"
  shows "tree_acts g i ! (length (tree_acts g i) - 1) =
           Scatter (map (\<lambda>c. g ! c) (child_indices idx (length g)))"
proof (cases rule: parent_cases [of idx])
  case 1
  with assms tree_acts_root [of g i] show ?thesis by (simp add: nth_append)
next
  case (2 p)
  with tree_acts_inner [OF assms 2(1)] show ?thesis by (simp add: nth_append)
qed

lemma tree_positions:
  assumes i: "self_index g i = Ok idx" "2 \<le> length g" and l: "l < length (tree_acts g i)"
  obtains "l < num_children g idx" "tree_acts g i ! l = Wait (g ! (child_indices idx (length g) ! l))"
  | p where "parent_index idx = Some p" "0 < idx" "l = num_children g idx" "tree_acts g i ! l = Notify (g ! p)"
  | p where "parent_index idx = Some p" "0 < idx" "l = Suc (num_children g idx)"
      "tree_acts g i ! l = Wait (g ! p)"
  | "l = length (tree_acts g i) - 1"
      "tree_acts g i ! l = Scatter (map (\<lambda>c. g ! c) (child_indices idx (length g)))"
proof -
  note len = tree_length [OF i]
  consider "l < num_children g idx" | "idx \<noteq> 0" "l = num_children g idx"
    | "idx \<noteq> 0" "l = Suc (num_children g idx)" | "l = length (tree_acts g i) - 1"
    using l len by (cases "idx = 0") (simp_all, linarith+)
  then show ?thesis
  proof cases
    case 1
    with that(1) tree_child_wait [OF i] show ?thesis by blast
  next
    case 2
    then obtain p where p: "parent_index idx = Some p" by (auto simp: parent_index_def)
    with 2 tree_parent_actions [OF i p] show ?thesis by (intro that(2) [OF p]) auto
  next
    case 3
    then obtain p where p: "parent_index idx = Some p" by (auto simp: parent_index_def)
    with 3 tree_parent_actions [OF i p] show ?thesis by (intro that(3) [OF p]) auto
  next
    case 4
    with that(4) tree_last [OF i] show ?thesis by blast
  qed
qed

lemma tree_wait_pos:
  assumes "self_index g i = Ok idx" "2 \<le> length g" "l < length (tree_acts g i)" "tree_acts g i ! l = Wait j"
  obtains c where "l < num_children g idx" "c < length g" "parent_index c = Some idx" "j = g ! c"
      "c = child_indices idx (length g) ! l"
  | p where "parent_index idx = Some p" "0 < idx" "l = Suc (num_children g idx)" "j = g ! p"
proof (cases rule: tree_positions [OF assms(1-3)])
  case 1
  let ?c = "child_indices idx (length g) ! l"
  have "?c \<in> set (child_indices idx (length g))" using 1 by (simp add: num_children_def)
  with 1 assms(4) show ?thesis by (intro that(1) [of ?c]) (simp_all add: child_iff_parent)
next
  case (3 p)
  with assms(4) show ?thesis by (intro that(2) [of p]) auto
qed (use assms(4) in auto)

lemma tree_sent_pos:
  assumes "self_index g i = Ok idx" "2 \<le> length g" "l < length (tree_acts g i)"
    and "q \<in> set (targets (tree_acts g i ! l))"
  obtains p where "parent_index idx = Some p" "0 < idx" "l = num_children g idx" "q = g ! p"
  | c where "l = length (tree_acts g i) - 1" "c < length g" "parent_index c = Some idx" "q = g ! c"
proof (cases rule: tree_positions [OF assms(1-3)])
  case 4
  with assms(4) obtain c where "c \<in> set (child_indices idx (length g))" "q = g ! c" by auto
  with 4 show ?thesis by (intro that(2) [of c]) (simp_all add: child_iff_parent)
next
  case (2 p)
  with assms(4) show ?thesis by (intro that(1) [of p]) auto
qed (use assms(4) in auto)

lemma tree_counts:
  assumes v: "valid_group g" and i: "self_index g i = Ok idx" "2 \<le> length g" "idx < length g"
  shows "sum_list (map (notifications q) (tree_acts g i)) \<le> 1"
    and "sum_list (map (waits q) (tree_acts g i)) \<le> 1"
proof -
  let ?ch = "map (\<lambda>c. g ! c) (child_indices idx (length g))"
  have "inj_on (\<lambda>c. g ! c) (set (child_indices idx (length g)))"
    by (rule inj_onI) (use nth_inject [OF v] in \<open>auto simp: set_child_indices\<close>)
  then have d: "distinct ?ch" by (simp add: distinct_map distinct_child_indices)
  have w: "map (\<lambda>c. Wait (g ! c)) xs = map Wait (map (\<lambda>c. g ! c) xs)" for xs by simp
  have "sum_list (map (notifications q) (tree_acts g i)) \<le> 1 \<and>
        sum_list (map (waits q) (tree_acts g i)) \<le> 1"
  proof (cases rule: parent_cases [of idx])
    case 1
    with i d show ?thesis
      unfolding tree_acts_root [OF i(1) [unfolded 1(1)] i(2)] w
      by (simp add: count_list_distinct del: map_map)
  next
    case (2 p)
    have "g ! p \<notin> set ?ch"
    proof
      assume "g ! p \<in> set ?ch"
      then obtain c where "c \<in> set (child_indices idx (length g))" "g ! p = g ! c" by auto
      with nth_inject [OF v, of p c] 2 i(3) parent_less [of c idx] show False
        by (auto simp: child_iff_parent)
    qed
    with d show ?thesis
      unfolding tree_acts_inner [OF i(1,2) 2(1)] w
      by (auto simp: count_list_distinct simp del: map_map)
  qed
  then show "sum_list (map (notifications q) (tree_acts g i)) \<le> 1"
    and "sum_list (map (waits q) (tree_acts g i)) \<le> 1" by simp_all
qed

text \<open>First the root hears from everyone, then everyone hears from its parent.\<close>

lemma tree_up:
  assumes v: "valid_group g" "2 \<le> length g"
  shows "idx < length g \<Longrightarrow> knows (tree_acts g) (g ! idx) (num_children g idx) x \<Longrightarrow>
           knows (tree_acts g) (g ! 0) (num_children g 0) x"
proof (induction idx rule: less_induct)
  case (less idx)
  have si: "self_index g (g ! y) = Ok y" if "y < length g" for y
    using v(1) that by (simp add: self_index_nth valid_group_def)
  show ?case
  proof (cases rule: parent_cases [of idx])
    case 1
    with less.prems show ?thesis by simp
  next
    case (2 p)
    have "idx \<in> set (child_indices p (length g))" using 2 less.prems by (simp add: child_iff_parent)
    then obtain l where l: "l < num_children g p" "child_indices p (length g) ! l = idx"
      by (auto simp: in_set_conv_nth num_children_def)
    have p: "p < length g" using 2 less.prems by simp
    have "knows (tree_acts g) (g ! p) (num_children g p) x"
      by (rule knows.hear [of l _ _ _ "g ! idx" "num_children g idx"])
        (use l less.prems 2 tree_child_wait [OF si [OF p] v(2) l(1)] tree_length [OF si [OF p] v(2)]
          tree_length [OF si [OF less.prems(1)] v(2)]
          tree_parent_actions [OF si [OF less.prems(1)] v(2) 2(1)] in simp_all)
    with less.IH [OF 2(3) p] show ?thesis by blast
  qed
qed

lemma tree_down:
  assumes v: "valid_group g" "2 \<le> length g" and x: "x \<in> set g"
  shows "idx < length g \<Longrightarrow> knows (tree_acts g) (g ! idx) (length (tree_acts g (g ! idx)) - 1) x"
proof (induction idx rule: less_induct)
  case (less idx)
  have si: "self_index g (g ! y) = Ok y" if "y < length g" for y
    using v(1) that by (simp add: self_index_nth valid_group_def)
  show ?case
  proof (cases rule: parent_cases [of idx])
    case 1
    from x obtain y where "y < length g" "g ! y = x" by (rule nth_the_index)
    with tree_up [OF v, of y x] have "knows (tree_acts g) (g ! 0) (num_children g 0) x"
      by (auto intro: knows.self)
    with 1 tree_length [OF si [OF less.prems] v(2)] show ?thesis by simp
  next
    case (2 p)
    have p: "p < length g" using 2 less.prems by simp
    have "idx \<in> set (child_indices p (length g))" using 2 less.prems by (simp add: child_iff_parent)
    then have t: "g ! idx \<in> set (targets (tree_acts g (g ! p) ! (length (tree_acts g (g ! p)) - 1)))"
      unfolding tree_last [OF si [OF p] v(2)] by simp
    show ?thesis
      by (rule knows.hear [OF _ _ _ _ t less.IH [OF 2(3) p], of "Suc (num_children g idx)"])
        (use 2 tree_length [OF si [OF less.prems] v(2)] tree_length [OF si [OF p] v(2)]
          tree_parent_actions [OF si [OF less.prems] v(2) 2(1)] in \<open>simp_all split: if_splits\<close>)
  qed
qed

definition tree_level :: "nat list \<Rightarrow> nat \<Rightarrow> nat \<Rightarrow> nat" where
  "tree_level g i l =
     (case self_index g i of
        Ok idx \<Rightarrow>
          (let n = length g; c = num_children g idx in
           if l < c then 3 * (n - idx) + l
           else if 0 < idx \<and> l = c then 3 * (n - idx) + 2
           else if 0 < idx \<and> l = Suc c then 3 * n + 4 + 2 * idx
           else 3 * n + 5 + 2 * idx)
      | _ \<Rightarrow> 0)"

text \<open>The obligations of the contract, for groups of at least two.\<close>

lemma tree_wait_matched:
  assumes v: "valid_group g" "2 \<le> length g" "i \<in> set g"
    and l: "l < length (tree_acts g i)" "tree_acts g i ! l = Wait j"
  shows "j \<in> set g \<and> (\<exists>l' < length (tree_acts g j). i \<in> set (targets (tree_acts g j ! l')))"
proof -
  obtain idx where idx: "idx < length g" "g ! idx = i" "self_index g i = Ok idx"
    using v(1,3) by (rule member_index)
  have si: "self_index g (g ! y) = Ok y" if "y < length g" for y
    using v(1) that by (simp add: self_index_nth valid_group_def)
  show ?thesis
  proof (cases rule: tree_wait_pos [OF idx(3) v(2) l])
    case (1 c)
    note act = tree_parent_actions(1) [OF si [OF 1(2)] v(2) 1(3)]
    have "num_children g c < length (tree_acts g (g ! c))"
      using tree_length [OF si [OF 1(2)] v(2)] by simp
    with act 1 idx show ?thesis by (auto intro!: exI [of _ "num_children g c"])
  next
    case (2 p)
    then have p: "p < length g" using idx(1) parent_less by fastforce
    have "idx \<in> set (child_indices p (length g))" using 2 idx(1) by (simp add: child_iff_parent)
    then have "i \<in> set (targets (tree_acts g j ! (length (tree_acts g j) - 1)))"
      using tree_last [OF si [OF p] v(2)] idx(2) 2 by auto
    moreover have "length (tree_acts g j) - 1 < length (tree_acts g j)"
      using tree_length [OF si [OF p] v(2)] 2 by simp
    ultimately show ?thesis using p 2 by auto
  qed
qed

lemma tree_sent_matched:
  assumes v: "valid_group g" "2 \<le> length g" "i \<in> set g"
    and l: "l < length (tree_acts g i)" "q \<in> set (targets (tree_acts g i ! l))"
  shows "q \<in> set g \<and> Wait i \<in> set (tree_acts g q)"
proof -
  obtain idx where idx: "idx < length g" "g ! idx = i" "self_index g i = Ok idx"
    using v(1,3) by (rule member_index)
  have si: "self_index g (g ! y) = Ok y" if "y < length g" for y
    using v(1) that by (simp add: self_index_nth valid_group_def)
  show ?thesis
  proof (cases rule: tree_sent_pos [OF idx(3) v(2) l])
    case (1 p)
    then have p: "p < length g" using idx(1) parent_less by fastforce
    have "idx \<in> set (child_indices p (length g))" using 1 idx(1) by (simp add: child_iff_parent)
    then obtain m where m: "m < num_children g p" "child_indices p (length g) ! m = idx"
      by (auto simp: in_set_conv_nth num_children_def)
    have "tree_acts g q ! m = Wait i"
      using tree_child_wait [OF si [OF p] v(2) m(1)] m(2) idx(2) 1 by simp
    moreover have "m < length (tree_acts g q)"
      using tree_length [OF si [OF p] v(2)] m(1) 1 by simp
    ultimately show ?thesis using p 1 nth_mem by metis
  next
    case (2 c)
    have "tree_acts g q ! Suc (num_children g c) = Wait i"
      using tree_parent_actions(2) [OF si [OF 2(2)] v(2) 2(3)] 2 idx(2) by simp
    moreover have "Suc (num_children g c) < length (tree_acts g q)"
      using tree_length [OF si [OF 2(2)] v(2)] 2 parent_less [OF 2(3)] by simp
    ultimately show ?thesis using 2 nth_mem by metis
  qed
qed

lemma tree_level_next:
  assumes v: "valid_group g" "2 \<le> length g" "i \<in> set g" and l: "Suc l < length (tree_acts g i)"
  shows "tree_level g i l < tree_level g i (Suc l)"
proof -
  obtain idx where idx: "idx < length g" "g ! idx = i" "self_index g i = Ok idx"
    using v(1,3) by (rule member_index)
  show ?thesis
    using l tree_length [OF idx(3) v(2)] num_children_le [of g idx] idx
    by (cases "idx = 0") (auto simp: tree_level_def Let_def)
qed

lemma tree_level_wait:
  assumes v: "valid_group g" "2 \<le> length g" "i \<in> set g"
    and l: "l < length (tree_acts g i)" "tree_acts g i ! l = Wait j"
    and l': "l' < length (tree_acts g j)" "i \<in> set (targets (tree_acts g j ! l'))"
  shows "tree_level g j l' < tree_level g i l"
proof -
  obtain idx where idx: "idx < length g" "g ! idx = i" "self_index g i = Ok idx"
    using v(1,3) by (rule member_index)
  have si: "self_index g (g ! y) = Ok y" if "y < length g" for y
    using v(1) that by (simp add: self_index_nth valid_group_def)
  show ?thesis
  proof (cases rule: tree_wait_pos [OF idx(3) v(2) l])
    case (1 c)
    have cs: "self_index g j = Ok c" using si 1 by simp
    have cc: "idx < c" using 1 parent_less by blast
    from tree_sent_pos [OF cs v(2) l'] have "l' = num_children g c"
    proof cases
      case (2 d)
      then have "d = idx" using nth_inject [OF v(1)] idx by metis
      with 2 parent_less [of idx c] cc show ?thesis by simp
    qed simp
    then have "tree_level g j l' = 3 * (length g - c) + 2"
      using cs cc by (simp add: tree_level_def Let_def)
    moreover have "tree_level g i l = 3 * (length g - idx) + l"
      using idx(3) 1 by (simp add: tree_level_def Let_def)
    ultimately show ?thesis using cc 1(2) by linarith
  next
    case (2 p)
    then have p: "p < idx" using parent_less by blast
    have ps: "self_index g j = Ok p" using si 2 p idx(1) by simp
    have "l' = length (tree_acts g j) - 1"
      using tree_sent_pos [OF ps v(2) l']
    proof cases
      case (1 r)
      then have "r = idx" using nth_inject [OF v(1), of r idx] parent_less [of p r] p idx by auto
      with 1 parent_less [of p r] p show ?thesis by simp
    qed simp
    then have "tree_level g j l' = 3 * length g + 5 + 2 * p"
      using ps tree_length [OF ps v(2)] by (auto simp: tree_level_def Let_def)
    moreover have "tree_level g i l = 3 * length g + 4 + 2 * idx"
      using idx(3) 2 by (simp add: tree_level_def Let_def)
    ultimately show ?thesis using p by linarith
  qed
qed

interpretation tree_protocol: barrier_protocol tree_acts tree_level
proof
  fix g i j l l' x a
  assume v: "valid_group g" and i: "i \<in> set g"
  consider (small) "length g < 2" | (big) "2 \<le> length g" by linarith
  note size = this
  obtain idx where idx: "idx < length g" "g ! idx = i" "self_index g i = Ok idx"
    using v i by (rule member_index)
  show "sent_in (tree_acts g i) (length (tree_acts g i)) j \<le> 1"
    using size tree_counts(1) [OF v idx(3) _ idx(1), of j]
    by cases (simp_all add: tree_acts_small sent_in_whole)
  show "waited_in (tree_acts g i) (length (tree_acts g i)) j \<le> 1"
    using size tree_counts(2) [OF v idx(3) _ idx(1), of j]
    by cases (simp_all add: tree_acts_small waited_in_whole)
  show "distinct (targets a)" if "a \<in> set (tree_acts g i)"
    using size
  proof cases
    case big
    from that obtain m where m: "m < length (tree_acts g i)" "tree_acts g i ! m = a"
      by (auto simp: in_set_conv_nth)
    have "inj_on (\<lambda>c. g ! c) (set (child_indices idx (length g)))"
      by (rule inj_onI) (use nth_inject [OF v] in \<open>auto simp: set_child_indices\<close>)
    then have d: "distinct (map (\<lambda>c. g ! c) (child_indices idx (length g)))"
      by (simp add: distinct_map distinct_child_indices)
    have "distinct (targets (tree_acts g i ! m))"
      by (cases rule: tree_positions [OF idx(3) big m(1)]) (use d in simp_all)
    with m(2) show ?thesis by simp
  qed (use that in \<open>simp add: tree_acts_small\<close>)
  show "knows (tree_acts g) i (length (tree_acts g i)) x" if "x \<in> set g"
    using size
  proof cases
    case big
    from knows_mono [OF tree_down [OF v big that idx(1)], of "length (tree_acts g i)"] idx(2)
    show ?thesis by simp
  qed (use that i in \<open>simp add: small_group_knows\<close>)
  show "Suc l < length (tree_acts g i) \<Longrightarrow> tree_level g i l < tree_level g i (Suc l)"
    using size tree_level_next [OF v _ i] by cases (simp_all add: tree_acts_small)
  show "l < length (tree_acts g i) \<Longrightarrow> tree_acts g i ! l = Wait j \<Longrightarrow>
      j \<in> set g \<and> (\<exists>l' < length (tree_acts g j). i \<in> set (targets (tree_acts g j ! l')))"
    using size tree_wait_matched [OF v _ i] by cases (simp_all add: tree_acts_small)
  show "l < length (tree_acts g i) \<Longrightarrow> j \<in> set (targets (tree_acts g i ! l)) \<Longrightarrow>
      j \<in> set g \<and> Wait i \<in> set (tree_acts g j)"
    using size tree_sent_matched [OF v _ i] by cases (simp_all add: tree_acts_small)
  show "l < length (tree_acts g i) \<Longrightarrow> tree_acts g i ! l = Wait j \<Longrightarrow> l' < length (tree_acts g j) \<Longrightarrow>
      i \<in> set (targets (tree_acts g j ! l')) \<Longrightarrow> tree_level g j l' < tree_level g i l"
    using size tree_level_wait [OF v _ i] by cases (simp_all add: tree_acts_small)
qed

section \<open>The dissemination barrier\<close>

lemma diss_acts_small: "length g < 2 \<Longrightarrow> dissemination_acts g i = []"
  by (simp add: dissemination_acts_def)

lemma length_pair_list: "length (concat (map (\<lambda>x. [a x, b x]) xs)) = 2 * length xs"
  by (induction xs) auto

lemma nth_pair_list:
  "r < length xs \<Longrightarrow> concat (map (\<lambda>x. [a x, b x]) xs) ! (2 * r) = a (xs ! r) \<and>
     concat (map (\<lambda>x. [a x, b x]) xs) ! Suc (2 * r) = b (xs ! r)"
proof (induction xs arbitrary: r)
  case Nil
  then show ?case by simp
next
  case (Cons x xs)
  then show ?case by (cases r) simp_all
qed

definition right_of :: "nat \<Rightarrow> nat \<Rightarrow> nat \<Rightarrow> nat" where
  "right_of n idx r = (idx + 2 ^ r) mod n"

definition left_of :: "nat \<Rightarrow> nat \<Rightarrow> nat \<Rightarrow> nat" where
  "left_of n idx r = (idx + n - 2 ^ r) mod n"

lemma diss_acts_eq:
  assumes "self_index g i = Ok idx" "2 \<le> length g"
  shows "dissemination_acts g i =
     concat (map (\<lambda>rl. [Notify (g ! fst rl), Wait (g ! snd rl)]) (round_pairs idx (length g)))"
  using assms by (simp add: dissemination_acts_def dissemination_actions_def)

lemma diss_length:
  "self_index g i = Ok idx \<Longrightarrow> 2 \<le> length g \<Longrightarrow>
     length (dissemination_acts g i) = 2 * num_rounds (length g)"
  by (simp add: diss_acts_eq length_pair_list length_round_pairs)

lemma diss_nth:
  assumes "self_index g i = Ok idx" "2 \<le> length g" "length g \<le> 2 ^ 63" "r < num_rounds (length g)"
  shows "dissemination_acts g i ! (2 * r) = Notify (g ! right_of (length g) idx r)"
    and "dissemination_acts g i ! Suc (2 * r) = Wait (g ! left_of (length g) idx r)"
  using assms
  by (simp_all add: diss_acts_eq nth_pair_list length_round_pairs round_pairs_nth right_of_def
      left_of_def)

lemma right_left:
  assumes "idx < n" "n \<le> 2 ^ 63" "r < num_rounds n"
  shows "right_of n (left_of n idx r) r = idx" "left_of n (right_of n idx r) r = idx"
    and "right_of n idx r < n" "left_of n idx r < n"
  using assms round_distances_powers(3) [OF assms(2,3)]
  by (simp_all add: right_of_def left_of_def mod_back)

lemma right_of_inj:
  assumes "n \<le> 2 ^ 63" "r < num_rounds n" "s < num_rounds n" "right_of n idx r = right_of n idx s"
  shows "r = s"
proof -
  have "(2 :: nat) ^ r = 2 ^ s"
    by (rule shift_right_inj [OF round_distances_powers(3) [OF assms(1,2)]
        round_distances_powers(3) [OF assms(1,3)] assms(4) [unfolded right_of_def]])
  then show ?thesis by simp
qed

lemma left_of_inj:
  assumes "idx < n" "n \<le> 2 ^ 63" "r < num_rounds n" "s < num_rounds n" "left_of n idx r = left_of n idx s"
  shows "r = s"
proof (rule right_of_inj [OF assms(2-4), of "left_of n idx r"])
  show "right_of n (left_of n idx r) r = right_of n (left_of n idx r) s"
    using right_left(1) [OF assms(1,2,3)] right_left(1) [OF assms(1,2,4)] assms(5) by simp
qed

lemma diss_pos:
  assumes "self_index g i = Ok idx" "2 \<le> length g" "length g \<le> 2 ^ 63"
    and "l < length (dissemination_acts g i)"
  obtains r where "r < num_rounds (length g)" "l = 2 * r"
      "dissemination_acts g i ! l = Notify (g ! right_of (length g) idx r)"
  | r where "r < num_rounds (length g)" "l = Suc (2 * r)"
      "dissemination_acts g i ! l = Wait (g ! left_of (length g) idx r)"
proof (cases "even l")
  case True
  then obtain r where r: "l = 2 * r" by (elim evenE)
  with assms(4) diss_length [OF assms(1,2)] have "r < num_rounds (length g)" by simp
  with that(1) [OF this r] diss_nth(1) [OF assms(1-3) this] r show ?thesis by simp
next
  case False
  then obtain r where r: "l = Suc (2 * r)" by (metis oddE Suc_eq_plus1)
  with assms(4) diss_length [OF assms(1,2)] have "r < num_rounds (length g)" by simp
  with that(2) [OF this r] diss_nth(2) [OF assms(1-3) this] r show ?thesis by simp
qed

lemma sum_pair_list:
  "sum_list (map f (concat (map (\<lambda>x. [a x, b x]) xs))) =
     sum_list (map (\<lambda>x. f (a x) + f (b x)) xs)" for f :: "action \<Rightarrow> nat"
  by (induction xs) auto

lemma sum_count: "sum_list (map (\<lambda>x. if h x = q then 1 else 0) xs) = count_list (map h xs) q"
  by (induction xs) auto

lemma diss_counts:
  assumes v: "valid_group g" and i: "self_index g i = Ok idx" "2 \<le> length g" "idx < length g"
  shows "sum_list (map (notifications q) (dissemination_acts g i)) \<le> 1"
    and "sum_list (map (waits q) (dissemination_acts g i)) \<le> 1"
proof -
  let ?n = "length g" and ?ps = "round_pairs idx (length g)"
  have n: "?n \<le> 2 ^ 63" using v by (simp add: valid_group_def)
  have fst_nth: "fst (?ps ! r) = right_of ?n idx r" "snd (?ps ! r) = left_of ?n idx r"
    if "r < num_rounds ?n" for r
    using round_pairs_nth [OF n that] by (simp_all add: right_of_def left_of_def)
  have "distinct (map (\<lambda>rl. g ! fst rl) ?ps)"
  proof (rule distinct_conv_nth [THEN iffD2], intro allI impI)
    fix r s
    assume rs: "r < length (map (\<lambda>rl. g ! fst rl) ?ps)" "s < length (map (\<lambda>rl. g ! fst rl) ?ps)" "r \<noteq> s"
    then have b: "r < num_rounds ?n" "s < num_rounds ?n" by (simp_all add: length_round_pairs)
    then show "map (\<lambda>rl. g ! fst rl) ?ps ! r \<noteq> map (\<lambda>rl. g ! fst rl) ?ps ! s"
      using right_of_inj [OF n b, of idx] rs(3)
        nth_inject [OF v right_left(3) [OF i(3) n b(1)] right_left(3) [OF i(3) n b(2)]]
      by (auto simp: fst_nth length_round_pairs)
  qed
  moreover have "distinct (map (\<lambda>rl. g ! snd rl) ?ps)"
  proof (rule distinct_conv_nth [THEN iffD2], intro allI impI)
    fix r s
    assume rs: "r < length (map (\<lambda>rl. g ! snd rl) ?ps)" "s < length (map (\<lambda>rl. g ! snd rl) ?ps)" "r \<noteq> s"
    then have b: "r < num_rounds ?n" "s < num_rounds ?n" by (simp_all add: length_round_pairs)
    then show "map (\<lambda>rl. g ! snd rl) ?ps ! r \<noteq> map (\<lambda>rl. g ! snd rl) ?ps ! s"
      using left_of_inj [OF i(3) n b] rs(3)
        nth_inject [OF v right_left(4) [OF i(3) n b(1)] right_left(4) [OF i(3) n b(2)]]
      by (auto simp: fst_nth length_round_pairs)
  qed
  ultimately show "sum_list (map (notifications q) (dissemination_acts g i)) \<le> 1"
    and "sum_list (map (waits q) (dissemination_acts g i)) \<le> 1"
    unfolding diss_acts_eq [OF i(1,2)] sum_pair_list
    by (simp_all add: sum_count count_list_distinct)
qed

text \<open>After \<open>r\<close> rounds a node knows of the \<open>2 ^ r\<close> nodes up to itself.\<close>

lemma diss_knows:
  assumes v: "valid_group g" "2 \<le> length g"
  shows "r \<le> num_rounds (length g) \<Longrightarrow> idx < length g \<Longrightarrow> d < 2 ^ r \<Longrightarrow> d < length g \<Longrightarrow>
     knows (dissemination_acts g) (g ! idx) (2 * r) (g ! ((idx + length g - d) mod length g))"
proof (induction r arbitrary: idx d)
  case 0
  then show ?case by (simp add: knows.self)
next
  case (Suc r)
  let ?n = "length g" and ?f = "dissemination_acts g"
  have n: "?n \<le> 2 ^ 63" using v by (simp add: valid_group_def)
  have r: "r < num_rounds ?n" using Suc.prems by simp
  have si: "self_index g (g ! y) = Ok y" if "y < ?n" for y
    using v(1) that by (simp add: self_index_nth valid_group_def)
  show ?case
  proof (cases "d < 2 ^ r")
    case True
    with Suc.IH [of idx d] Suc.prems r show ?thesis
      by (auto intro: knows_mono)
  next
    case False
    define j where "j = left_of ?n idx r"
    have j: "j < ?n" "right_of ?n j r = idx"
      using right_left [OF Suc.prems(2) n r] by (simp_all add: j_def)
    define e where "e = d - 2 ^ r"
    have e: "e < 2 ^ r" "e < ?n" "d = 2 ^ r + e" using False Suc.prems by (auto simp: e_def)
    have k: "knows ?f (g ! j) (2 * r) (g ! ((j + ?n - e) mod ?n))"
      using Suc.IH [of j e] r j e by simp
    have "(j + ?n - e) mod ?n = (idx + ?n - d) mod ?n"
    proof -
      have "(j + ?n - e) mod ?n = (j + (?n - e)) mod ?n" using e by simp
      also have "\<dots> = (idx + ?n - 2 ^ r + (?n - e)) mod ?n"
        unfolding j_def left_of_def by (rule mod_add_left_eq)
      also have "idx + ?n - 2 ^ r + (?n - e) = (idx + ?n - d) + ?n"
        using e Suc.prems by simp
      finally show ?thesis by simp
    qed
    with k have k': "knows ?f (g ! j) (2 * r) (g ! ((idx + ?n - d) mod ?n))" by simp
    have w: "?f (g ! idx) ! Suc (2 * r) = Wait (g ! j)"
      using diss_nth(2) [OF si [OF Suc.prems(2)] v(2) n r] by (simp add: j_def)
    have t: "g ! idx \<in> set (targets (?f (g ! j) ! (2 * r)))"
      using diss_nth(1) [OF si [OF j(1)] v(2) n r] j(2) by simp
    show ?thesis
      by (rule knows.hear [OF _ _ w _ t k'])
        (use r diss_length [OF si [OF Suc.prems(2)] v(2)] diss_length [OF si [OF j(1)] v(2)] in simp_all)
  qed
qed

lemma diss_complete:
  assumes v: "valid_group g" "2 \<le> length g" and m: "i \<in> set g" "x \<in> set g"
  shows "knows (dissemination_acts g) i (length (dissemination_acts g i)) x"
proof -
  let ?n = "length g"
  obtain idx where idx: "idx < ?n" "g ! idx = i" "self_index g i = Ok idx"
    using v(1) m(1) by (rule member_index)
  obtain y where y: "y < ?n" "g ! y = x" using m(2) by (rule nth_the_index)
  have n: "?n \<le> 2 ^ 63" using v by (simp add: valid_group_def)
  define d where "d = (idx + ?n - y) mod ?n"
  have d: "d < ?n" unfolding d_def using v(2) by (intro mod_less_divisor) linarith
  then have "d < 2 ^ num_rounds ?n"
    using round_distances_powers(2) [OF n] by linarith
  from diss_knows [OF v le_refl idx(1) this d] have
    "knows (dissemination_acts g) i (2 * num_rounds ?n) (g ! ((idx + ?n - d) mod ?n))"
    by (simp add: idx(2))
  moreover have "(idx + ?n - d) mod ?n = y"
  proof (cases "y \<le> idx")
    case True
    then have "idx + ?n - y = (idx - y) + ?n" by linarith
    then have "d = idx - y" unfolding d_def using idx(1) by (simp only: mod_add_self2) simp
    then have "idx + ?n - d = y + ?n" using True by linarith
    then show ?thesis using y(1) by (simp only: mod_add_self2) simp
  next
    case False
    then have "d = idx + ?n - y" unfolding d_def using idx(1) y(1) by (intro mod_less) linarith
    then have "idx + ?n - d = y" using y(1) by linarith
    then show ?thesis using y(1) by simp
  qed
  ultimately show ?thesis using y(2) diss_length [OF idx(3) v(2)] by simp
qed

definition diss_level :: "nat list \<Rightarrow> nat \<Rightarrow> nat \<Rightarrow> nat" where
  "diss_level g i l = l"

interpretation dissemination_protocol: barrier_protocol dissemination_acts diss_level
proof
  fix g i j l l' x a
  assume v: "valid_group g" and i: "i \<in> set g"
  consider (small) "length g < 2" | (big) "2 \<le> length g" by linarith
  note size = this
  obtain idx where idx: "idx < length g" "g ! idx = i" "self_index g i = Ok idx"
    using v i by (rule member_index)
  have n: "length g \<le> 2 ^ 63" using v by (simp add: valid_group_def)
  have si: "self_index g (g ! y) = Ok y" if "y < length g" for y
    using v that by (simp add: self_index_nth valid_group_def)
  show "sent_in (dissemination_acts g i) (length (dissemination_acts g i)) j \<le> 1"
    using size diss_counts(1) [OF v idx(3) _ idx(1), of j]
    by cases (simp_all add: diss_acts_small sent_in_whole)
  show "waited_in (dissemination_acts g i) (length (dissemination_acts g i)) j \<le> 1"
    using size diss_counts(2) [OF v idx(3) _ idx(1), of j]
    by cases (simp_all add: diss_acts_small waited_in_whole)
  show "distinct (targets a)" if "a \<in> set (dissemination_acts g i)"
    using size that
    by cases (auto simp: diss_acts_small diss_acts_eq [OF idx(3)])
  show "knows (dissemination_acts g) i (length (dissemination_acts g i)) x" if "x \<in> set g"
    using size by cases (use that i v in \<open>simp_all add: small_group_knows diss_complete\<close>)
  show "Suc l < length (dissemination_acts g i) \<Longrightarrow> diss_level g i l < diss_level g i (Suc l)"
    by (simp add: diss_level_def)
  show "j \<in> set g \<and> (\<exists>l' < length (dissemination_acts g j).
      i \<in> set (targets (dissemination_acts g j ! l')))"
    if "l < length (dissemination_acts g i)" "dissemination_acts g i ! l = Wait j"
    using size
  proof cases
    case big
    from diss_pos [OF idx(3) big n that(1)] that(2) obtain r where
      r: "r < num_rounds (length g)" "j = g ! left_of (length g) idx r" by cases auto
    note rl = right_left [OF idx(1) n r(1)]
    have "i \<in> set (targets (dissemination_acts g j ! (2 * r)))"
      using diss_nth(1) [OF si [OF rl(4)] big n r(1)] rl(1) idx(2) r(2) by simp
    moreover have "2 * r < length (dissemination_acts g j)"
      using diss_length [OF si [OF rl(4)] big] r by simp
    ultimately show ?thesis using rl(4) r(2) by auto
  qed (use that in \<open>simp add: diss_acts_small\<close>)
  show "j \<in> set g \<and> Wait i \<in> set (dissemination_acts g j)"
    if "l < length (dissemination_acts g i)" "j \<in> set (targets (dissemination_acts g i ! l))"
    using size
  proof cases
    case big
    from diss_pos [OF idx(3) big n that(1)] that(2) obtain r where
      r: "r < num_rounds (length g)" "j = g ! right_of (length g) idx r" by cases auto
    note rl = right_left [OF idx(1) n r(1)]
    have "dissemination_acts g j ! Suc (2 * r) = Wait i"
      using diss_nth(2) [OF si [OF rl(3)] big n r(1)] rl(2) idx(2) r(2) by simp
    moreover have "Suc (2 * r) < length (dissemination_acts g j)"
      using diss_length [OF si [OF rl(3)] big] r by simp
    ultimately show ?thesis using rl(3) r(2) nth_mem by metis
  qed (use that in \<open>simp add: diss_acts_small\<close>)
  show "diss_level g j l' < diss_level g i l"
    if "l < length (dissemination_acts g i)" "dissemination_acts g i ! l = Wait j"
      "l' < length (dissemination_acts g j)" "i \<in> set (targets (dissemination_acts g j ! l'))"
    using size
  proof cases
    case big
    from diss_pos [OF idx(3) big n that(1)] that(2) obtain r where
      r: "r < num_rounds (length g)" "j = g ! left_of (length g) idx r" "l = Suc (2 * r)" by cases auto
    note rl = right_left [OF idx(1) n r(1)]
    from diss_pos [OF si [OF rl(4)] big n that(3) [unfolded r(2)]] that(4) r(2) obtain s where
      s: "s < num_rounds (length g)" "i = g ! right_of (length g) (left_of (length g) idx r) s" "l' = 2 * s"
      by cases auto
    have "right_of (length g) (left_of (length g) idx r) s = idx"
      using s(2) idx nth_inject [OF v] right_left(3) [OF rl(4) n s(1)] by metis
    with right_of_inj [OF n s(1) r(1), of "left_of (length g) idx r"] rl(1) have "s = r" by simp
    with s(3) r(3) show ?thesis by (simp add: diss_level_def)
  qed (use that in \<open>simp add: diss_acts_small\<close>)
qed

section \<open>The code performs these actions\<close>

lemma run_is_actions:
  assumes "valid_group peers" "rank \<in> set peers" "2 \<le> length peers"
  shows "linear_run_barrier fuel v oc rank peers timeout =
           bind_s (instant_now v)
             (\<lambda>start. for_s (run_action fuel v oc start timeout) (linear_acts peers rank))"
    and "tree_run_barrier fuel v oc rank peers timeout =
           bind_s (instant_now v)
             (\<lambda>start. for_s (run_action fuel v oc start timeout) (tree_acts peers rank))"
    and "dissemination_run_barrier fuel v oc rank peers timeout =
           bind_s (instant_now v)
             (\<lambda>start. for_s (run_action fuel v oc start timeout) (dissemination_acts peers rank))"
proof -
  obtain idx where "self_index peers rank = Ok idx"
    using assms(1,2) by (rule member_index)
  with assms(3) show
    "linear_run_barrier fuel v oc rank peers timeout =
           bind_s (instant_now v)
             (\<lambda>start. for_s (run_action fuel v oc start timeout) (linear_acts peers rank))"
    "tree_run_barrier fuel v oc rank peers timeout =
           bind_s (instant_now v)
             (\<lambda>start. for_s (run_action fuel v oc start timeout) (tree_acts peers rank))"
    "dissemination_run_barrier fuel v oc rank peers timeout =
           bind_s (instant_now v)
             (\<lambda>start. for_s (run_action fuel v oc start timeout) (dissemination_acts peers rank))"
    by (simp_all add: linear_run_is_actions tree_run_is_actions dissemination_run_is_actions
        linear_acts_def tree_acts_def dissemination_acts_def)
qed

end
