(* ===== verification/Example_System.thy ===== *)
theory Example_System
  imports Barrier_Instances
begin

text \<open>
  A small concrete system, on which the hypotheses of the properties are shown to hold: a device
  that completes every posted work at the next poll, a channel on it, and a scheduler that runs
  the distributed system of \<open>Barrier_Global\<close> step by step.
\<close>

section \<open>A device\<close>

text \<open>Posted works wait in \<open>dv_done\<close>; the clock ticks on every volatile read of the cell.\<close>

record dev =
  dv_done :: "ibv_wc list"
  dv_time :: nat
  dv_cell :: u64
  dv_qps :: "nat \<rightharpoonup> ibv_qp_state"

definition dev_init :: dev where
  "dev_init = \<lparr>dv_done = [], dv_time = 0, dv_cell = 0, dv_qps = Map.empty\<rparr>"

definition ok_wc :: "u64 \<Rightarrow> ibv_wc" where
  "ok_wc i = \<lparr>wc_wr_id = i, wc_error = None, wc_imm_data = None, wc_len = 0\<rparr>"

definition dev_poll :: "nat \<Rightarrow> int \<Rightarrow> ibv_wc list \<Rightarrow> dev \<Rightarrow> (int \<times> ibv_wc list) \<times> dev" where
  "dev_poll cq ne buf d =
     (case dv_done d of
        [] \<Rightarrow> ((0, buf), d)
      | wc # wcs \<Rightarrow> if ne < 1 then ((0, buf), d) else ((1, buf[0 := wc]), d\<lparr>dv_done := wcs\<rparr>))"

definition example_ah :: ibv_ah_attr where
  "example_ah = \<lparr>ah_dlid = 0, ah_is_global = 0, ah_sl = 0, ah_src_path_bits = 0, ah_port_num = 0\<rparr>"

definition example_verbs :: "dev verbs" where
  "example_verbs =
     \<lparr>v_errno_consts = \<lparr>EINVAL = 22, ENOMEM = 12, EMFILE = 24, EAGAIN = 11, EACCES = 13, EPERM = 1,
                        ENOENT = 2\<rparr>,
      v_access_consts = \<lparr>IBV_ACCESS_LOCAL_WRITE = 1, IBV_ACCESS_REMOTE_WRITE = 2,
                         IBV_ACCESS_REMOTE_READ = 4\<rparr>,
      v_little_endian = True,
      v_default_wc = ok_wc 0,
      v_default_ah = example_ah,
      v_default_qp_attr =
        \<lparr>qa_qp_state = IBV_QPS_INIT, qa_pkey_index = 0, qa_port_num = 0, qa_qp_access_flags = 0,
         qa_path_mtu = 0, qa_dest_qp_num = 0, qa_rq_psn = 0, qa_max_dest_rd_atomic = 0,
         qa_min_rnr_timer = 0, qa_ah_attr = example_ah, qa_timeout = 0, qa_retry_cnt = 0,
         qa_rnr_retry = 0, qa_max_rd_atomic = 0, qa_sq_psn = 0\<rparr>,
      v_last_errno = (\<lambda>_. Some 22),
      v_create_cq = (\<lambda>_ _ d. (Some 1, d)),
      v_poll_cq = dev_poll,
      v_create_qp = (\<lambda>_ _ d. (Some (2, 7), d)),
      v_modify_qp =
        (\<lambda>q attr _ d. (0, d\<lparr>dv_qps := (dv_qps d)(q \<mapsto> qa_qp_state attr)\<rparr>)),
      v_post_send = (\<lambda>_ wr d. (0, d\<lparr>dv_done := dv_done d @ [ok_wc (swr_wr_id wr)]\<rparr>)),
      v_post_recv = (\<lambda>_ wr d. (0, d\<lparr>dv_done := dv_done d @ [ok_wc (rwr_wr_id wr)]\<rparr>)),
      v_alloc_pd = (\<lambda>_ d. (Some 3, d)),
      v_reg_mr = (\<lambda>_ a l _ d. (Some \<lparr>mr_addr = a, mr_length = l, mr_lkey = 5, mr_rkey = 6\<rparr>, d)),
      v_reg_dmabuf_mr =
        (\<lambda>_ _ l a _ _ d. (Some \<lparr>mr_addr = a, mr_length = l, mr_lkey = 5, mr_rkey = 6\<rparr>, d)),
      v_get_device_list = (\<lambda>d. ((Some [40, 41], 2), d)),
      v_free_device_list = (\<lambda>_ d. d),
      v_device_name = (\<lambda>d. if d = 40 then Some ''mlx5_0'' else if d = 41 then Some ''mlx5_1'' else None),
      v_device_guid = (\<lambda>d. word_of_nat d),
      v_context_device = (\<lambda>_. 40),
      v_open_device = (\<lambda>dv d. (Some dv, d)),
      v_close_device = (\<lambda>_ d. (0, d)),
      v_dealloc_pd = (\<lambda>_ d. (0, d)),
      v_destroy_cq = (\<lambda>_ d. (0, d)),
      v_destroy_qp = (\<lambda>_ d. (0, d)),
      v_dereg_mr = (\<lambda>_ d. (0, d)),
      v_query_port = (\<lambda>_ _ d. ((0, IBV_PORT_ACTIVE, 9), d)),
      v_volatile_u64 = (\<lambda>_ d. (dv_cell d, d\<lparr>dv_time := Suc (dv_time d)\<rparr>)),
      v_now = (\<lambda>d. (dv_time d, d))\<rparr>"

lemma example_verbs_simps [simp]:
  "v_little_endian example_verbs = True"
  "v_default_wc example_verbs = ok_wc 0"
  "v_last_errno example_verbs = (\<lambda>_. Some 22)"
  "v_create_cq example_verbs = (\<lambda>_ _ d. (Some 1, d))"
  "v_poll_cq example_verbs = dev_poll"
  "v_create_qp example_verbs = (\<lambda>_ _ d. (Some (2, 7), d))"
  "v_modify_qp example_verbs =
     (\<lambda>q attr _ d. (0, d\<lparr>dv_qps := (dv_qps d)(q \<mapsto> qa_qp_state attr)\<rparr>))"
  "v_post_send example_verbs =
     (\<lambda>_ wr d. (0, d\<lparr>dv_done := dv_done d @ [ok_wc (swr_wr_id wr)]\<rparr>))"
  "v_post_recv example_verbs =
     (\<lambda>_ wr d. (0, d\<lparr>dv_done := dv_done d @ [ok_wc (rwr_wr_id wr)]\<rparr>))"
  "v_alloc_pd example_verbs = (\<lambda>_ d. (Some 3, d))"
  "v_reg_mr example_verbs =
     (\<lambda>_ a l _ d. (Some \<lparr>mr_addr = a, mr_length = l, mr_lkey = 5, mr_rkey = 6\<rparr>, d))"
  "v_get_device_list example_verbs = (\<lambda>d. ((Some [40, 41], 2), d))"
  "v_free_device_list example_verbs = (\<lambda>_ d. d)"
  "v_device_name example_verbs =
     (\<lambda>d. if d = 40 then Some ''mlx5_0'' else if d = 41 then Some ''mlx5_1'' else None)"
  "v_open_device example_verbs = (\<lambda>dv d. (Some dv, d))"
  "v_close_device example_verbs = (\<lambda>_ d. (0, d))"
  "v_dealloc_pd example_verbs = (\<lambda>_ d. (0, d))"
  "v_destroy_cq example_verbs = (\<lambda>_ d. (0, d))"
  "v_destroy_qp example_verbs = (\<lambda>_ d. (0, d))"
  "v_dereg_mr example_verbs = (\<lambda>_ d. (0, d))"
  "v_query_port example_verbs = (\<lambda>_ _ d. ((0, IBV_PORT_ACTIVE, 9), d))"
  "v_volatile_u64 example_verbs = (\<lambda>_ d. (dv_cell d, d\<lparr>dv_time := Suc (dv_time d)\<rparr>))"
  "v_now example_verbs = (\<lambda>d. (dv_time d, d))"
  by (simp_all add: example_verbs_def)

lemma example_poll_ok: "poll_ok example_verbs"
  by (auto simp: poll_ok_def example_verbs_def dev_poll_def split: list.splits)

lemma example_clock: "clock_runs example_verbs dv_time"
  by (simp add: clock_runs_def example_verbs_def)

section \<open>A channel\<close>

definition example_cq :: completion_queue where
  "example_cq = \<lparr>cq_context = \<lparr>ctx_handle = 0\<rparr>, cq_handle = 1, cq_min_capacity = 4\<rparr>"

definition example_pd :: protection_domain where
  "example_pd = \<lparr>pd_context = \<lparr>ctx_handle = 0\<rparr>, pd_handle = 3\<rparr>"

definition example_channel :: channel where
  "example_channel =
     \<lparr>ch_qp = \<lparr>qp_pd = example_pd, qp_send_cq = example_cq, qp_recv_cq = example_cq, qp_handle = 2\<rparr>,
      ch_shared = 0, ch_next_wr_id = 0\<rparr>"

definition example_world :: "dev world" where
  "example_world =
     \<lparr>w_hw = dev_init,
      w_shared = (\<lambda>_. \<lparr>sh_cq = cached_wrap_cq example_cq, sh_buff = replicate 4 (ok_wc 0)\<rparr>),
      w_next = 1\<rparr>"

definition example_send :: send_work_request where
  "example_send = send_wr_only_immediate 3"

section \<open>The barriers of two nodes\<close>

definition example_region :: "nat \<Rightarrow> memory_region" where
  "example_region r =
     \<lparr>mreg_pd = 3,
      mreg_mr = \<lparr>mr_addr = 4096 * word_of_nat (r + 1), mr_length = 48, mr_lkey = 5, mr_rkey = 6\<rparr>\<rparr>"

definition example_bm :: "nat \<Rightarrow> barrier_mr" where
  "example_bm r =
     \<lparr>bm_rank = r, bm_addr = 4096 * word_of_nat (r + 1), bm_memory = replicate 2 flags_new,
      bm_mr = example_region r,
      bm_remote_mrs = map (\<lambda>p. prmr_new p (mreg_remote (example_region p))) [0, 1]\<rparr>"

definition example_state :: "nat \<Rightarrow> barrier_state" where
  "example_state r = \<lparr>bs_rank = r, bs_mr = example_bm r, bs_poisoned = False\<rparr>"

text \<open>A device on which the peer has already notified: the polled cell holds 5.\<close>

definition arrived_world :: "dev world" where
  "arrived_world = example_world\<lparr>w_hw := dev_init\<lparr>dv_cell := 5\<rparr>\<rparr>"

definition example_mc :: multi_channel where
  "example_mc = \<lparr>mc_channels = [example_channel, example_channel], mc_pd = example_pd\<rparr>"

lemmas example_bm_defs =
  example_region_def example_bm_def flags_new_def prmr_new_def mreg_remote_def rmr_new_def
  mreg_address_def mreg_length_def mreg_rkey_def

lemma example_bm_wf: "r < 2 \<Longrightarrow> wf_barrier_mr (example_bm r)"
  by (cases r; cases "r - 1")
    (auto simp: wf_barrier_mr_def example_bm_defs Let_def flags_size_def nth_Cons' less_Suc_eq)

lemmas example_defs =
  example_world_def arrived_world_def example_channel_def example_cq_def
  example_pd_def example_mc_def dev_init_def dev_poll_def ok_wc_def

lemma replicate_4: "replicate 2 x = [x, x]" "replicate 4 x = [x, x, x, x]"
  by (simp_all add: eval_nat_numeral)

text \<open>What a concrete run of an operation unfolds.\<close>

lemmas channel_run_defs =
  bind_s_def map_err_s_def ret_s_def lift_s_def Let_def
  on_hw_def unpolled_def get_and_advance_wr_id_def plain_add_def pending_work_new_def
  post_and_spin_def run_manual_scope_def run_scope_def with_scope_def scope_run_manual_def
  scope_run_def scope_new_def channel_post_def self_selector_def scoped_work_new_def
  scoped_spin_poll_def scoped_poll_def put_work_def auto_poll_def auto_poll_one_def pw_drop_def
  pw_poll_def consume_cache_def cached_consume_def shared_update_def cached_update_def cq_poll_def
  cached_wrap_cq_def work_completion_new_def work_success_new_def i32_max_def numeral_3_eq_3
  replicate_4

lemmas post_run_defs =
  send_unpolled_def receive_unpolled_def write_unpolled_def read_unpolled_def
  qp_post_send_def qp_post_receive_def qp_post_write_def qp_post_read_def
  send_wr_of_def recv_wr_of_def write_wr_of_def read_wr_of_def post_send_wr_def post_receive_wr_def

lemma example_follower_run:
  "fst (linear_run_barrier 3 example_verbs False 1 [0, 1] 9 (example_bm 1, example_mc, arrived_world)) =
     Ok ()"
  by (simp add: linear_run_barrier_def example_bm_defs example_defs instant_now_def notify_peer_def
      increase_out_epoch_def flags_at_def flags_put_def notify_wr_def flags_size_def in_epoch_offset_def
      prmr_struct_array_field_unchecked_def plain_mul_def prmr_sub_region_unchecked_def
      sub_region_unchecked_def plain_sub_def peer_write_new_def write_wr_new_def fits_i32_def
      on_channels_def mc_write_def at_channel_def mc_channel_def mc_set_channel_def ch_write_def
      ch_post_write_def channel_post_write_def channel_run_defs post_run_defs wait_peer_def
      increase_peer_expected_epoch_def spin_poll_peer_epoch_expected_def is_peer_epoch_expected_def)

section \<open>Running the distributed system\<close>

text \<open>The next step of one node, if it has one; notifications are delivered in their order.\<close>

definition node_step ::
  "(nat list \<Rightarrow> nat \<Rightarrow> action list) \<Rightarrow> nat list list \<Rightarrow> nat \<Rightarrow> gstate \<Rightarrow> gstate option" where
  "node_step acts groups i s =
     (let n = gs_node s i; p = program acts groups (nd_bar n) i in
      if nd_failed n then None
      else
        case nd_stage n of
          Idle \<Rightarrow>
            if length groups \<le> nd_bar n then None
            else if i \<in> set (groups ! nd_bar n) then Some (put_node i (n\<lparr>nd_stage := Ready\<rparr>) s)
            else Some (put_node i (n\<lparr>nd_bar := Suc (nd_bar n)\<rparr>) s)
        | Ready \<Rightarrow>
            if nd_k n = length p then
              Some (put_node i (n\<lparr>nd_bar := Suc (nd_bar n), nd_k := 0, nd_stage := Idle\<rparr>) s)
            else if length p < nd_k n then None
            else
              (case p ! nd_k n of
                 Wait j \<Rightarrow>
                   Some ((put_node i (n\<lparr>nd_stage := Waiting\<rparr>) s)
                     \<lparr>gs_exp := (gs_exp s)(i := (gs_exp s i)(j := gs_exp s i j + 1))\<rparr>)
               | a \<Rightarrow>
                   Some ((put_node i (n\<lparr>nd_stage := Sending (targets a)\<rparr>) s)
                     \<lparr>gs_out := (gs_out s)
                        (i := (\<lambda>j. gs_out s i j + word_of_nat (count_list (targets a) j)))\<rparr>))
        | Waiting \<Rightarrow>
            (case p ! nd_k n of
               Wait j \<Rightarrow>
                 if gs_cell s i j \<ge> gs_exp s i j
                 then Some (put_node i (n\<lparr>nd_stage := Ready, nd_k := Suc (nd_k n)\<rparr>) s)
                 else None
             | _ \<Rightarrow> None)
        | Sending [] \<Rightarrow> Some (put_node i (n\<lparr>nd_stage := Ready, nd_k := Suc (nd_k n)\<rparr>) s)
        | Sending (j # js) \<Rightarrow>
            Some ((put_node i (n\<lparr>nd_stage := Sending js\<rparr>) s)
              \<lparr>gs_cell := (gs_cell s)(j := (gs_cell s j)(i := gs_out s i j))\<rparr>))"

lemma node_step_sound:
  assumes "node_step acts groups i s = Some s'" "i < world"
  shows "gstep acts groups world s s'"
proof -
  let ?n = "gs_node s i" and ?p = "prog_of acts groups s i"
  have nf: "\<not> nd_failed ?n" using assms(1) by (simp add: node_step_def Let_def split: if_splits)
  show ?thesis
  proof (cases "nd_stage ?n")
    case Idle
    with assms nf gstep.call [OF assms(2) refl nf Idle] gstep.skip [OF assms(2) refl nf Idle]
    show ?thesis by (auto simp: node_step_def Let_def split: if_splits)
  next
    case Ready
    show ?thesis
    proof (cases "nd_k ?n = length ?p")
      case True
      with assms nf Ready gstep.return [OF assms(2) refl nf Ready] show ?thesis
        by (auto simp: node_step_def Let_def)
    next
      case False
      with assms nf Ready have k: "nd_k ?n < length ?p"
        by (auto simp: node_step_def Let_def split: if_splits)
      show ?thesis
      proof (cases "?p ! nd_k ?n")
        case (Wait j)
        with assms nf Ready k gstep.begin_wait [OF assms(2) refl nf Ready k Wait] show ?thesis
          by (simp add: node_step_def Let_def)
      next
        case (Notify j)
        with assms nf Ready k gstep.begin_send [OF assms(2) refl nf Ready k Notify [symmetric]]
        show ?thesis by (simp add: node_step_def Let_def)
      next
        case (Scatter js)
        with assms nf Ready k gstep.begin_send [OF assms(2) refl nf Ready k Scatter [symmetric]]
        show ?thesis by (simp add: node_step_def Let_def)
      qed
    qed
  next
    case Waiting
    with assms nf gstep.end_wait [OF assms(2) refl nf Waiting] show ?thesis
      by (auto simp: node_step_def Let_def split: action.splits if_splits)
  next
    case (Sending ps)
    show ?thesis
    proof (cases ps)
      case Nil
      with assms nf Sending gstep.end_send [OF assms(2) refl nf] show ?thesis
        by (simp add: node_step_def Let_def)
    next
      case (Cons j js)
      with assms nf Sending gstep.deliver [OF assms(2) refl Sending, of j] show ?thesis
        by (simp add: node_step_def Let_def)
    qed
  qed
qed

text \<open>A schedule: the nodes that step, in turn.\<close>

fun run_schedule ::
  "(nat list \<Rightarrow> nat \<Rightarrow> action list) \<Rightarrow> nat list list \<Rightarrow> nat \<Rightarrow> nat list \<Rightarrow> gstate \<Rightarrow> gstate option" where
  "run_schedule acts groups world [] s = Some s"
| "run_schedule acts groups world (i # js) s =
     (if i < world then
        (case node_step acts groups i s of
           Some s' \<Rightarrow> run_schedule acts groups world js s' | None \<Rightarrow> None)
      else None)"

lemma run_schedule_steps:
  "run_schedule acts groups world js s = Some s' \<Longrightarrow>
     (gstep acts groups world ^^ length js) s s'"
proof (induction js arbitrary: s)
  case Nil
  then show ?case by simp
next
  case (Cons i js)
  then obtain s1 where s1: "i < world" "node_step acts groups i s = Some s1"
    "run_schedule acts groups world js s1 = Some s'"
    by (auto split: if_splits option.splits)
  from relpowp_Suc_I2 [OF node_step_sound [OF s1(2,1)] Cons.IH [OF s1(3)]] show ?case by simp
qed

lemma run_schedule_reach:
  "greach acts groups world s \<Longrightarrow> run_schedule acts groups world js s = Some s' \<Longrightarrow>
     greach acts groups world s'"
proof (induction js arbitrary: s)
  case Nil
  then show ?case by simp
next
  case (Cons i js)
  then obtain s1 where s1: "i < world" "node_step acts groups i s = Some s1"
    "run_schedule acts groups world js s1 = Some s'"
    by (auto split: if_splits option.splits)
  from Cons.IH [OF greach.step [OF Cons.prems(1) node_step_sound [OF s1(2,1)]] s1(3)] show ?case .
qed

definition ran_to_end :: "gstate option \<Rightarrow> bool" where
  "ran_to_end r = (case r of Some s \<Rightarrow> has_left s 0 0 | None \<Rightarrow> False)"

lemma example_groups: "valid_calls [[0, 1]] 2"
  by (auto simp: valid_calls_def valid_group_def)

text \<open>One run of a barrier of two nodes, the second node first.\<close>

definition two_node_schedule :: "nat list" where
  "two_node_schedule = [1, 1, 1, 1, 0, 0, 0, 0, 0, 0, 0]"

lemma length_two_node_schedule: "length two_node_schedule = 11"
  by (simp add: two_node_schedule_def)

lemma ran_to_endE:
  assumes "ran_to_end (run_schedule acts [[0, 1]] 2 two_node_schedule gs_init)"
  obtains s where "greach acts [[0, 1]] 2 s" "has_left s 0 0"
    "(gstep acts [[0, 1]] 2 ^^ 11) gs_init s"
proof -
  from assms obtain s where
    s: "run_schedule acts [[0, 1]] 2 two_node_schedule gs_init = Some s" "has_left s 0 0"
    by (auto simp: ran_to_end_def split: option.splits)
  from run_schedule_reach [OF greach.init s(1)] s(2)
    run_schedule_steps [OF s(1), unfolded length_two_node_schedule] that
  show ?thesis by blast
qed

lemma example_linear_run:
  "ran_to_end (run_schedule linear_acts [[0, 1]] 2 two_node_schedule gs_init)"
  by code_simp

lemma example_tree_run:
  "ran_to_end (run_schedule tree_acts [[0, 1]] 2 two_node_schedule gs_init)"
  by code_simp

text \<open>
  The rounds of the dissemination barrier are computed once by hand, and the run on the result.
\<close>

definition pair_acts :: "nat list \<Rightarrow> nat \<Rightarrow> action list" where
  "pair_acts g i = [Notify (1 - i), Wait (1 - i)]"

lemma node_step_cong:
  "(\<And>t i. program acts groups t i = program acts' groups t i) \<Longrightarrow>
     node_step acts groups i s = node_step acts' groups i s"
  by (simp add: node_step_def)

lemma run_schedule_cong:
  assumes "\<And>t i. program acts groups t i = program acts' groups t i"
  shows "run_schedule acts groups world js s = run_schedule acts' groups world js s"
  by (induction js arbitrary: s)
    (simp_all add: node_step_cong [of acts groups acts', OF assms] split: option.splits)

lemma round_distances_two: "round_distances (Suc (Suc 0)) (Suc 0) = [Suc 0]"
  by (simp add: round_distances.simps [of "Suc (Suc 0)" "Suc 0"]
      round_distances.simps [of "Suc (Suc 0)" "2"])

lemma round_pairs_two:
  "round_pairs i (Suc (Suc 0)) = [((i + 1) mod 2, (i + 1) mod 2)]"
  unfolding round_pairs_def One_nat_def round_distances_two by (simp add: numeral_2_eq_2)

lemma dissemination_acts_two:
  assumes "i \<in> {0, 1}"
  shows "dissemination_acts [0, 1] i = pair_acts [0, 1] i"
proof -
  have "self_index [0, 1] i = Ok i"
    using self_index_nth [of "[0, 1]" i] assms by auto
  with assms show ?thesis
    by (auto simp: dissemination_acts_def dissemination_actions_def pair_acts_def round_pairs_two)
qed

lemma dissemination_program_two:
  "program dissemination_acts [[0, 1]] t i = program pair_acts [[0, 1]] t i"
  by (cases t) (auto simp: program_def dissemination_acts_two [simplified])

lemma example_dissemination_run:
  "ran_to_end (run_schedule dissemination_acts [[0, 1]] 2 two_node_schedule gs_init)"
proof -
  have "ran_to_end (run_schedule pair_acts [[0, 1]] 2 two_node_schedule gs_init)" by code_simp
  then show ?thesis
    by (simp only: run_schedule_cong [OF dissemination_program_two])
qed

end
