(* ===== verification/Properties_Barrier.thy ===== *)
theory Properties_Barrier
  imports Example_System
begin

text \<open>
  The properties of the barriers: that they synchronise and never deadlock, for each algorithm; that
  the code of each algorithm is the protocol proved; poisoning, validation, termination of the wait,
  and where the notifications go.
\<close>

section \<open>No node leaves before all have entered\<close>

text \<open>
  C1. The centralized barrier synchronises: in every reachable state of the distributed system,
  whatever the interleaving, the delays and the failures, a member that returned from a barrier call
  knows that every member of the group has called it.  Chained barriers of overlapping groups are
  included.
\<close>

theorem linear_barrier_safe:
  assumes "greach linear_acts groups world s" "valid_calls groups world"
    and "t < length groups" "i \<in> set (groups ! t)" "has_left s t i" "x \<in> set (groups ! t)"
  shows "has_entered s t x"
  using assms by (rule linear_protocol.safety)

theorem linear_barrier_safe_witness:
  "\<exists>s. greach linear_acts [[0, 1]] 2 s \<and> has_left s 0 0 \<and> has_entered s 0 1"
proof -
  obtain s where s: "greach linear_acts [[0, 1]] 2 s" "has_left s 0 0"
    by (rule ran_to_endE [OF example_linear_run])
  with linear_barrier_safe [OF s(1) example_groups, of 0 0 1] show ?thesis by auto
qed

text \<open>
  C2. The binary tree barrier synchronises, in the same sense: the reduce phase brings every arrival to
  the root and the broadcast phase brings it back to every member.
\<close>

theorem tree_barrier_safe:
  assumes "greach tree_acts groups world s" "valid_calls groups world"
    and "t < length groups" "i \<in> set (groups ! t)" "has_left s t i" "x \<in> set (groups ! t)"
  shows "has_entered s t x"
  using assms by (rule tree_protocol.safety)

theorem tree_barrier_safe_witness:
  "\<exists>s. greach tree_acts [[0, 1]] 2 s \<and> has_left s 0 0 \<and> has_entered s 0 1"
proof -
  obtain s where s: "greach tree_acts [[0, 1]] 2 s" "has_left s 0 0"
    by (rule ran_to_endE [OF example_tree_run])
  with tree_barrier_safe [OF s(1) example_groups, of 0 0 1] show ?thesis by auto
qed

text \<open>
  C3. The dissemination barrier synchronises, in the same sense: after the rounds of doubling distance
  every member depends on every other.
\<close>

theorem dissemination_barrier_safe:
  assumes "greach dissemination_acts groups world s" "valid_calls groups world"
    and "t < length groups" "i \<in> set (groups ! t)" "has_left s t i" "x \<in> set (groups ! t)"
  shows "has_entered s t x"
  using assms by (rule dissemination_protocol.safety)

theorem dissemination_barrier_safe_witness:
  "\<exists>s. greach dissemination_acts [[0, 1]] 2 s \<and> has_left s 0 0 \<and> has_entered s 0 1"
proof -
  obtain s where s: "greach dissemination_acts [[0, 1]] 2 s" "has_left s 0 0"
    by (rule ran_to_endE [OF example_dissemination_run])
  with dissemination_barrier_safe [OF s(1) example_groups, of 0 0 1] show ?thesis by auto
qed

section \<open>No deadlock\<close>

text \<open>
  C4. Without failures the barriers end, whichever of the three algorithms the nodes run: every run of
  the distributed system has at most the given number of steps, and where no node can step, every node
  has returned from every call.
\<close>

theorem barriers_live:
  assumes "acts \<in> {linear_acts, tree_acts, dissemination_acts}"
    and "(gstep acts groups world ^^ k) gs_init s" "valid_calls groups world"
  shows "k \<le> system_left (program acts groups) (length groups) world gs_init \<and>
         ((\<nexists>s'. gstep acts groups world s s') \<longrightarrow> all_done groups world s)"
  using assms(1)
proof (elim insertE emptyE)
  show ?thesis if "acts = linear_acts"
    using assms(2,3) unfolding that by (rule linear_protocol.runs_end)
  show ?thesis if "acts = tree_acts"
    using assms(2,3) unfolding that by (rule tree_protocol.runs_end)
  show ?thesis if "acts = dissemination_acts"
    using assms(2,3) unfolding that by (rule dissemination_protocol.runs_end)
qed

theorem barriers_live_witness:
  "\<exists>s. (gstep tree_acts [[0, 1]] 2 ^^ 11) gs_init s \<and>
       11 \<le> system_left (program tree_acts [[0, 1]]) 1 2 gs_init"
proof -
  obtain s where s: "(gstep tree_acts [[0, 1]] 2 ^^ 11) gs_init s"
    by (rule ran_to_endE [OF example_tree_run])
  have len: "length [[0 :: nat, 1]] = 1" by simp
  have "tree_acts \<in> {linear_acts, tree_acts, dissemination_acts}" by simp
  from s barriers_live [OF this s example_groups, THEN conjunct1, unfolded len]
  show ?thesis by blast
qed

section \<open>The code runs the protocol\<close>

text \<open>
  C5. The three \<open>run_barrier\<close> functions, called by a member of a sorted list of distinct peers, read the
  clock once and then perform exactly the actions of the protocol proved above, in their order,
  stopping at the first that fails.
\<close>

theorem run_barrier_is_protocol:
  assumes "valid_group peers" "rank \<in> set peers" "2 \<le> length peers"
  shows "(linear_run_barrier fuel v oc rank peers timeout =
           bind_s (instant_now v)
             (\<lambda>start. for_s (run_action fuel v oc start timeout) (linear_acts peers rank))) \<and>
    (tree_run_barrier fuel v oc rank peers timeout =
           bind_s (instant_now v)
             (\<lambda>start. for_s (run_action fuel v oc start timeout) (tree_acts peers rank))) \<and>
    (dissemination_run_barrier fuel v oc rank peers timeout =
           bind_s (instant_now v)
             (\<lambda>start. for_s (run_action fuel v oc start timeout) (dissemination_acts peers rank)))"
  by (intro conjI run_is_actions [OF assms])

theorem run_barrier_is_protocol_witness:
  "tree_run_barrier 5 example_verbs True 4 [1, 4, 7] 9 =
     bind_s (instant_now example_verbs)
       (\<lambda>start. for_s (run_action 5 example_verbs True start 9) (tree_acts [1, 4, 7] 4))"
  by (rule run_barrier_is_protocol [THEN conjunct2, THEN conjunct1]) (simp_all add: valid_group_def)

section \<open>Poisoning and validation\<close>

text \<open>
  C8. Poisoning: in any sequence of \<open>barrier_unchecked\<close> calls that return, whatever the algorithm, the
  results are successes, then at most one error, and after the error every call returns \<open>Poisoned\<close>.
\<close>

theorem barrier_session:
  assumes "run_calls (barrier_barrier_unchecked fuel v oc) calls s = (rs, s')"
    and "Panic \<notin> set rs" "NoFuel \<notin> set rs"
  shows "rs = replicate (length calls) (Ok ()) \<or>
         (\<exists>k e. k < length calls \<and>
            rs = replicate k (Ok ()) @ Err e # replicate (length calls - Suc k) (Err Poisoned) \<and>
            bs_poisoned (the_state (fst s')))"
  using assms by (rule dispatch.session_shape)

theorem barrier_session_witness:
  "\<exists>rs s'. run_calls (barrier_barrier_unchecked 3 example_verbs True) [([5, 6], 9), ([], 9)]
             (BinaryTree (example_state 0), example_mc, example_world) = (rs, s') \<and>
           rs = [Err SelfNotInGroup, Err Poisoned] \<and> bs_poisoned (the_state (fst s'))"
proof -
  obtain rs s' where
    r: "run_calls (barrier_barrier_unchecked 3 example_verbs True) [([5, 6], 9), ([], 9)]
          (BinaryTree (example_state 0), example_mc, example_world) = (rs, s')"
    by (metis prod.exhaust)
  have "self_index [5, 6] 0 = Err SelfNotInGroup"
    by (simp add: self_index_Err)
  with r have rs: "rs = [Err SelfNotInGroup, Err Poisoned]"
    by (auto simp: in_barrier_def tree_barrier_unchecked_def poisoning_def example_state_def
        tree_run_barrier_def instant_now_def bind_s_def lift_s_def split: prod.splits)
  have "bs_poisoned (the_state (fst s'))"
    using barrier_session [OF r] unfolding rs by (auto simp: numeral_2_eq_2)
  with r rs show ?thesis by blast
qed

text \<open>
  The checked \<open>barrier\<close>: an unordered list, a list with duplicates and, for the centralized
  algorithm, a list without the caller are rejected, and the barrier, the channels and the device are
  left as they were, so such a call does not poison; on every other list it is \<open>barrier_unchecked\<close>.
\<close>

theorem barrier_barrier_checks:
  "barrier_barrier fuel v oc peers timeout (b, m, w) =
     (if \<not> sorted peers then (Err UnorderedPeers, (b, m, w))
      else if \<not> distinct peers then (Err DuplicatePeers, (b, m, w))
      else if (\<exists>st. b = Centralized st) \<and> bs_rank (the_state b) \<notin> set peers
        then (Err SelfNotInGroup, (b, m, w))
      else barrier_barrier_unchecked fuel v oc peers timeout (b, m, w))"
proof -
  consider (un) "validate_peer_list peers = Err UnorderedPeers" "\<not> sorted peers"
    | (dup) "validate_peer_list peers = Err DuplicatePeers" "sorted peers" "\<not> distinct peers"
    | (ok) "validate_peer_list peers = Ok ()" "sorted peers" "distinct peers"
    using validate_peer_list_iff [of peers] by blast
  then show ?thesis
  proof cases
    case ok
    show ?thesis
    proof (cases b)
      case (Centralized st)
      with ok self_index_Err [OF ok(2), of "bs_rank st"] self_index_cases [of peers "bs_rank st"]
      show ?thesis
        by (auto simp: in_barrier_def linear_barrier_def bind_s_def lift_s_def)
    qed (use ok in \<open>simp_all add: in_barrier_def tree_barrier_def dissemination_barrier_def bind_s_def
          lift_s_def\<close>)
  qed (cases b; simp add: in_barrier_def linear_barrier_def tree_barrier_def
      dissemination_barrier_def bind_s_def lift_s_def)+
qed

text \<open>
  A caller that is not in a valid list: the centralized barrier refuses without a trace; the tree
  and dissemination barriers return success when the list has fewer than two peers, and otherwise
  return \<open>SelfNotInGroup\<close> and poison the barrier, without having sent anything.
\<close>

lemma barrier_of_an_outsider:
  assumes "sorted peers" "distinct peers" "bs_rank st \<notin> set peers" "\<not> bs_poisoned st"
  shows "(barrier_barrier fuel v oc peers timeout (Centralized st, m, w) =
           (Err SelfNotInGroup, (Centralized st, m, w))) \<and>
    (\<forall>mk \<in> {BinaryTree, Dissemination}.
           barrier_barrier fuel v oc peers timeout (mk st, m, w) =
             (if length peers < 2 then (Ok (), (mk st, m, w))
              else (Err SelfNotInGroup,
                    (mk (st\<lparr>bs_poisoned := True\<rparr>), m, w\<lparr>w_hw := snd (v_now v (w_hw w))\<rparr>))))"
proof (rule conjI)
  have v: "validate_peer_list peers = Ok ()" using assms(1,2) by (simp add: validate_peer_list_iff)
  have i: "self_index peers (bs_rank st) = Err SelfNotInGroup"
    using assms(1,3) by (simp add: self_index_Err)
  show "barrier_barrier fuel v oc peers timeout (Centralized st, m, w) =
           (Err SelfNotInGroup, (Centralized st, m, w))"
    using v i by (simp add: in_barrier_def linear_barrier_def bind_s_def lift_s_def)
  show "\<forall>mk \<in> {BinaryTree, Dissemination}.
           barrier_barrier fuel v oc peers timeout (mk st, m, w) =
             (if length peers < 2 then (Ok (), (mk st, m, w))
              else (Err SelfNotInGroup,
                    (mk (st\<lparr>bs_poisoned := True\<rparr>), m, w\<lparr>w_hw := snd (v_now v (w_hw w))\<rparr>)))"
    using v i assms(4)
    by (auto simp: in_barrier_def tree_barrier_def dissemination_barrier_def bind_s_def lift_s_def
        tree_barrier_unchecked_def dissemination_barrier_unchecked_def poisoning_def ret_s_def
        tree_run_barrier_def dissemination_run_barrier_def instant_now_def split: prod.splits)
qed

section \<open>Waiting and counting\<close>



text \<open>
  C30. A completed barrier moves the two counters of every peer by the number of notifications sent to
  it and the number of waits for it; for a member pair these numbers agree (and are at most one), so
  after any number of completed barriers the epoch one side announces is the epoch the other expects.
\<close>

theorem barrier_counts_epochs:
  assumes "valid_group peers" "i \<in> set peers" "j \<in> set peers" "2 \<le> length peers"
    and "(run, acts) \<in> {(linear_run_barrier fuel v oc, linear_acts),
                        (tree_run_barrier fuel v oc, tree_acts),
                        (dissemination_run_barrier fuel v oc, dissemination_acts)}"
    and "run i peers timeout (bm, s) = (Ok u, (bm', s'))"
  shows "(epochs_advance bm bm' (sent_in (acts peers i) (length (acts peers i)))
           (waited_in (acts peers i) (length (acts peers i)))) \<and>
    (sent_in (acts peers i) (length (acts peers i)) j =
           waited_in (acts peers j) (length (acts peers j)) i) \<and>
    (sent_in (acts peers i) (length (acts peers i)) j \<le> 1)"
proof (rule conjI [OF _ conjI])
  have run: "run i peers timeout =
           bind_s (instant_now v) (\<lambda>start. for_s (run_action fuel v oc start timeout) (acts peers i))"
    using run_is_actions [OF assms(1,2,4)] assms(5) by auto
  from assms(6) obtain t bm1 s1 where
    1: "instant_now v (bm, s) = (Ok t, (bm1, s1))" and
    2: "for_s (run_action fuel v oc t timeout) (acts peers i) (bm1, s1) = (Ok u, (bm', s'))"
    by (auto simp: run bind_s_eq_Ok)
  from instant_now_frame [OF 1] have "bm1 = bm" by simp
  with run_actions_advance [OF 2]
  show "epochs_advance bm bm' (sent_in (acts peers i) (length (acts peers i)))
          (waited_in (acts peers i) (length (acts peers i)))"
    by (simp add: sent_in_def [abs_def] waited_in_def [abs_def])
  show "sent_in (acts peers i) (length (acts peers i)) j =
          waited_in (acts peers j) (length (acts peers j)) i"
    using assms(5) linear_protocol.counts_equal [OF assms(1,3,2)]
      tree_protocol.counts_equal [OF assms(1,3,2)]
      dissemination_protocol.counts_equal [OF assms(1,3,2)] by auto
  show "sent_in (acts peers i) (length (acts peers i)) j \<le> 1"
    using assms(5) linear_protocol.once_sent [OF assms(1,2)] tree_protocol.once_sent [OF assms(1,2)]
      dissemination_protocol.once_sent [OF assms(1,2)] by auto
qed

theorem barrier_counts_epochs_witness:
  "\<exists>bm' s'.
     linear_run_barrier 3 example_verbs False 1 [0, 1] 9 (example_bm 1, example_mc, arrived_world) =
       (Ok (), (bm', s')) \<and>
     epochs_advance (example_bm 1) bm'
       (sent_in (linear_acts [0, 1] 1) 2) (waited_in (linear_acts [0, 1] 1) 2)"
proof -
  obtain bm' s' where
    run: "linear_run_barrier 3 example_verbs False 1 [0, 1] 9
            (example_bm 1, example_mc, arrived_world) = (Ok (), (bm', s'))"
    using example_follower_run by (metis prod.collapse)
  have "length (linear_acts [0, 1] 1) = 2" by (simp add: linear_acts_def linear_actions_def)
  with barrier_counts_epochs [of "[0, 1]" 1 0 "linear_run_barrier 3 example_verbs False"
      linear_acts 3 example_verbs False, OF _ _ _ _ _ run, THEN conjunct1] run
  show ?thesis by (auto simp: valid_group_def)
qed

section \<open>Where the notifications go\<close>

text \<open>
  The notification of a peer reads the sender's own outgoing epoch, inside its registered region,
  and writes eight bytes inside the peer's registered region, under the peer's key.
\<close>

theorem notification_in_bounds:
  assumes "wf_barrier_mr bm" "peer < length (bm_memory bm)"
  shows "\<exists>wr. notify_wr oc bm peer = Ok wr \<and> pww_peer wr = peer \<and>
    encloses_slice (bm_mr bm) (out_epoch_slice bm peer) \<and>
    wrt_gather (pww_wr wr) = [gather_new_unchecked (bm_mr bm) (out_epoch_slice bm peer)] \<and>
    unat (rmr_addr (prmr_remote_mr (bm_remote_mrs bm ! peer))) \<le>
      unat (rmr_addr (wrt_remote_mr (pww_wr wr))) \<and>
    unat (rmr_addr (wrt_remote_mr (pww_wr wr))) + unat (sl_len (out_epoch_slice bm peer)) \<le>
      unat (rmr_addr (prmr_remote_mr (bm_remote_mrs bm ! peer))) +
      unat (rmr_length (prmr_remote_mr (bm_remote_mrs bm ! peer))) \<and>
    rmr_rkey (wrt_remote_mr (pww_wr wr)) = rmr_rkey (prmr_remote_mr (bm_remote_mrs bm ! peer))"
proof -
  let ?r = "prmr_remote_mr (bm_remote_mrs bm ! peer)"
  let ?o = "bm_rank bm * flags_size + in_epoch_offset"
  obtain t where t: "notify_wr oc bm peer =
           Ok \<lparr>pww_peer = peer,
               pww_wr = \<lparr>wrt_gather = [gather_new_unchecked (bm_mr bm) (out_epoch_slice bm peer)],
                         wrt_remote_mr = t, wrt_imm = None\<rparr>\<rparr>"
    "unat (rmr_addr t) = unat (rmr_addr ?r) + ?o" "rmr_rkey t = rmr_rkey ?r"
    "unat (rmr_length t) = flags_size * length (bm_memory bm) - ?o" "8 \<le> unat (rmr_length t)"
    using notify_wr_eq [OF assms] by blast
  have "unat (rmr_length ?r) = flags_size * length (bm_memory bm)"
    using assms by (simp add: wf_barrier_mr_def Let_def)
  with t out_epoch_slice_enclosed [OF assms] show ?thesis
    by (simp add: out_epoch_slice_def)
qed

theorem notification_in_bounds_witness:
  "\<exists>wr. notify_wr True (example_bm 0) 1 = Ok wr \<and> pww_peer wr = 1 \<and>
        encloses_slice (bm_mr (example_bm 0)) (out_epoch_slice (example_bm 0) 1)"
proof -
  have "wf_barrier_mr (example_bm 0)" "1 < length (bm_memory (example_bm 0))"
    using example_bm_wf [of 0] by (simp_all add: example_bm_def)
  from notification_in_bounds [OF this, of True] show ?thesis by blast
qed

text \<open>
  The cell that \<open>notify_peer\<close> of one node writes at another is exactly the cell that the other node
  polls for it, and the cells of different senders do not overlap.
\<close>

theorem notification_reaches_the_polled_cell:
  assumes "wf_barrier_mr bm" "wf_barrier_mr bm'"
    and "bm_rank bm' < length (bm_memory bm)" "bm_rank bm < length (bm_memory bm')"
    and "rmr_addr (prmr_remote_mr (bm_remote_mrs bm ! bm_rank bm')) = bm_addr bm'"
    and "notify_wr oc bm (bm_rank bm') = Ok wr"
  shows "rmr_addr (wrt_remote_mr (pww_wr wr)) = in_epoch_addr bm' (bm_rank bm) \<and>
         pww_peer wr = bm_rank bm' \<and>
         (\<forall>q < length (bm_memory bm'). q \<noteq> bm_rank bm \<longrightarrow>
            unat (in_epoch_addr bm' (bm_rank bm)) + 8 \<le> unat (in_epoch_addr bm' q) \<or>
            unat (in_epoch_addr bm' q) + 8 \<le> unat (in_epoch_addr bm' (bm_rank bm)))"
  using notify_reaches_polled_cell [OF assms] in_epoch_cells_disjoint [OF assms(2) assms(4)]
  by blast

theorem notification_reaches_the_polled_cell_witness:
  "\<exists>wr. notify_wr True (example_bm 0) 1 = Ok wr \<and>
        rmr_addr (wrt_remote_mr (pww_wr wr)) = in_epoch_addr (example_bm 1) 0"
proof -
  have wf: "wf_barrier_mr (example_bm 0)" "wf_barrier_mr (example_bm 1)"
    using example_bm_wf [of 0] example_bm_wf [of 1] by simp_all
  have r: "bm_rank (example_bm 0) = 0" "bm_rank (example_bm 1) = 1"
    "length (bm_memory (example_bm q)) = 2" "bm_addr (example_bm 1) = 8192"
    "rmr_addr (prmr_remote_mr (bm_remote_mrs (example_bm 0) ! 1)) = 8192" for q
    by (simp_all add: example_bm_defs)
  obtain wr where wr: "notify_wr True (example_bm 0) 1 = Ok wr"
    using notify_wr_eq [OF wf(1), of 1 True] r by auto
  from notification_reaches_the_polled_cell [OF wf, unfolded r, OF _ _ _ wr] wr
  show ?thesis by auto
qed

section \<open>The shape of the algorithms\<close>

text \<open>
  The binary tree: parent and child are inverse, every node but the root has exactly one parent,
  which comes before it, and the chain of parents from a node of a group of \<open>len\<close> peers ends at the
  root after \<open>ilog2 (idx + 1)\<close> steps, at most the logarithm of the group's size.
\<close>

lemma tree_shape:
  assumes "idx < len"
  shows "(\<forall>c. c \<in> set (child_indices idx len) \<longleftrightarrow> c < len \<and> parent_index c = Some idx) \<and>
    (distinct (child_indices idx len)) \<and>
    (parent_index idx = None \<longleftrightarrow> idx = 0) \<and>
    (idx \<noteq> 0 \<longrightarrow> last (ancestors idx) = 0) \<and>
    (length (ancestors idx) = ilog2 (idx + 1) \<and> length (ancestors idx) \<le> ilog2 len)"
  using assms child_iff_parent distinct_child_indices ancestors_root [of idx]
    ilog2_mono [of "idx + 1" len]
  by (auto simp: ancestors_depth parent_index_def)

text \<open>
  The dissemination barrier makes exactly the ceiling of the binary logarithm of the group's size
  many rounds; in each round the peer a node notifies is the one that waits for it and the other way
  round, and no node notifies itself.
\<close>

lemma dissemination_shape:
  assumes "len \<le> 2 ^ 63" "idx < len" "2 \<le> len"
  shows "(2 ^ (length (round_pairs idx len) - 1) < len \<and> len \<le> 2 ^ length (round_pairs idx len)) \<and>
    (\<forall>r < length (round_pairs idx len).
           snd (round_pairs (fst (round_pairs idx len ! r)) len ! r) = idx \<and>
           fst (round_pairs (snd (round_pairs idx len ! r)) len ! r) = idx \<and>
           fst (round_pairs idx len ! r) \<noteq> idx)"
  using num_rounds_ceil_log2 [OF assms(1)] assms round_symmetric [OF assms(1) _ assms(2)]
    round_never_self [OF assms(1)]
  by (auto simp: length_round_pairs)

end
