(* ===== verification/Properties_Channel.thy ===== *)
theory Properties_Channel
  imports Example_System
begin

text \<open>
  The properties of channels and multi-channels: every posted work is completed, what a blocking
  operation is, whose completion a result is, the ids, the end of the busy waits, the cache, and the
  routing and aggregation over several peers.
\<close>

section \<open>Scopes\<close>


definition example_post :: "((channel, dev) scope, nat, ibv_error) comp" where
  "example_post = channel_post_send example_verbs True self_selector example_send"

definition posted_scope :: "(channel, dev) scope" where
  "posted_scope = snd (example_post (scope_new example_channel example_world))"

lemmas example_post_defs =
  posted_scope_def example_post_def channel_post_send_def example_send_def
  send_wr_only_immediate_def

lemma example_post_Ok:
  "example_post (scope_new example_channel example_world) = (Ok 0, posted_scope)"
  by (simp add: example_post_defs example_defs channel_run_defs post_run_defs)

lemma example_scope_run:
  "fst (scope_run 3 example_verbs example_post (scope_new example_channel example_world)) = Ok 0"
  by (simp add: example_post_defs example_defs channel_run_defs post_run_defs)


text \<open>
  C7. What a scope returns: the error of the closure when it failed, a panic when it panicked, and when it
  succeeded its result if every work that the closure had not polled itself has succeeded, otherwise
  the errors of the failed ones, all of them and in the order of the posts.
\<close>

theorem scope_result:
  assumes "poll_ok v" "f sc0 = (c, sc1)" "scope_run fuel v f sc0 = (r, sc2)" "r \<noteq> NoFuel"
  shows "r = (case c of
                Ok x \<Rightarrow>
                  if unpolled_failures (sc_wrs sc2) = [] then Ok x
                  else Err (AutoPollError (unpolled_failures (sc_wrs sc2)))
              | Err e \<Rightarrow> Err (ClosureError e)
              | _ \<Rightarrow> Panic) \<and>
         all_complete (sc_wrs sc2) \<and> works_same (sc_wrs sc2) (sc_wrs sc1)"
  using scope_run_result [OF assms] scope_run_complete [OF assms(1,3,4)] assms(2) by simp

theorem scope_result_witness:
  "all_complete (sc_wrs (snd (scope_run 3 example_verbs example_post
                               (scope_new example_channel example_world)))) \<and>
   unpolled_failures (sc_wrs (snd (scope_run 3 example_verbs example_post
                               (scope_new example_channel example_world)))) = []"
proof -
  let ?sc = "scope_new example_channel example_world"
  obtain r sc2 where r: "scope_run 3 example_verbs example_post ?sc = (r, sc2)"
    by (metis prod.exhaust)
  with example_scope_run have ok: "r = Ok 0" by auto
  then have "r \<noteq> NoFuel" by simp
  note s = scope_result [OF example_poll_ok example_post_Ok r this]
  show ?thesis
  proof (cases "unpolled_failures (sc_wrs sc2) = []")
    case False
    with s ok show ?thesis by simp
  qed (use s r in simp)
qed




text \<open>
  C36. The guarantee of a scope rests on polls that succeed.  When polling the completion queue fails, a
  work posted in a scope is left without a completion while \<open>run\<close> returns: with success when the closure
  waited for the work and ignored the error, with the error of the poll otherwise.  Neither the wait
  nor \<open>drop\<close> tries again, so the buffers are released while the device may still use them.
\<close>

theorem scope_leaves_work_when_polls_fail:
  assumes "polls_fail v"
    and "post \<in> {ch_post_send v oc swr, ch_post_receive v oc rwr, ch_post_write v oc wwr,
                 ch_post_read v oc dwr}"
    and "post (scope_new ch w) = (Ok i, sc1)"
    and "cc_cache (sh_cq (w_shared w (ch_shared ch))) (ch_next_wr_id ch) = None"
  shows "(\<exists>sc2 p. scope_run (Suc fuel) v
             (bind_s post (\<lambda>i sc. (Ok (), snd (scoped_spin_poll (Suc fuel) v i sc)))) (scope_new ch w) =
             (Ok (), sc2) \<and> map sw_work (sc_wrs sc2) = [p] \<and> pw_status p = None) \<and>
         (\<exists>sc2 p e. scope_run (Suc fuel) v post (scope_new ch w) = (Err (AutoPollError [e]), sc2) \<and>
             map sw_work (sc_wrs sc2) = [p] \<and> pw_status p = None)"
proof -
  obtain p w1 where i: "i = 0" and p: "unclaimed p w1"
    and sc1: "sc1 = \<lparr>sc_inner = sc_inner sc1, sc_wrs = [\<lparr>sw_user_polled = False, sw_work = p\<rparr>],
      sc_world = w1\<rparr>"
    using one_post [OF assms(2-4)] by blast
  have status: "pw_status p = None" using p by (simp add: unclaimed_def)
  obtain e w2 where s: "pw_spin_poll (Suc fuel) v (p, w1) = (Err (TIbv e), (p, w2))" "unclaimed p w2"
    using waiting_fails(1) [OF assms(1) p] by blast
  have polled: "snd (scoped_spin_poll (Suc fuel) v i sc1) =
      \<lparr>sc_inner = sc_inner sc1, sc_wrs = [\<lparr>sw_user_polled = True, sw_work = p\<rparr>], sc_world = w2\<rparr>"
    by (subst sc1) (simp add: scoped_spin_poll_def i s put_work_def del: pw_spin_poll.simps)
  obtain w3 where "auto_poll (Suc fuel) v (snd (scoped_spin_poll (Suc fuel) v i sc1)) =
      (Ok NoPendingWorks, \<lparr>sc_inner = sc_inner sc1, sc_wrs = [\<lparr>sw_user_polled = True, sw_work = p\<rparr>],
        sc_world = w3\<rparr>)"
    unfolding polled using auto_poll_fails(1) [OF assms(1) s(2), of fuel "sc_inner sc1"] by metis
  with assms(3) status have ignored: "\<exists>sc2 p. scope_run (Suc fuel) v
      (bind_s post (\<lambda>i sc. (Ok (), snd (scoped_spin_poll (Suc fuel) v i sc)))) (scope_new ch w) =
      (Ok (), sc2) \<and> map sw_work (sc_wrs sc2) = [p] \<and> pw_status p = None"
    by (auto simp: scope_run_def bind_s_def)
  obtain w4 e where "auto_poll (Suc fuel) v sc1 = (Err [TIbv e], \<lparr>sc_inner = sc_inner sc1,
      sc_wrs = [\<lparr>sw_user_polled = False, sw_work = p\<rparr>], sc_world = w4\<rparr>)"
    using auto_poll_fails(2) [OF assms(1) p, of fuel "sc_inner sc1"] sc1 by metis
  with assms(3) status have "\<exists>sc2 p e. scope_run (Suc fuel) v post (scope_new ch w) =
      (Err (AutoPollError [e]), sc2) \<and> map sw_work (sc_wrs sc2) = [p] \<and> pw_status p = None"
    by (auto simp: scope_run_def)
  with ignored show ?thesis by blast
qed

definition failing_verbs :: "dev verbs" where
  "failing_verbs = example_verbs\<lparr>v_poll_cq := \<lambda>_ _ buf h. ((- 1, buf), h)\<rparr>"

theorem scope_leaves_work_when_polls_fail_witness:
  "\<exists>sc2 p. scope_run (Suc 2) failing_verbs
     (bind_s (ch_post_send failing_verbs True example_send)
        (\<lambda>i sc. (Ok (), snd (scoped_spin_poll (Suc 2) failing_verbs i sc))))
     (scope_new example_channel example_world) = (Ok (), sc2) \<and>
     map sw_work (sc_wrs sc2) = [p] \<and> pw_status p = None"
proof -
  have f: "polls_fail failing_verbs" by (simp add: polls_fail_def failing_verbs_def)
  obtain sc1 where post: "ch_post_send failing_verbs True example_send
      (scope_new example_channel example_world) = (Ok 0, sc1)"
    by (simp add: ch_post_send_def channel_post_send_def failing_verbs_def example_send_def
        send_wr_only_immediate_def example_defs channel_run_defs post_run_defs map_err_s_def)
  have c: "cc_cache (sh_cq (w_shared example_world (ch_shared example_channel)))
      (ch_next_wr_id example_channel) = None"
    by (simp add: example_defs cached_wrap_cq_def)
  show ?thesis
    by (rule scope_leaves_work_when_polls_fail [OF f insertI1 post c, THEN conjunct1])
qed

section \<open>Blocking operations\<close>



section \<open>Results, ids and the cache\<close>

text \<open>
  C25. The value a blocking operation returns is the completion the device reported for the id this
  very operation was posted under: a success carries that completion's immediate data and length, a
  work error its status and vendor code.  Completions of other works are never mistaken for it.
\<close>

theorem blocking_result_provenance:
  assumes "poll_ok v" "polls_from v D" "caches_from D w"
    and "(blocking, post) \<in> {(ch_send fuel v oc swr, send_unpolled v oc swr),
                             (ch_receive fuel v oc rwr, receive_unpolled v oc rwr),
                             (ch_write fuel v oc wwr, write_unpolled v oc wwr),
                             (ch_read fuel v oc dwr, read_unpolled v oc dwr)}"
    and "blocking (ch, w) = (r, s')"
  shows "(\<exists>ws. r = Ok ws) \<or> (\<exists>e. r = Err (TWork e)) \<longrightarrow>
         (\<exists>wc \<in> D. wc_wr_id wc = ch_next_wr_id ch \<and>
            r = (case wc_error wc of
                   None \<Rightarrow> Ok \<lparr>ws_imm_data = wc_imm_data wc, ws_scattered_bytes = wc_len wc\<rparr>
                 | Some (st, vendor) \<Rightarrow>
                     Err (TWork \<lparr>we_raw_status = st, we_vendor_code = vendor\<rparr>)))"
proof
  assume ok: "(\<exists>ws. r = Ok ws) \<or> (\<exists>e. r = Err (TWork e))"
  obtain post' where post': "post = unpolled oc post'"
    using assms(4) by (auto simp: send_unpolled_def receive_unpolled_def write_unpolled_def
        read_unpolled_def)
  obtain x ch1 w1 where x: "post (ch, w) = (x, (ch1, w1))" by (metis prod.exhaust)
  from ok assms(5) x blocking_equation [OF assms(1,4), of ch w] obtain p where p: "x = Ok p"
    by (cases x) auto
  obtain r1 p2 w2 where s: "pw_spin_poll fuel v (p, w1) = (r1, (p2, w2))" by (metis prod.exhaust)
  have r: "r1 = r" using assms(5) blocking_equation [OF assms(1,4), of ch w] x p s by simp
  from r ok have "r1 \<noteq> NoFuel" by auto
  with pw_spin_poll_ok [OF assms(1) s] obtain res where
    res: "pw_status p2 = Some res" "r = poll_result_of res" using r by blast
  have id: "pw_wr_id p = ch_next_wr_id ch" "pw_status p = None"
    using unpolled_wr_id [of oc post' ch w p ch1 w1] x p post' by simp_all
  have "caches_from D w1"
    using assms(3) unpolled_world [of oc post' ch w x ch1 w1] x post' by (simp add: caches_from_def)
  from pw_spin_poll_from [OF assms(2) this s] id res(1) obtain wc where
    "wc \<in> D" "wc_wr_id wc = ch_next_wr_id ch" "res = wcp_result (work_completion_new wc)"
    by (auto simp: result_from_def)
  with res(2) show "\<exists>wc \<in> D. wc_wr_id wc = ch_next_wr_id ch \<and>
            r = (case wc_error wc of
                   None \<Rightarrow> Ok \<lparr>ws_imm_data = wc_imm_data wc, ws_scattered_bytes = wc_len wc\<rparr>
                 | Some (st, vendor) \<Rightarrow>
                     Err (TWork \<lparr>we_raw_status = st, we_vendor_code = vendor\<rparr>))"
    by (intro bexI [of _ wc]) (auto simp: work_completion_new_def work_success_new_def
        work_error_new_def split: option.splits prod.splits)
qed

lemma example_send_result:
  "fst (ch_send 3 example_verbs True example_send (example_channel, example_world)) =
     Ok \<lparr>ws_imm_data = None, ws_scattered_bytes = 0\<rparr>"
  by (simp add: ch_send_def ch_post_send_def channel_post_send_def example_send_def
      send_wr_only_immediate_def example_defs channel_run_defs post_run_defs)

theorem blocking_result_provenance_witness:
  "\<exists>wc :: ibv_wc. wc_wr_id wc = ch_next_wr_id example_channel \<and>
        fst (ch_send 3 example_verbs True example_send (example_channel, example_world)) =
          (case wc_error wc of
             None \<Rightarrow> Ok \<lparr>ws_imm_data = wc_imm_data wc, ws_scattered_bytes = wc_len wc\<rparr>
           | Some (st, vendor) \<Rightarrow> Err (TWork \<lparr>we_raw_status = st, we_vendor_code = vendor\<rparr>))"
proof -
  obtain r s' where r: "ch_send 3 example_verbs True example_send (example_channel, example_world) =
      (r, s')" by (metis prod.exhaust)
  have c: "polls_from example_verbs UNIV" "caches_from UNIV example_world"
    by (auto simp: polls_from_def caches_from_def example_world_def cached_wrap_cq_def
        split: prod.splits)
  have "(ch_send 3 example_verbs True example_send, send_unpolled example_verbs True example_send) \<in>
      {(ch_send 3 example_verbs True example_send, send_unpolled example_verbs True example_send),
       (ch_receive 3 example_verbs True rwr, receive_unpolled example_verbs True rwr),
       (ch_write 3 example_verbs True wwr, write_unpolled example_verbs True wwr),
       (ch_read 3 example_verbs True dwr, read_unpolled example_verbs True dwr)}" for rwr wwr dwr
    by simp
  from blocking_result_provenance [OF example_poll_ok c this r]
  have "\<exists>wc :: ibv_wc. wc_wr_id wc = ch_next_wr_id example_channel \<and>
        r = (case wc_error wc of
               None \<Rightarrow> Ok \<lparr>ws_imm_data = wc_imm_data wc, ws_scattered_bytes = wc_len wc\<rparr>
             | Some (st, vendor) \<Rightarrow> Err (TWork \<lparr>we_raw_status = st, we_vendor_code = vendor\<rparr>))"
    using r example_send_result by simp
  then show ?thesis unfolding r by simp
qed



text \<open>
  C35. A busy wait ends when the device makes progress: if every poll of the queue reports the work or
  brings the device closer to it, as counted by \<open>m\<close>, a fuel above \<open>m\<close> is enough.
\<close>

theorem busy_wait_ends:
  assumes "delivers v (cc_cq (sh_cq (w_shared w (pw_shared p)))) (pw_wr_id p) pend m"
    and "sh_buff (w_shared w (pw_shared p)) \<noteq> []" "pend (w_hw w)" "m (w_hw w) < fuel" "poll_ok v"
  shows "\<exists>res p' w'. pw_spin_poll fuel v (p, w) = (poll_result_of res, (p', w')) \<and>
                     pw_status p' = Some res"
proof -
  obtain r p' w' where r: "pw_spin_poll fuel v (p, w) = (r, (p', w'))" by (metis prod.exhaust)
  moreover have "r \<noteq> NoFuel" using pw_spin_poll_terminates [OF assms] r by simp
  ultimately show ?thesis using pw_spin_poll_ok [OF assms(5) r] by auto
qed

definition device_with_completion :: "dev world" where
  "device_with_completion = example_world\<lparr>w_hw := dev_init\<lparr>dv_done := [ok_wc 4, ok_wc 0]\<rparr>\<rparr>"

lemma example_delivers:
  "delivers example_verbs example_cq 0 (\<lambda>d. ok_wc 0 \<in> set (dv_done d)) (\<lambda>d. length (dv_done d))"
proof -
  have "buf \<noteq> [] \<Longrightarrow> ok_wc 0 \<in> set (dv_done h) \<Longrightarrow>
        (case cq_poll example_verbs example_cq (buf, h) of
           (Ok wcs, (buf', h')) \<Rightarrow>
             buf' \<noteq> [] \<and> (0 \<in> wc_wr_id ` set wcs \<or>
               ok_wc 0 \<in> set (dv_done h') \<and> length (dv_done h') < length (dv_done h))
         | _ \<Rightarrow> True)" for buf h
    by (cases buf; cases "dv_done h")
      (auto simp: cq_poll_def dev_poll_def Let_def i32_max_def ok_wc_def split: if_splits)
  then show ?thesis unfolding delivers_def by blast
qed

theorem busy_wait_ends_witness:
  "\<exists>res p' w'. pw_spin_poll 3 example_verbs (pending_work_new 0 0, device_with_completion) =
                 (poll_result_of res, (p', w')) \<and> pw_status p' = Some res"
proof (rule busy_wait_ends)
  show "delivers example_verbs
          (cc_cq (sh_cq (w_shared device_with_completion (pw_shared (pending_work_new 0 0)))))
          (pw_wr_id (pending_work_new 0 0)) (\<lambda>d. ok_wc 0 \<in> set (dv_done d)) (\<lambda>d. length (dv_done d))"
    using example_delivers
    by (simp add: device_with_completion_def example_world_def cached_wrap_cq_def
        pending_work_new_def)
qed (simp_all add: device_with_completion_def example_world_def pending_work_new_def
    example_poll_ok)



section \<open>Several peers\<close>




text \<open>
  Peer routing: a blocking operation of the multi-channel on a peer is the operation of that peer's
  channel, with its result, and changes no other channel; for a peer out of range it returns
  \<open>NotFound\<close> and changes nothing.
\<close>

theorem peer_routing:
  assumes "(op, peer, ch_op) \<in>
             {(mc_send fuel v oc sp, psw_peer sp, ch_send fuel v oc (psw_wr sp)),
              (mc_receive fuel v oc rp, prw_peer rp, ch_receive fuel v oc (prw_wr rp)),
              (mc_write fuel v oc wp, pww_peer wp, ch_write fuel v oc (pww_wr wp)),
              (mc_read fuel v oc dp, prd_peer dp, ch_read fuel v oc (prd_wr dp))}"
  shows "op (m, w) =
     (if peer < mc_num_channels m then
        (case ch_op (mc_channels m ! peer, w) of
           (r, (ch', w')) \<Rightarrow> (r, (m\<lparr>mc_channels := (mc_channels m)[peer := ch']\<rparr>, w')))
      else (Err (TIbv (NotFound (''Peer '' @ show_nat peer @ '' not found''))), (m, w)))"
proof -
  have "op = at_channel TIbv peer ch_op"
    using assms by (auto simp: mc_send_def mc_receive_def mc_write_def mc_read_def)
  then show ?thesis
    using at_channel_in_range [of peer m TIbv ch_op w] at_channel_out_of_range [of m peer TIbv ch_op w]
    by (simp add: mc_set_channel_def peer_not_found_def split: prod.splits)
qed

theorem peer_routing_witness:
  "mc_send 3 example_verbs True \<lparr>psw_peer = 7, psw_wr = example_send\<rparr> (example_mc, example_world) =
     (Err (TIbv (NotFound (''Peer '' @ show_nat 7 @ '' not found''))), (example_mc, example_world))"
proof -
  have "(mc_send 3 example_verbs True sp, psw_peer sp, ch_send 3 example_verbs True (psw_wr sp)) \<in>
      {(mc_send 3 example_verbs True sp, psw_peer sp, ch_send 3 example_verbs True (psw_wr sp)),
       (mc_receive 3 example_verbs True rp, prw_peer rp, ch_receive 3 example_verbs True (prw_wr rp)),
       (mc_write 3 example_verbs True wp, pww_peer wp, ch_write 3 example_verbs True (pww_wr wp)),
       (mc_read 3 example_verbs True dp, prd_peer dp, ch_read 3 example_verbs True (prd_wr dp))}"
    for sp rp wp dp by simp
  from peer_routing [OF this, of "\<lparr>psw_peer = 7, psw_wr = example_send\<rparr>" example_mc example_world]
  show ?thesis by (simp add: mc_num_channels_def example_mc_def)
qed

text \<open>
  The unpolled scatter, gather and multicast post in order and, when they succeed, return exactly
  one unfinished pending work per request, in the order of the requests, each bound to the completion
  queue of its own peer's channel; every peer named was in range.
\<close>

theorem unpolled_lists:
  assumes "(op, peers) \<in>
             {(scatter_send_unpolled fuel v oc swrs, map psw_peer swrs),
              (scatter_write_unpolled fuel v oc wwrs, map pww_peer wwrs),
              (gather_receive_unpolled fuel v oc rwrs, map prw_peer rwrs),
              (gather_read_unpolled fuel v oc dwrs, map prd_peer dwrs),
              (multicast_send_unpolled fuel v oc ps wr, ps)}"
    and "op (m, w) = (Ok works, (m', w'))"
  shows "length works = length peers \<and>
         (\<forall>i < length peers. peers ! i < mc_num_channels m \<and> pw_status (works ! i) = None \<and>
            pw_shared (works ! i) = ch_shared (mc_channels m ! (peers ! i)))"
proof -
  note un = scatter_send_unpolled_def scatter_write_unpolled_def gather_receive_unpolled_def
    gather_read_unpolled_def multicast_send_unpolled_def
  consider (a) "collect_s (mc_send_unpolled v oc) swrs (m, w) = (Ok works, (m', w'))"
      "peers = map psw_peer swrs"
    | (b) "collect_s (mc_write_unpolled v oc) wwrs (m, w) = (Ok works, (m', w'))"
      "peers = map pww_peer wwrs"
    | (c) "collect_s (mc_receive_unpolled v oc) rwrs (m, w) = (Ok works, (m', w'))"
      "peers = map prw_peer rwrs"
    | (d) "collect_s (mc_read_unpolled v oc) dwrs (m, w) = (Ok works, (m', w'))"
      "peers = map prd_peer dwrs"
    | (e) "collect_s (\<lambda>peer. mc_send_unpolled v oc (peer_send_from_wr peer wr)) ps (m, w) =
             (Ok works, (m', w'))" "peers = ps"
    using assms by (auto simp: un collect_pending_Ok)
  then show ?thesis
  proof cases
    case a
    from collect_unpolled_Ok [OF _ a(1), of id psw_peer oc] a(2) show ?thesis
      by (auto simp: mc_unpolled_at)
  next
    case b
    from collect_unpolled_Ok [OF _ b(1), of id pww_peer oc] b(2) show ?thesis
      by (auto simp: mc_unpolled_at)
  next
    case c
    from collect_unpolled_Ok [OF _ c(1), of id prw_peer oc] c(2) show ?thesis
      by (auto simp: mc_unpolled_at)
  next
    case d
    from collect_unpolled_Ok [OF _ d(1), of id prd_peer oc] d(2) show ?thesis
      by (auto simp: mc_unpolled_at)
  next
    case e
    from collect_unpolled_Ok [OF _ e(1), of id id oc] e(2) show ?thesis
      by (auto simp: mc_unpolled_at peer_send_from_wr_def)
  qed
qed

lemma example_unpolled_multicast:
  "\<exists>works m w. multicast_send_unpolled 3 example_verbs True [0, 1] example_send
                 (example_mc, example_world) = (Ok works, (m, w))"
  by (simp add: multicast_send_unpolled_def mc_send_unpolled_def at_channel_def peer_send_from_wr_def
      mc_channel_def mc_set_channel_def example_send_def send_wr_only_immediate_def example_defs
      channel_run_defs post_run_defs)

theorem unpolled_lists_witness:
  "\<exists>works s'. multicast_send_unpolled 3 example_verbs True [0, 1] example_send
                (example_mc, example_world) = (Ok works, s') \<and> length works = 2"
proof -
  let ?op = "multicast_send_unpolled 3 example_verbs True [0, 1] example_send"
  obtain works m w where r: "?op (example_mc, example_world) = (Ok works, (m, w))"
    using example_unpolled_multicast by blast
  have "(?op, [0, 1]) \<in>
             {(scatter_send_unpolled 3 example_verbs True [], map psw_peer []),
              (scatter_write_unpolled 3 example_verbs True [], map pww_peer []),
              (gather_receive_unpolled 3 example_verbs True [], map prw_peer []),
              (gather_read_unpolled 3 example_verbs True [], map prd_peer []),
              (?op, [0, 1])}" by simp
  from unpolled_lists [OF this r] r show ?thesis by auto
qed

section \<open>Construction\<close>

text \<open>
  The multi-channel handshake: with a wrong number of endpoints it fails with \<open>InvalidInput\<close> and
  changes nothing; when it succeeds there is one channel per endpoint, in order, on the prepared queue
  pair, with its own completion cache that no other channel shares, and ids starting at 0.
\<close>

theorem multi_channel_handshake_result:
  "case multi_channel_handshake v p endpoints w of
     (Ok m, w') \<Rightarrow>
       length endpoints = length (pmc_channels p) \<and> mc_num_channels m = length endpoints \<and>
       mc_pd m = pmc_pd p \<and>
       (\<forall>i < length endpoints.
          ch_qp (mc_channels m ! i) = pqp_qp (pch_qp (pmc_channels p ! i)) \<and>
          ch_next_wr_id (mc_channels m ! i) = 0 \<and>
          sh_cq (w_shared w' (ch_shared (mc_channels m ! i))) = pch_cq (pmc_channels p ! i)) \<and>
       distinct (map ch_shared (mc_channels m)) \<and>
       (\<forall>ref < w_next w. ref \<notin> set (map ch_shared (mc_channels m)) \<and> w_shared w' ref = w_shared w ref)
   | (Err e, w') \<Rightarrow>
       length endpoints \<noteq> length (pmc_channels p) \<longrightarrow> w' = w \<and> class_of e = CInvalidInput
   | (_, w') \<Rightarrow> length endpoints = length (pmc_channels p)"
proof (cases "length (pmc_channels p) = length endpoints")
  case False
  then show ?thesis by (simp add: multi_channel_handshake_def lift_s_def)
next
  case True
  let ?z = "zip (pmc_channels p) endpoints"
  obtain x w' where
    x: "collect_s (\<lambda>ce. channel_handshake v (fst ce) (snd ce)) ?z w = (x, w')"
    by (metis prod.exhaust)
  show ?thesis
  proof (cases x)
    case (Ok chs)
    from True x Ok have
      h: "multi_channel_handshake v p endpoints w = (Ok \<lparr>mc_channels = chs, mc_pd = pmc_pd p\<rparr>, w')"
      by (simp add: multi_channel_handshake_def bind_s_def ret_s_def)
    from collect_handshake_Ok [OF x [unfolded Ok]] True h show ?thesis
      by (simp add: mc_num_channels_def)
  qed (use True x in \<open>simp_all add: multi_channel_handshake_def bind_s_def\<close>)
qed

theorem multi_channel_handshake_result_witness:
  "\<exists>e w'. multi_channel_handshake example_verbs \<lparr>pmc_channels = [], pmc_pd = example_pd\<rparr>
            [\<lparr>ep_num = 8, ep_lid = 1\<rparr>] example_world = (Err e, w') \<and> class_of e = CInvalidInput"
proof -
  let ?p = "\<lparr>pmc_channels = [], pmc_pd = example_pd\<rparr>"
  have e: "\<exists>e. multi_channel_handshake example_verbs ?p [\<lparr>ep_num = 8, ep_lid = 1\<rparr>] example_world =
      (Err e, example_world)"
    by (simp add: multi_channel_handshake_def lift_s_def)
  then obtain e where e: "multi_channel_handshake example_verbs ?p [\<lparr>ep_num = 8, ep_lid = 1\<rparr>]
      example_world = (Err e, example_world)" by blast
  from multi_channel_handshake_result [where v = example_verbs and p = ?p and
      endpoints = "[\<lparr>ep_num = 8, ep_lid = 1\<rparr>]" and w = example_world, unfolded e] have "class_of e = CInvalidInput" by simp
  with e show ?thesis by blast
qed



end
