(* ===== verification/Network_Config.thy ===== *)
theory Network_Config
  imports Prelude "HOL-Library.Multiset"
begin

text \<open>
  \<open>src/network/config.rs\<close>: the raw list of hosts and its validation into a configuration whose
  position \<open>i\<close> is the host of rank \<open>i\<close>.  The error lemmas give, for every raw list, which error the
  validation reports and with which rank.
\<close>

section \<open>The configuration\<close>

record node_config =
  hostname :: string
  port :: u16
  ibdev :: string
  rankid :: nat
  comment :: string

datatype network_config_error =
    EmptyNetwork
  | FirstRankNotZero
  | NonSequentialRanks nat
  | DuplicatedRank nat

type_synonym raw_network_config = "node_config list"
type_synonym network_config = "node_config list"

definition raw_config_builder :: raw_network_config where
  "raw_config_builder = []"

definition add_node :: "raw_network_config \<Rightarrow> node_config \<Rightarrow> raw_network_config" where
  "add_node raw node = raw @ [node]"

definition truncate_config :: "raw_network_config \<Rightarrow> nat \<Rightarrow> raw_network_config" where
  "truncate_config raw num_nodes = take num_nodes raw"

text \<open>One round of the loop \<open>for i in 1..self.hosts.len()\<close>, and the loop.\<close>

definition check_rank :: "node_config list \<Rightarrow> nat \<Rightarrow> (unit, network_config_error) outcome" where
  "check_rank hosts i =
     (let node_config = hosts ! i in
      if rankid node_config = rankid (hosts ! (i - 1)) then Err (DuplicatedRank (rankid node_config))
      else if rankid node_config \<noteq> i then Err (NonSequentialRanks i)
      else Ok ())"

fun check_ranks :: "node_config list \<Rightarrow> nat list \<Rightarrow> (unit, network_config_error) outcome" where
  "check_ranks hosts [] = Ok ()"
| "check_ranks hosts (i # js) = bind_outcome (check_rank hosts i) (\<lambda>_. check_ranks hosts js)"

text \<open>\<open>sort_by_key\<close> is stable, as \<open>sort_key\<close> is.\<close>

definition config_build :: "raw_network_config \<Rightarrow> (network_config, network_config_error) outcome" where
  "config_build raw =
     (let hosts = sort_key rankid raw in
      if hosts = [] then Err EmptyNetwork
      else if rankid (hosts ! 0) \<noteq> 0 then Err FirstRankNotZero
      else bind_outcome (check_ranks hosts [1..<length hosts]) (\<lambda>_. Ok hosts))"

definition world_size :: "network_config \<Rightarrow> nat" where
  "world_size c = length c"

section \<open>The outcome of the validation\<close>

abbreviation hosts_of_rank :: "node_config list \<Rightarrow> nat \<Rightarrow> nat" where
  "hosts_of_rank hosts r \<equiv> count_list (map rankid hosts) r"

lemma hosts_of_rank_sort [simp]: "hosts_of_rank (sort_key rankid raw) r = hosts_of_rank raw r"
proof -
  have "mset (map rankid (sort_key rankid raw)) = mset (map rankid raw)" by simp
  then show ?thesis by (metis count_mset)
qed

lemma count_list_upt: "count_list [0..<n] i = (if i < n then 1 else 0)"
  by (induction n) auto

lemma count_list_upt_in: "i < n \<Longrightarrow> count_list [0..<n] i = 1"
  by (simp add: count_list_upt)

text \<open>A sorted list of ranks that is \<open>0, 1, .., k - 1\<close> up to \<open>k\<close>.\<close>

lemma sorted_prefix_counts:
  fixes xs :: "nat list"
  assumes "sorted xs" "k \<le> length xs" "\<forall>j < k. xs ! j = j" "\<forall>j. k \<le> j \<and> j < length xs \<longrightarrow> b \<le> xs ! j"
    and "i < b" "b \<le> k"
  shows "count_list xs i = 1"
proof -
  have t: "take k xs = [0..<k]"
    using assms(2,3) by (auto simp: list_eq_iff_nth_eq)
  have "i \<notin> set (drop k xs)"
  proof
    assume "i \<in> set (drop k xs)"
    then obtain j where "j < length xs - k" "i = xs ! (k + j)" by (auto simp: in_set_conv_nth)
    then have "k + j < length xs" by linarith
    with assms(4) [rule_format, of "k + j"] assms(5) \<open>i = xs ! (k + j)\<close> show False by simp
  qed
  then have d: "count_list (drop k xs) i = 0" by (simp add: count_list_0_iff)
  have count_upt: "count_list [0..<k] i = 1"
    by (rule count_list_upt_in) (use assms(5,6) in simp)
  have "count_list xs i = count_list (take k xs) i + count_list (drop k xs) i"
    by (metis append_take_drop_id count_list_append)
  then show ?thesis by (simp add: t d count_upt)
qed

lemma check_ranks_outcome:
  assumes "\<forall>j < k. rankid (hosts ! j) = j" "1 \<le> k" "k \<le> length hosts"
  shows "case check_ranks hosts [k..<length hosts] of
      Ok _ \<Rightarrow> \<forall>j < length hosts. rankid (hosts ! j) = j
    | Err (DuplicatedRank d) \<Rightarrow>
        Suc d < length hosts \<and> (\<forall>j < Suc d. rankid (hosts ! j) = j) \<and> rankid (hosts ! Suc d) = d
    | Err (NonSequentialRanks g) \<Rightarrow>
        0 < g \<and> g < length hosts \<and> (\<forall>j < g. rankid (hosts ! j) = j) \<and>
        rankid (hosts ! g) \<noteq> g \<and> rankid (hosts ! g) \<noteq> g - 1
    | _ \<Rightarrow> False"
  using assms
proof (induction "length hosts - k" arbitrary: k)
  case 0
  then show ?case by simp
next
  case (Suc n)
  then have k: "k < length hosts" by simp
  then have u: "[k..<length hosts] = k # [Suc k..<length hosts]" by (simp add: upt_conv_Cons)
  have prev: "rankid (hosts ! (k - 1)) = k - 1" using Suc.prems by simp
  show ?case
  proof (cases "rankid (hosts ! k) = k")
    case True
    with prev Suc.prems have "check_rank hosts k = Ok ()"
      by (auto simp: check_rank_def Let_def)
    moreover have "\<forall>j < Suc k. rankid (hosts ! j) = j"
      using Suc.prems(1) True by (simp add: less_Suc_eq)
    ultimately show ?thesis
      using Suc.hyps(1) [of "Suc k"] Suc.hyps(2) k by (simp add: u)
  next
    case False
    show ?thesis
    proof (cases "rankid (hosts ! k) = k - 1")
      case True
      with prev have "check_rank hosts k = Err (DuplicatedRank (k - 1))"
        by (simp add: check_rank_def Let_def)
      with Suc.prems True k show ?thesis by (simp add: u)
    next
      case n: False
      with prev False have "check_rank hosts k = Err (NonSequentialRanks k)"
        by (simp add: check_rank_def Let_def)
      with Suc.prems False n k show ?thesis by (simp add: u)
    qed
  qed
qed

text \<open>The outcome of the validation, in terms of how often each rank occurs.\<close>

lemma config_build_outcome:
  "case config_build raw of
      Ok c \<Rightarrow> c = sort_key rankid raw \<and> raw \<noteq> [] \<and> (\<forall>i < length raw. rankid (c ! i) = i)
    | Err EmptyNetwork \<Rightarrow> raw = []
    | Err FirstRankNotZero \<Rightarrow> raw \<noteq> [] \<and> hosts_of_rank raw 0 = 0
    | Err (DuplicatedRank d) \<Rightarrow> (\<forall>i < d. hosts_of_rank raw i = 1) \<and> 2 \<le> hosts_of_rank raw d
    | Err (NonSequentialRanks g) \<Rightarrow>
        0 < g \<and> (\<forall>i < g. hosts_of_rank raw i = 1) \<and> hosts_of_rank raw g = 0 \<and>
        (\<exists>h \<in> set raw. g < rankid h)
    | _ \<Rightarrow> False"
proof -
  let ?h = "sort_key rankid raw"
  let ?r = "map rankid ?h"
  have len: "length ?h = length raw" by simp
  have sorted: "sorted ?r" by simp
  have mono: "?r ! i \<le> ?r ! j" if "i \<le> j" "j < length raw" for i j
    using sorted_nth_mono [OF sorted that(1)] that(2) by simp
  have count: "count_list ?r i = hosts_of_rank raw i" for i by simp
  show ?thesis
  proof (cases "raw = []")
    case True
    then show ?thesis by (simp add: config_build_def)
  next
    case ne: False
    then have ne': "?h \<noteq> []" by (metis len length_0_conv)
    show ?thesis
    proof (cases "rankid (?h ! 0) = 0")
      case False
      have "0 < ?r ! j" if "j < length raw" for j
        using mono [of 0 j] that False ne by simp
      then have "0 \<notin> set ?r"
        by (metis in_set_conv_nth len length_map less_numeral_extra(3))
      with False ne ne' count [of 0] show ?thesis
        by (simp add: config_build_def Let_def count_list_0_iff)
    next
      case True
      have b: "config_build raw =
          bind_outcome (check_ranks ?h [1..<length ?h]) (\<lambda>_. Ok ?h)"
        using True ne' by (simp add: config_build_def Let_def)
      have out: "case check_ranks ?h [1..<length ?h] of
            Ok _ \<Rightarrow> \<forall>j < length ?h. rankid (?h ! j) = j
          | Err (DuplicatedRank d) \<Rightarrow>
              Suc d < length ?h \<and> (\<forall>j < Suc d. rankid (?h ! j) = j) \<and> rankid (?h ! Suc d) = d
          | Err (NonSequentialRanks g) \<Rightarrow>
              0 < g \<and> g < length ?h \<and> (\<forall>j < g. rankid (?h ! j) = j) \<and>
              rankid (?h ! g) \<noteq> g \<and> rankid (?h ! g) \<noteq> g - 1
          | _ \<Rightarrow> False"
        using True ne' by (intro check_ranks_outcome) (auto simp: Suc_le_eq)
      consider (ok) "check_ranks ?h [1..<length ?h] = Ok ()"
        | (dup) d where "check_ranks ?h [1..<length ?h] = Err (DuplicatedRank d)"
        | (gap) g where "check_ranks ?h [1..<length ?h] = Err (NonSequentialRanks g)"
        using out by (auto split: outcome.splits network_config_error.splits)
      then show ?thesis
      proof cases
        case ok
        with out b ne show ?thesis by simp
      next
        case dup
        with out have d: "Suc d < length raw" "\<forall>j < Suc d. ?r ! j = j" "?r ! Suc d = d"
          by auto
        have low: "\<forall>j. Suc d \<le> j \<and> j < length ?r \<longrightarrow> d \<le> ?r ! j"
          using mono [of "Suc d"] d by auto
        have "count_list ?r i = 1" if "i < d" for i
          by (rule sorted_prefix_counts [OF sorted _ d(2) low that]) (use d in auto)
        moreover have "take (Suc (Suc d)) ?r = [0..<d] @ [d, d]"
          using d by (auto simp: list_eq_iff_nth_eq nth_append less_Suc_eq)
        then have "2 \<le> count_list (take (Suc (Suc d)) ?r @ drop (Suc (Suc d)) ?r) d"
          unfolding count_list_append by simp
        then have "2 \<le> count_list ?r d" unfolding append_take_drop_id .
        ultimately show ?thesis
          using dup b by (simp only: count) simp
      next
        case gap
        with out have g: "0 < g" "g < length raw" "\<forall>j < g. ?r ! j = j" "?r ! g \<noteq> g" "?r ! g \<noteq> g - 1"
          by auto
        have "g - 1 \<le> ?r ! g" using mono [of "g - 1" g] g by auto
        with g have gt: "g < ?r ! g" by linarith
        have low: "\<forall>j. g \<le> j \<and> j < length ?r \<longrightarrow> g \<le> ?r ! j"
          using mono [of g] gt by fastforce
        have low': "\<forall>j. g \<le> j \<and> j < length ?r \<longrightarrow> g < ?r ! j"
          using mono [of g] gt by fastforce
        have "count_list ?r i = 1" if "i < g" for i
          by (rule sorted_prefix_counts [OF sorted _ g(3) low that]) (use g in auto)
        moreover have "g \<notin> set ?r"
        proof
          assume "g \<in> set ?r"
          then obtain j where "j < length ?r" "?r ! j = g" by (auto simp only: in_set_conv_nth)
          with low' [rule_format, of j] g(3) [rule_format, of j] show False
            by (cases "j < g") (simp_all only: not_less, simp_all)
        qed
        then have "count_list ?r g = 0" by (simp only: count_list_0_iff not_False_eq_True)
        moreover have "?h ! g \<in> set ?h" using g(2) by (intro nth_mem) simp
        then have "\<exists>h \<in> set raw. g < rankid h" using gt g(2) by auto
        ultimately show ?thesis
          using gap b g(1) by (simp only: count) simp
      qed
    qed
  qed
qed

text \<open>The cases exclude each other, so each describes its outcome exactly.\<close>

lemma config_build_sound:
  "config_build raw = Ok c \<Longrightarrow>
     c = sort_key rankid raw \<and> length c = length raw \<and> raw \<noteq> [] \<and> (\<forall>i < length raw. rankid (c ! i) = i)"
  using config_build_outcome [of raw] by auto

lemma build_Ok_counts:
  assumes "config_build raw = Ok c"
  shows "hosts_of_rank raw i = (if i < length raw then 1 else 0)"
proof -
  note sound = config_build_sound [OF assms]
  note c = sound [THEN conjunct1] sound [THEN conjunct2, THEN conjunct1]
    sound [THEN conjunct2, THEN conjunct2, THEN conjunct2]
  have "map rankid c = [0..<length raw]"
    by (rule nth_equalityI) (simp_all add: c(2,3))
  then have "hosts_of_rank c i = (if i < length raw then 1 else 0)"
    by (simp only: count_list_upt)
  then show ?thesis unfolding c(1) by simp
qed

end
