(* ===== verification/Properties_Verbs.thy ===== *)
theory Properties_Verbs
  imports Example_System Network_Config
begin

text \<open>
  The properties of the bindings and of the configuration: memory regions and offsets, scatter/gather
  elements, the tuning parameters of a queue pair, the codes and the immediate data of completions,
  and the validation of a network configuration.
\<close>

section \<open>Remote regions\<close>

text \<open>
  Sub-regions nest: a sub-region keeps the end and the key of its region and lies inside it, and a
  sub-region of a sub-region is the sub-region at the sum of the offsets.
\<close>

theorem sub_regions_nest:
  assumes "sub_region r a = Some r1" "sub_region r1 b = Some r2"
  shows "(sub_region r (a + b) = Some r2) \<and>
    (unat (rmr_addr r2) = unat (rmr_addr r) + unat a + unat b) \<and>
    (unat (rmr_addr r2) + unat (rmr_length r2) = unat (rmr_addr r) + unat (rmr_length r)) \<and>
    (rmr_rkey r2 = rmr_rkey r)"
  using sub_region_sub_region [OF assms] sub_region_values [OF assms(1)]
    sub_region_values [OF assms(2)] assms
  by (auto simp: sub_region_Some)

theorem sub_regions_nest_witness:
  "sub_region (rmr_new 4096 64 6) (8 + 24) = Some (rmr_new 4128 32 6)"
proof -
  have 1: "sub_region (rmr_new 4096 64 6) 8 = Some (rmr_new 4104 56 6)"
    and 2: "sub_region (rmr_new 4104 56 6) 24 = Some (rmr_new 4128 32 6)"
    by (simp_all add: sub_region_def rmr_new_def checked_add_def)
  show ?thesis by (rule sub_regions_nest [OF 1 2, THEN conjunct1])
qed

text \<open>
  The array-of-structs macro: the field it returns for element \<open>i\<close> starts at
  \<open>i * size + field offset\<close> inside the region, without wrap-around, and the fields of two different
  elements never overlap.
\<close>

theorem struct_array_fields_disjoint:
  assumes "remote_struct_array_field r sz i fo = Some ri"
    and "remote_struct_array_field r sz j fo = Some rj"
    and "unat fo + n \<le> unat sz" "i \<noteq> j"
  shows "(unat (rmr_addr ri) = unat (rmr_addr r) + unat i * unat sz + unat fo) \<and>
    (unat (rmr_addr ri) \<le> unat (rmr_addr r) + unat (rmr_length r)) \<and>
    (unat (rmr_addr ri) + n \<le> unat (rmr_addr rj) \<or> unat (rmr_addr rj) + n \<le> unat (rmr_addr ri))"
proof (rule conjI [OF _ conjI])
  note vi = remote_struct_array_field_values [OF assms(1)]
  note vj = remote_struct_array_field_values [OF assms(2)]
  show "unat (rmr_addr ri) = unat (rmr_addr r) + unat i * unat sz + unat fo"
    and "unat (rmr_addr ri) \<le> unat (rmr_addr r) + unat (rmr_length r)"
    using vi by simp_all
  have "unat i \<noteq> unat j" using assms(4) by (simp add: word_unat_eq_iff)
  then consider "Suc (unat i) \<le> unat j" | "Suc (unat j) \<le> unat i" by linarith
  then show "unat (rmr_addr ri) + n \<le> unat (rmr_addr rj) \<or>
             unat (rmr_addr rj) + n \<le> unat (rmr_addr ri)"
  proof cases
    case 1
    have "Suc (unat i) * unat sz \<le> unat j * unat sz" using 1 by (rule mult_right_mono) simp
    with vi(1) vj(1) assms(3) show ?thesis by simp
  next
    case 2
    have "Suc (unat j) * unat sz \<le> unat i * unat sz" using 2 by (rule mult_right_mono) simp
    with vi(1) vj(1) assms(3) show ?thesis by simp
  qed
qed

theorem struct_array_fields_disjoint_witness:
  "\<exists>r0 r1. remote_struct_array_field (rmr_new 4096 48 6) 24 0 16 = Some r0 \<and>
           remote_struct_array_field (rmr_new 4096 48 6) 24 1 16 = Some r1 \<and>
           (unat (rmr_addr r0) + 8 \<le> unat (rmr_addr r1) \<or> unat (rmr_addr r1) + 8 \<le> unat (rmr_addr r0))"
proof -
  have 0: "remote_struct_array_field (rmr_new 4096 48 6) 24 0 16 = Some (rmr_new 4112 32 6)"
    and 1: "remote_struct_array_field (rmr_new 4096 48 6) 24 1 16 = Some (rmr_new 4136 8 6)"
    by (simp_all add: remote_struct_array_field_def checked_mul_def checked_add_def sub_region_def
        rmr_new_def)
  from struct_array_fields_disjoint [OF 0 1, of 8, THEN conjunct2, THEN conjunct2] 0 1 show ?thesis by simp
qed

text \<open>
  The unchecked variants agree with the checked ones wherever these succeed, with and without
  overflow checks; and with overflow checks on they succeed nowhere else.
\<close>

theorem unchecked_refines_checked:
  fixes r' :: remote_memory_region
  shows "((remote_struct_array_field_unchecked True r sz i fo ::
             (remote_memory_region, 'e) outcome) = Ok r' \<longleftrightarrow>
            remote_struct_array_field r sz i fo = Some r') \<and>
         (remote_struct_array_field r sz i fo = Some r' \<longrightarrow>
            (remote_struct_array_field_unchecked oc r sz i fo ::
               (remote_memory_region, 'e) outcome) = Ok r')"
proof -
  have to_unchecked: "(remote_struct_array_field_unchecked oc r sz i fo ::
      (remote_memory_region, 'e) outcome) = Ok r'"
    if f: "remote_struct_array_field r sz i fo = Some r'" for oc
  proof -
    from f have b: "unat i * unat sz + unat fo < 2 ^ 64" and s: "sub_region r (i * sz + fo) = Some r'"
      by (simp_all add: remote_struct_array_field_Some)
    from b have "unat (i * sz) = unat i * unat sz" by (simp add: unat_word_ariths)
    with b sub_region_unchecked_eq [OF s] show ?thesis
      by (simp add: remote_struct_array_field_unchecked_def plain_mul_def plain_add_def)
  qed
  have "remote_struct_array_field r sz i fo = Some r'"
    if u: "(remote_struct_array_field_unchecked True r sz i fo ::
      (remote_memory_region, 'e) outcome) = Ok r'"
  proof -
    from u have m: "unat i * unat sz < 2 ^ 64"
      by (auto simp: remote_struct_array_field_unchecked_def plain_mul_def bind_outcome_eq_Ok
          split: if_splits)
    then have v: "unat (i * sz) = unat i * unat sz" by (simp add: unat_word_ariths)
    with u m have "unat i * unat sz + unat fo < 2 ^ 64"
      "(sub_region_unchecked True r (i * sz + fo) :: (remote_memory_region, 'e) outcome) = Ok r'"
      by (auto simp: remote_struct_array_field_unchecked_def plain_mul_def plain_add_def
          bind_outcome_eq_Ok split: if_splits)
    then show ?thesis by (simp add: remote_struct_array_field_Some sub_region_unchecked_debug)
  qed
  with to_unchecked show ?thesis by blast
qed

theorem unchecked_refines_checked_witness:
  "remote_struct_array_field_unchecked False (rmr_new 4096 48 6) 24 1 16 =
     (Ok (rmr_new 4136 8 6) :: (remote_memory_region, unit) outcome)"
proof -
  have "remote_struct_array_field (rmr_new 4096 48 6) 24 1 16 = Some (rmr_new 4136 8 6)"
    by (simp add: remote_struct_array_field_def checked_mul_def checked_add_def sub_region_def
        rmr_new_def)
  with unchecked_refines_checked [of "rmr_new 4096 48 6" 24 1 16 "rmr_new 4136 8 6" False]
  show ?thesis by blast
qed

section \<open>Local elements\<close>

text \<open>
  C31. An element accepted by \<open>new_checked\<close> gives the device the slice exactly, its length not truncated
  to 32 bits, under the region's local key, and every byte of it is a byte of the region; \<open>new\<close> accepts
  the same slices where debug assertions are on.
\<close>

theorem checked_elements_in_region:
  assumes "gather_new_checked m s = Ok (GatherElement g) \<or> scatter_new_checked m s = Ok (ScatterElement g)"
  shows "(sge_addr g = sl_ptr s \<and> unat (sge_length g) = unat (sl_len s) \<and> sge_lkey g = mreg_lkey m) \<and>
    (\<forall>k < unat (sge_length g).
           unat (mreg_address m) \<le> unat (sge_addr g) + k \<and>
           unat (sge_addr g) + k < unat (mreg_address m) + unat (mreg_length m)) \<and>
    (gather_new True m s = Ok (GatherElement g) \<and> scatter_new True m s = Ok (ScatterElement g))"
proof (rule conjI [OF _ conjI])
  from assms have c: "sl_len s \<le> 0xFFFFFFFF" "encloses_slice m s" "g = sge_of m s"
    by (auto simp: gather_new_checked_Ok scatter_new_checked_Ok)
  show 1: "sge_addr g = sl_ptr s \<and> unat (sge_length g) = unat (sl_len s) \<and> sge_lkey g = mreg_lkey m"
    using c(1) by (simp add: c(3) sge_of_def small_len_cast)
  show "\<forall>k < unat (sge_length g).
           unat (mreg_address m) \<le> unat (sge_addr g) + k \<and>
           unat (sge_addr g) + k < unat (mreg_address m) + unat (mreg_length m)"
    using c(2) 1 by (auto simp: encloses_slice_def encloses_iff)
  show "gather_new True m s = Ok (GatherElement g) \<and> scatter_new True m s = Ok (ScatterElement g)"
    using c by (simp add: gather_new_def scatter_new_def gather_new_unchecked_def
        scatter_new_unchecked_def)
qed

theorem checked_elements_in_region_witness:
  "\<exists>g. gather_new_checked (example_region 0) \<lparr>sl_ptr = 4104, sl_len = 8\<rparr> = Ok (GatherElement g) \<and>
       unat (sge_length g) = 8"
proof -
  let ?s = "\<lparr>sl_ptr = 4104, sl_len = 8\<rparr>"
  have g: "gather_new_checked (example_region 0) ?s = Ok (GatherElement (sge_of (example_region 0) ?s))"
    by (simp add: gather_new_checked_Ok encloses_slice_def encloses_iff example_region_def
        mreg_address_def mreg_length_def)
  from checked_elements_in_region [OF disjI1, OF g, THEN conjunct1] g show ?thesis by auto
qed

section \<open>Queue pair parameters\<close>

text \<open>
  C39. \<open>MinRnrTimer::min_duration_greater_than\<close> chooses the shortest timer of the table that is at least
  the requested duration; a request above the table's largest entry gets code 0, the timer of
  655.36 ms, which covers requests up to that.
\<close>

theorem rnr_timer_is_shortest:
  shows "\<exists>d. rnr_duration (rnr_min_duration_greater_than t) = Ok d \<and> (t \<le> micros 655360 \<longrightarrow> t \<le> d) \<and>
             (\<forall>c d'. rnr_limited c \<noteq> None \<longrightarrow> rnr_duration (MinRnrTimer c) = Ok d' \<longrightarrow> t \<le> d' \<longrightarrow> d \<le> d')"
proof -
  note ch = rnr_code_chosen [of t]
  obtain c where c: "rnr_min_duration_greater_than t = MinRnrTimer c"
    "rnr_code (rnr_min_duration_greater_than t) = c"
    by (cases "rnr_min_duration_greater_than t") auto
  have pos: "0 < c \<longleftrightarrow> 0 < unat c" by (simp add: word_less_nat_alt)
  show ?thesis
  proof (cases "t \<le> duration_table ! 30")
    case True
    with ch c have k: "0 < unat c" "unat c \<le> 31" "t \<le> duration_table ! (unat c - 1)"
      "\<forall>j < unat c - 1. duration_table ! j < t" by auto
    have d: "rnr_duration (rnr_min_duration_greater_than t) = Ok (duration_table ! (unat c - 1))"
      using k by (simp add: c pos)
    have "duration_table ! (unat c - 1) \<le> d'"
      if l: "rnr_limited c' \<noteq> None" "rnr_duration (MinRnrTimer c') = Ok d'" "t \<le> d'" for c' d'
      using l(1,2)
    proof (cases rule: rnr_duration_cases)
      case entry
      with k(4) l(3) have "unat c - 1 \<le> unat c' - 1" by (meson leD not_le_imp_less)
      with entry show ?thesis by (simp add: duration_table_mono)
    next
      case longest
      moreover have "duration_table ! (unat c - 1) < micros 655360"
        using k by (intro duration_table_below) simp
      ultimately show ?thesis by simp
    qed
    with d k(3) show ?thesis by auto
  next
    case False
    with ch c have "unat c = 0" by auto
    then have d: "rnr_duration (rnr_min_duration_greater_than t) = Ok (micros 655360)"
      by (simp add: c pos duration_zero_def)
    have "micros 655360 \<le> d'"
      if l: "rnr_limited c' \<noteq> None" "rnr_duration (MinRnrTimer c') = Ok d'" "t \<le> d'" for c' d'
      using l(1,2)
    proof (cases rule: rnr_duration_cases)
      case entry
      with duration_table_mono [of "unat c' - 1" 30] l(3) False show ?thesis by simp
    qed simp
    with d show ?thesis by auto
  qed
qed

theorem rnr_timer_is_shortest_witness:
  "\<exists>d. rnr_duration (rnr_min_duration_greater_than (micros 25)) = Ok d \<and> micros 25 \<le> d"
  using rnr_timer_is_shortest [of "micros 25"] by (auto simp: micros_def)

text \<open>
  C40. \<open>AckTimeout::min_duration_greater_than\<close>: the timeout returned is at least the request rounded down
  to a multiple of 4.096 microseconds and less than twice that; it covers the request itself exactly
  unless the request is a power-of-two number of such units plus a remainder.
\<close>

theorem ack_timeout_covers:
  assumes "ack_min_duration_greater_than t = Some a"
  shows "\<exists>k d. a = AckLimited (word_of_nat k) \<and> 0 < k \<and> k < 32 \<and>
           ack_duration oc a = Ok (Some d) \<and> d = 4096 * 2 ^ k \<and>
           t div 4096 * 4096 \<le> d \<and> d < 2 * (t div 4096 * 4096) \<and>
           (t \<le> d \<longleftrightarrow> \<not> (t div 4096 = 2 ^ k \<and> 0 < t mod 4096))"
proof -
  from assms obtain k where k: "0 < k" "k < 32" "a = AckLimited (word_of_nat k)"
    "next_power_of_two (t div 4096) = 2 ^ k"
    by (auto simp: ack_min_duration_Some)
  have b: "t div 4096 \<le> 2 ^ k" "2 ^ (k - 1) < t div 4096"
    using next_power_of_two_eq_power [OF k(4,1)] by simp_all
  have two: "(2 :: nat) ^ k = 2 * 2 ^ (k - 1)" using k(1) by (cases k) auto
  have t: "t = 4096 * (t div 4096) + t mod 4096" by simp
  have m: "t mod 4096 < 4096" by simp
  have d: "ack_duration oc a = Ok (Some (4096 * 2 ^ k))"
    unfolding k(3) using k(2) by (intro ack_duration_limited) simp
  have iff: "t \<le> 4096 * 2 ^ k \<longleftrightarrow> \<not> (t div 4096 = 2 ^ k \<and> 0 < t mod 4096)"
  proof (cases "t div 4096 = 2 ^ k")
    case True
    then have "t = 4096 * 2 ^ k + t mod 4096" using t by simp
    with True show ?thesis by linarith
  next
    case False
    with b(1) have "Suc (t div 4096) \<le> 2 ^ k" by simp
    then have "4096 * Suc (t div 4096) \<le> 4096 * 2 ^ k" by (rule mult_le_mono2)
    with t m False show ?thesis by simp
  qed
  show ?thesis
    using k(1-3) d b two iff by (intro exI [of _ k] exI [of _ "4096 * 2 ^ k"]) simp
qed

theorem ack_timeout_covers_witness:
  "\<exists>d. ack_duration True (AckLimited 1) = Ok (Some d) \<and> d = 8192 \<and> \<not> 8193 \<le> d"
proof -
  have n: "next_power_of_two 2 = 2" by (simp add: next_power_of_two_def ilog2.simps)
  have l: "ilog2 2 = 1" using ilog2_power [of 1] by simp
  have a: "ack_min_duration_greater_than 8193 = Some (AckLimited 1)"
    by (simp add: ack_min_duration_greater_than_def n l)
  from ack_timeout_covers [OF a, of True] obtain k d where
    kd: "AckLimited 1 = AckLimited (word_of_nat k)" "k < 32" "ack_duration True (AckLimited 1) = Ok (Some d)"
      "d = 4096 * 2 ^ k" by blast
  from kd(1) have "unat (word_of_nat k :: u8) = 1" by simp
  with kd(2) have "k = 1" by (simp add: unat_of_nat)
  with kd show ?thesis by simp
qed

section \<open>Completions\<close>

text \<open>
  The status code of a work error: every named code is recovered from its number, and a number
  maps to \<open>UnknownError\<close> exactly when no other code has it.
\<close>

lemma work_error_code_roundtrip:
  "we_code (work_error_new (work_error_code_num c) vendor) = c \<and>
   (we_code (work_error_new n vendor) = UnknownError \<longleftrightarrow>
      (\<forall>c. c \<noteq> UnknownError \<longrightarrow> work_error_code_num c \<noteq> n))"
proof -
  have "work_error_code_from n = UnknownError \<longleftrightarrow>
          (\<forall>c. c \<noteq> UnknownError \<longrightarrow> work_error_code_num c \<noteq> n)"
    using work_error_code_num_from [of n] work_error_code_from_num by metis
  then show ?thesis
    by (simp add: we_code_def work_error_new_def work_error_code_from_num)
qed

text \<open>
  Immediate data: the 32-bit value a sender puts in a request is the value the receiver reads from
  its completion, whatever the byte orders of the two hosts; the field travels as the bytes that the
  sender's memory holds.
\<close>

theorem immediate_data_roundtrip:
  assumes "swr_imm (send_wr_of v (send_wr_only_immediate imm) i) = Some raw"
    and "host_bytes (v_little_endian v) raw = host_bytes le received"
  shows "immediate_data le (work_success_new (Some received) n) = Some imm"
  using assms
  by (auto simp: send_wr_of_def send_wr_only_immediate_def immediate_data_def work_success_new_def
      dest: immediate_bytes)

theorem immediate_data_roundtrip_witness:
  "immediate_data False (work_success_new (Some 3) 0) = Some 3"
proof (rule immediate_data_roundtrip [of example_verbs 3 0])
  show "swr_imm (send_wr_of example_verbs (send_wr_only_immediate 3) 0) = Some (to_be32 True 3)"
    by (simp add: send_wr_of_def send_wr_only_immediate_def)
  show "host_bytes (v_little_endian example_verbs) (to_be32 True 3) = host_bytes False 3"
    by (simp add: host_bytes_to_be32) (simp add: host_bytes_def)
qed

section \<open>Network configuration\<close>

text \<open>
  C27. The validation of a network configuration, on every list of hosts: it succeeds exactly when the
  ranks are \<open>0, .., n - 1\<close>, each once, and then host \<open>i\<close> of the result has rank \<open>i\<close>; otherwise the error
  names the smallest rank that is missing or duplicated.
\<close>

theorem config_build_cases:
  "case config_build raw of
     Ok c \<Rightarrow> mset c = mset raw \<and> raw \<noteq> [] \<and> (\<forall>i < length c. rankid (c ! i) = i)
   | Err EmptyNetwork \<Rightarrow> raw = []
   | Err FirstRankNotZero \<Rightarrow> raw \<noteq> [] \<and> hosts_of_rank raw 0 = 0
   | Err (DuplicatedRank d) \<Rightarrow> (\<forall>i < d. hosts_of_rank raw i = 1) \<and> 2 \<le> hosts_of_rank raw d
   | Err (NonSequentialRanks g) \<Rightarrow>
       0 < g \<and> (\<forall>i < g. hosts_of_rank raw i = 1) \<and> hosts_of_rank raw g = 0 \<and>
       (\<exists>h \<in> set raw. g < rankid h)
   | _ \<Rightarrow> False"
  using config_build_outcome [of raw]
  by (auto split: outcome.splits network_config_error.splits)

theorem config_build_cases_witness:
  "case config_build [] of Err EmptyNetwork \<Rightarrow> True | _ \<Rightarrow> False"
  using config_build_cases [of "[]"] by (simp add: config_build_def)

end
