(* ===== verification/Node.thy ===== *)
theory Node
  imports Barrier_Lemmas Network_Config
begin

text \<open>
  \<open>src/network/mod.rs\<close>, \<open>builder.rs\<close>, \<open>polling_scope.rs\<close> and \<open>ops/\<close>: a node is a multi-channel with one
  channel per rank and a barrier.  Building it, its endpoint, the collection of the endpoints of all
  nodes, the handshake, and the operations, which go to the multi-channel or to the barrier.
\<close>

section \<open>The structures\<close>

record node =
  node_rank :: nat
  node_world_size :: nat
  node_multi_channel :: multi_channel
  node_barrier :: barrier

record prepared_node =
  pn_rank :: nat
  pn_world_size :: nat
  pn_multi_channel :: prepared_multi_channel
  pn_barrier :: prepared_barrier

record network_channel_endpoint =
  nce_qp :: queue_pair_endpoint
  nce_barrier_mr :: peer_remote_memory_region

record local_endpoint =
  le_rank :: nat
  le_endpoints :: "network_channel_endpoint list"

datatype remote_endpoints = RemoteEndpoints (re_endpoints: "network_channel_endpoint list")

definition node_pd :: "node \<Rightarrow> protection_domain" where
  "node_pd n = mc_pd (node_multi_channel n)"

section \<open>The builder\<close>

text \<open>The optional arguments of the builder; \<open>addr\<close> below is the address of the barrier's flags.\<close>

record node_params =
  np_barrier :: barrier_algorithm
  np_min_cq_entries :: u32
  np_qp :: qp_params

definition node_params_default :: "access_consts \<Rightarrow> node_params" where
  "node_params_default c =
     \<lparr>np_barrier = BinaryTreeAlg, np_min_cq_entries = 32,
      np_qp = qp_params_default
        (with_remote_write c (with_remote_read c (with_local_write c access_new)))\<rparr>"

definition node_builder ::
  "'h verbs \<Rightarrow> usize \<Rightarrow> nat \<Rightarrow> nat \<Rightarrow> protection_domain \<Rightarrow> node_params \<Rightarrow>
     ('h, prepared_node, ibv_error) comp" where
  "node_builder v addr rank world pd p =
     bind_s (multi_channel_builder v world pd (np_min_cq_entries p) (np_qp p)) (\<lambda>multi_channel.
     bind_s (algorithm_instance (np_barrier p) v addr pd rank world) (\<lambda>barrier.
       ret_s \<lparr>pn_rank = rank, pn_world_size = world, pn_multi_channel = multi_channel,
              pn_barrier = barrier\<rparr>))"

definition pn_endpoint :: "prepared_node \<Rightarrow> local_endpoint" where
  "pn_endpoint p =
     \<lparr>le_rank = pn_rank p,
      le_endpoints =
        map (\<lambda>e. \<lparr>nce_qp = e, nce_barrier_mr = prepared_remote_mr (pn_barrier p)\<rparr>)
          (pmc_endpoints (pn_multi_channel p))\<rparr>"

section \<open>Collecting the endpoints of all nodes\<close>

definition rank_out_of_bounds :: "nat \<Rightarrow> nat \<Rightarrow> io_error" where
  "rank_out_of_bounds r world =
     IoError KindInvalidInput
       (''Input endpoint rank '' @ show_nat r @ '' out of bounds (0..'' @ show_nat world @ '')'')"

definition duplicate_endpoint :: "nat \<Rightarrow> io_error" where
  "duplicate_endpoint r = IoError KindInvalidInput (''Duplicate endpoint for rank '' @ show_nat r)"

definition missing_rechannel :: "nat \<Rightarrow> nat \<Rightarrow> io_error" where
  "missing_rechannel r own =
     IoError KindInvalidInput
       (''Input endpoint for rank '' @ show_nat r @ '' missing rechannel for local rank '' @
        show_nat own)"

definition missing_endpoint :: "nat \<Rightarrow> io_error" where
  "missing_endpoint i = IoError KindInvalidData (''Missing endpoint from rank '' @ show_nat i)"

text \<open>One round of the loop over the received endpoints, and the loop; \<open>tmp\<close> is the vector of slots.\<close>

definition fill_slot ::
  "prepared_node \<Rightarrow> network_channel_endpoint option list \<Rightarrow> local_endpoint \<Rightarrow>
     (network_channel_endpoint option list, io_error) outcome" where
  "fill_slot p tmp e =
     (if \<not> le_rank e < length tmp then Err (rank_out_of_bounds (le_rank e) (pn_world_size p))
      else if tmp ! le_rank e \<noteq> None then Err (duplicate_endpoint (le_rank e))
      else if \<not> pn_rank p < length (le_endpoints e)
        then Err (missing_rechannel (le_rank e) (pn_rank p))
      else Ok (tmp[le_rank e := Some (le_endpoints e ! pn_rank p)]))"

fun fill_slots ::
  "prepared_node \<Rightarrow> network_channel_endpoint option list \<Rightarrow> local_endpoint list \<Rightarrow>
     (network_channel_endpoint option list, io_error) outcome" where
  "fill_slots p tmp [] = Ok tmp"
| "fill_slots p tmp (e # es) = bind_outcome (fill_slot p tmp e) (\<lambda>tmp'. fill_slots p tmp' es)"

definition gather_endpoints ::
  "prepared_node \<Rightarrow> local_endpoint list \<Rightarrow> (remote_endpoints, io_error) outcome" where
  "gather_endpoints p endpoints =
     bind_outcome (fill_slots p (replicate (pn_world_size p) None) endpoints) (\<lambda>tmp.
     bind_outcome
       (collect_outcome (\<lambda>(i, opt). ok_or (missing_endpoint i) opt) (zip [0..<length tmp] tmp))
       (\<lambda>in_endpoints. Ok (RemoteEndpoints in_endpoints)))"

definition node_handshake ::
  "'h verbs \<Rightarrow> prepared_node \<Rightarrow> remote_endpoints \<Rightarrow> ('h world, node, ibv_error) comp" where
  "node_handshake v p endpoints =
     bind_s (multi_channel_handshake v (pn_multi_channel p) (map nce_qp (re_endpoints endpoints)))
       (\<lambda>multi_channel.
          ret_s \<lparr>node_rank = pn_rank p, node_world_size = pn_world_size p,
                 node_multi_channel = multi_channel,
                 node_barrier =
                   prepared_link_remote (pn_barrier p)
                     (map nce_barrier_mr (re_endpoints endpoints))\<rparr>)"

section \<open>Operations\<close>

text \<open>\<open>self.multi_channel.op(..)\<close>\<close>

type_synonym ('h, 'a, 'e) node_comp = "(node \<times> 'h world, 'a, 'e) comp"

definition on_multi_channel :: "('h, 'a, 'e) mc_comp \<Rightarrow> ('h, 'a, 'e) node_comp" where
  "on_multi_channel op s =
     (case s of (n, w) \<Rightarrow>
        (case op (node_multi_channel n, w) of
           (r, (m', w')) \<Rightarrow> (r, (n\<lparr>node_multi_channel := m'\<rparr>, w'))))"

definition node_send where "node_send fuel v oc p = on_multi_channel (mc_send fuel v oc p)"
definition node_receive where "node_receive fuel v oc p = on_multi_channel (mc_receive fuel v oc p)"
definition node_write where "node_write fuel v oc p = on_multi_channel (mc_write fuel v oc p)"
definition node_read where "node_read fuel v oc p = on_multi_channel (mc_read fuel v oc p)"

definition node_send_unpolled where
  "node_send_unpolled v oc p = on_multi_channel (mc_send_unpolled v oc p)"
definition node_receive_unpolled where
  "node_receive_unpolled v oc p = on_multi_channel (mc_receive_unpolled v oc p)"
definition node_write_unpolled where
  "node_write_unpolled v oc p = on_multi_channel (mc_write_unpolled v oc p)"
definition node_read_unpolled where
  "node_read_unpolled v oc p = on_multi_channel (mc_read_unpolled v oc p)"

definition node_scatter_send where
  "node_scatter_send fuel v oc wrs = on_multi_channel (scatter_send fuel v oc wrs)"
definition node_scatter_write where
  "node_scatter_write fuel v oc wrs = on_multi_channel (scatter_write fuel v oc wrs)"
definition node_gather_receive where
  "node_gather_receive fuel v oc wrs = on_multi_channel (gather_receive fuel v oc wrs)"
definition node_gather_read where
  "node_gather_read fuel v oc wrs = on_multi_channel (gather_read fuel v oc wrs)"
definition node_multicast_send where
  "node_multicast_send fuel v oc peers wr = on_multi_channel (multicast_send fuel v oc peers wr)"

definition node_scatter_send_unpolled where
  "node_scatter_send_unpolled fuel v oc wrs =
     on_multi_channel (scatter_send_unpolled fuel v oc wrs)"
definition node_scatter_write_unpolled where
  "node_scatter_write_unpolled fuel v oc wrs =
     on_multi_channel (scatter_write_unpolled fuel v oc wrs)"
definition node_gather_receive_unpolled where
  "node_gather_receive_unpolled fuel v oc wrs =
     on_multi_channel (gather_receive_unpolled fuel v oc wrs)"
definition node_gather_read_unpolled where
  "node_gather_read_unpolled fuel v oc wrs =
     on_multi_channel (gather_read_unpolled fuel v oc wrs)"
definition node_multicast_send_unpolled where
  "node_multicast_send_unpolled fuel v oc peers wr =
     on_multi_channel (multicast_send_unpolled fuel v oc peers wr)"

text \<open>The barrier borrows the barrier and the multi-channel of the node.\<close>

definition on_barrier ::
  "(barrier \<times> multi_channel \<times> 'h world, unit, barrier_error) comp \<Rightarrow>
     ('h, unit, barrier_error) node_comp" where
  "on_barrier op s =
     (case s of (n, w) \<Rightarrow>
        (case op (node_barrier n, node_multi_channel n, w) of
           (r, (b', m', w')) \<Rightarrow>
             (r, (n\<lparr>node_barrier := b', node_multi_channel := m'\<rparr>, w'))))"

definition node_run_barrier ::
  "nat \<Rightarrow> 'h verbs \<Rightarrow> bool \<Rightarrow> nat list \<Rightarrow> nat \<Rightarrow> ('h, unit, barrier_error) node_comp" where
  "node_run_barrier fuel v oc peers timeout = on_barrier (barrier_barrier fuel v oc peers timeout)"

definition node_run_barrier_unchecked ::
  "nat \<Rightarrow> 'h verbs \<Rightarrow> bool \<Rightarrow> nat list \<Rightarrow> nat \<Rightarrow> ('h, unit, barrier_error) node_comp" where
  "node_run_barrier_unchecked fuel v oc peers timeout =
     on_barrier (barrier_barrier_unchecked fuel v oc peers timeout)"

section \<open>The operations of a scope of the node\<close>

type_synonym 'h node_scope = "(node, 'h) scope"

text \<open>\<open>|n| n.multi_channel.channel(peer)\<close>\<close>

definition node_selector :: "nat \<Rightarrow> node selector" where
  "node_selector peer =
     \<lparr>sel_get = (\<lambda>n. mc_channel (node_multi_channel n) peer),
      sel_put = (\<lambda>ch n. n\<lparr>node_multi_channel := mc_set_channel peer ch (node_multi_channel n)\<rparr>)\<rparr>"

definition node_post_send ::
  "'h verbs \<Rightarrow> bool \<Rightarrow> peer_send_wr \<Rightarrow> ('h node_scope, nat, transport_error) comp" where
  "node_post_send v oc p =
     map_err_s TIbv (channel_post_send v oc (node_selector (psw_peer p)) (psw_wr p))"

definition node_post_receive ::
  "'h verbs \<Rightarrow> bool \<Rightarrow> peer_receive_wr \<Rightarrow> ('h node_scope, nat, transport_error) comp" where
  "node_post_receive v oc p =
     map_err_s TIbv (channel_post_receive v oc (node_selector (prw_peer p)) (prw_wr p))"

definition node_post_write ::
  "'h verbs \<Rightarrow> bool \<Rightarrow> peer_write_wr \<Rightarrow> ('h node_scope, nat, transport_error) comp" where
  "node_post_write v oc p =
     map_err_s TIbv (channel_post_write v oc (node_selector (pww_peer p)) (pww_wr p))"

definition node_post_read ::
  "'h verbs \<Rightarrow> bool \<Rightarrow> peer_read_wr \<Rightarrow> ('h node_scope, nat, transport_error) comp" where
  "node_post_read v oc p =
     map_err_s TIbv (channel_post_read v oc (node_selector (prd_peer p)) (prd_wr p))"

definition node_post_scatter_send where
  "node_post_scatter_send v oc wrs = collect_s (node_post_send v oc) wrs"
definition node_post_scatter_write where
  "node_post_scatter_write v oc wrs = collect_s (node_post_write v oc) wrs"
definition node_post_gather_receive where
  "node_post_gather_receive v oc wrs = collect_s (node_post_receive v oc) wrs"
definition node_post_gather_read where
  "node_post_gather_read v oc wrs = collect_s (node_post_read v oc) wrs"
definition node_post_multicast_send where
  "node_post_multicast_send v oc peers wr =
     collect_s (\<lambda>peer. node_post_send v oc (peer_send_from_wr peer wr)) peers"

text \<open>\<open>self.inner.op(..)\<close> of a scope.\<close>

definition on_inner :: "('c \<times> 'h world, 'a, 'e) comp \<Rightarrow> (('c, 'h) scope, 'a, 'e) comp" where
  "on_inner op sc =
     (case op (sc_inner sc, sc_world sc) of
        (r, (c', w')) \<Rightarrow> (r, sc\<lparr>sc_inner := c', sc_world := w'\<rparr>))"

definition scope_barrier ::
  "nat \<Rightarrow> 'h verbs \<Rightarrow> bool \<Rightarrow> nat list \<Rightarrow> nat \<Rightarrow> ('h node_scope, unit, barrier_error) comp" where
  "scope_barrier fuel v oc peers timeout = on_inner (node_run_barrier fuel v oc peers timeout)"

definition scope_barrier_unchecked ::
  "nat \<Rightarrow> 'h verbs \<Rightarrow> bool \<Rightarrow> nat list \<Rightarrow> nat \<Rightarrow> ('h node_scope, unit, barrier_error) comp" where
  "scope_barrier_unchecked fuel v oc peers timeout =
     on_inner (node_run_barrier_unchecked fuel v oc peers timeout)"

definition node_run_scope ::
  "nat \<Rightarrow> 'h verbs \<Rightarrow> ('h node_scope, 't, 'e) comp \<Rightarrow> ('h, 't, 'e scope_error) node_comp" where
  "node_run_scope fuel v f = run_scope fuel v f"

definition node_manual_scope ::
  "nat \<Rightarrow> 'h verbs \<Rightarrow> ('h node_scope, 't, 'e) comp \<Rightarrow> ('h, 't, 'e) node_comp" where
  "node_manual_scope fuel v f = run_manual_scope fuel v f"

definition mc_scope_run ::
  "nat \<Rightarrow> 'h verbs \<Rightarrow> ('h mc_scope, 't, 'e) comp \<Rightarrow> ('h, 't, 'e scope_error) mc_comp" where
  "mc_scope_run fuel v f = run_scope fuel v f"

definition mc_manual_scope ::
  "nat \<Rightarrow> 'h verbs \<Rightarrow> ('h mc_scope, 't, 'e) comp \<Rightarrow> ('h, 't, 'e) mc_comp" where
  "mc_manual_scope fuel v f = run_manual_scope fuel v f"

end
