(* ===== verification/Ownership.thy ===== *)
theory Ownership
  imports Queue_Pair "HOL-Library.AList"
begin

text \<open>
  Who owns the resources of the device, and when they are released: the \<open>Arc\<close>s behind \<open>Context\<close>,
  \<open>ProtectionDomain\<close> and \<open>CompletionQueue\<close>, the owned values \<open>QueuePair\<close> and \<open>MemoryRegion\<close>, and the
  \<open>Drop\<close> implementations of the five (\<open>src/ibverbs/device/context.rs\<close>, \<open>protection_domain.rs\<close>,
  \<open>completion_queue.rs\<close>, \<open>queue_pair/mod.rs\<close>, \<open>memory/memory_region.rs\<close>).

  \<open>BoxedMemory\<close> is a plain \<open>Box\<close> (the barrier's flags), given by its address and length; freeing it is no
  call to the driver.

  An allocation is a cell with a strong count and a value.  The values refer to other cells by the
  fields that are themselves \<open>Arc\<close>s; a \<open>QueuePair\<close> or a \<open>MemoryRegion\<close>, which cannot be cloned, is a
  cell whose count stays 1.  The other theories pass these values by copy; \<open>context_of\<close>, \<open>pd_of\<close>,
  \<open>cq_of\<close>, \<open>qp_of\<close> and \<open>mr_of\<close> read that copy off the store.
\<close>

section \<open>The owned values\<close>

type_synonym arc = nat

datatype inner =
    ContextInner nat
  | ProtectionDomainInner arc nat
  | CompletionQueueInner arc nat u32
  | OwnedQueuePair arc arc arc nat
  | OwnedMemoryRegion arc ibv_mr
  | BoxedMemory usize usize

datatype kind =
    KContext | KProtectionDomain | KCompletionQueue | KQueuePair | KMemoryRegion | KBoxedMemory

fun kind_of :: "inner \<Rightarrow> kind" where
  "kind_of (ContextInner _) = KContext"
| "kind_of (ProtectionDomainInner _ _) = KProtectionDomain"
| "kind_of (CompletionQueueInner _ _ _) = KCompletionQueue"
| "kind_of (OwnedQueuePair _ _ _ _) = KQueuePair"
| "kind_of (OwnedMemoryRegion _ _) = KMemoryRegion"
| "kind_of (BoxedMemory _ _) = KBoxedMemory"

text \<open>The fields that own another allocation, in declaration order, with the types they have.\<close>

fun typed_fields :: "inner \<Rightarrow> (arc \<times> kind) list" where
  "typed_fields (ContextInner _) = []"
| "typed_fields (ProtectionDomainInner ctx _) = [(ctx, KContext)]"
| "typed_fields (CompletionQueueInner ctx _ _) = [(ctx, KContext)]"
| "typed_fields (OwnedQueuePair pd send_cq recv_cq _) =
     [(pd, KProtectionDomain), (send_cq, KCompletionQueue), (recv_cq, KCompletionQueue)]"
| "typed_fields (OwnedMemoryRegion pd _) = [(pd, KProtectionDomain)]"
| "typed_fields (BoxedMemory _ _) = []"

definition owned_fields :: "inner \<Rightarrow> arc list" where
  "owned_fields x = map fst (typed_fields x)"

lemma owned_fields_simps [simp]:
  "owned_fields (ContextInner c) = []"
  "owned_fields (ProtectionDomainInner a p) = [a]"
  "owned_fields (CompletionQueueInner a q n) = [a]"
  "owned_fields (OwnedQueuePair p a b q) = [p, a, b]"
  "owned_fields (OwnedMemoryRegion p m) = [p]"
  "owned_fields (BoxedMemory addr len) = []"
  by (simp_all add: owned_fields_def)

section \<open>The store\<close>

text \<open>
  The trace records, latest first, the allocations and releases the driver is asked for; a queue pair
  that the driver created and no value owns is \<open>Leaked\<close>.  The trace only observes: no operation reads it.
\<close>

datatype res_event = Created arc inner | Destroyed arc inner | Leaked inner

type_synonym cells = "(arc \<times> nat \<times> inner) list"

record 'h rsrc =
  rs_cells :: cells
  rs_next :: arc
  rs_trace :: "res_event list"
  rs_hw :: 'h

text \<open>\<open>Dangling\<close> is the use of an allocation that was freed, or at the wrong type.\<close>

datatype own_error = Dangling | Ibv ibv_error

definition arc_content :: "arc \<Rightarrow> 'h rsrc \<Rightarrow> inner option" where
  "arc_content a s = map_option snd (map_of (rs_cells s) a)"

text \<open>\<open>Arc::new\<close> and \<open>Arc::clone\<close>; the count is unbounded here, the library aborts at \<open>isize::MAX\<close>.\<close>

definition arc_new :: "inner \<Rightarrow> ('h rsrc, arc, own_error) comp" where
  "arc_new x s =
     (Ok (rs_next s),
      s\<lparr>rs_cells := (rs_next s, 1, x) # rs_cells s, rs_next := Suc (rs_next s),
        rs_trace := Created (rs_next s) x # rs_trace s\<rparr>)"

definition arc_clone :: "arc \<Rightarrow> ('h rsrc, arc, own_error) comp" where
  "arc_clone a s =
     (case map_of (rs_cells s) a of
        None \<Rightarrow> (Err Dangling, s)
      | Some (n, x) \<Rightarrow> (Ok a, s\<lparr>rs_cells := AList.update a (Suc n, x) (rs_cells s)\<rparr>))"

section \<open>Drop\<close>

text \<open>
  \<open>Drop::drop\<close> of the five types: the release call.  A failed release is logged and forgotten; that
  of a context reads \<open>errno\<close> first and its \<open>expect\<close> is the panic.
\<close>

definition drop_context_inner :: "'h verbs \<Rightarrow> nat \<Rightarrow> ('h, unit, own_error) comp" where
  [simp]: "drop_context_inner v ctx h =
     (case v_close_device v ctx h of
        (rc, h') \<Rightarrow> if rc \<noteq> 0 \<and> v_last_errno v h' = None then (Panic, h') else (Ok (), h'))"

definition drop_protection_domain_inner :: "'h verbs \<Rightarrow> nat \<Rightarrow> ('h, unit, own_error) comp" where
  [simp]: "drop_protection_domain_inner v pd h = (Ok (), snd (v_dealloc_pd v pd h))"

definition drop_completion_queue_inner :: "'h verbs \<Rightarrow> nat \<Rightarrow> ('h, unit, own_error) comp" where
  [simp]: "drop_completion_queue_inner v cq h = (Ok (), snd (v_destroy_cq v cq h))"

definition drop_queue_pair :: "'h verbs \<Rightarrow> nat \<Rightarrow> ('h, unit, own_error) comp" where
  [simp]: "drop_queue_pair v qp h = (Ok (), snd (v_destroy_qp v qp h))"

definition drop_memory_region :: "'h verbs \<Rightarrow> ibv_mr \<Rightarrow> ('h, unit, own_error) comp" where
  [simp]: "drop_memory_region v mr h = (Ok (), snd (v_dereg_mr v mr h))"

fun drop_inner :: "'h verbs \<Rightarrow> inner \<Rightarrow> ('h, unit, own_error) comp" where
  "drop_inner v (ContextInner ctx) h = drop_context_inner v ctx h"
| "drop_inner v (ProtectionDomainInner _ pd) h = drop_protection_domain_inner v pd h"
| "drop_inner v (CompletionQueueInner _ cq _) h = drop_completion_queue_inner v cq h"
| "drop_inner v (OwnedQueuePair _ _ _ qp) h = drop_queue_pair v qp h"
| "drop_inner v (OwnedMemoryRegion _ mr) h = drop_memory_region v mr h"
| "drop_inner v (BoxedMemory _ _) h = (Ok (), h)"

text \<open>
  Dropping a list of owners, one after the other.  The last owner runs \<open>Drop::drop\<close>, then the fields
  are dropped in declaration order, then the remaining owners.
\<close>

function (sequential) drop_arcs :: "'h verbs \<Rightarrow> arc list \<Rightarrow> ('h rsrc, unit, own_error) comp" where
  "drop_arcs v [] s = (Ok (), s)"
| "drop_arcs v (a # as) s =
     (case map_of (rs_cells s) a of
        None \<Rightarrow> (Err Dangling, s)
      | Some (n, x) \<Rightarrow>
          if 1 < n
          then drop_arcs v as (s\<lparr>rs_cells := AList.update a (n - 1, x) (rs_cells s)\<rparr>)
          else
            (case drop_inner v x (rs_hw s) of
               (Ok _, h') \<Rightarrow>
                 drop_arcs v (owned_fields x @ as)
                   (s\<lparr>rs_cells := AList.delete a (rs_cells s), rs_hw := h',
                      rs_trace := Destroyed a x # rs_trace s\<rparr>)
             | (Err e, h') \<Rightarrow> (Err e, s\<lparr>rs_hw := h'\<rparr>)
             | (Panic, h') \<Rightarrow> (Panic, s\<lparr>rs_hw := h'\<rparr>)
             | (NoFuel, h') \<Rightarrow> (NoFuel, s\<lparr>rs_hw := h'\<rparr>)))"
  by pat_completeness auto

text \<open>Every release shrinks the store, every decrement the list.\<close>

lemma length_update_present:
  "map_of al a = Some y \<Longrightarrow> length (AList.update a z al) = length al"
  by (induction al) auto

lemma length_delete_present:
  "map_of al a = Some y \<Longrightarrow> length (AList.delete a al) < length al"
  by (auto simp: AList.delete_eq dest!: map_of_SomeD intro: length_filter_less)

termination drop_arcs
  by (relation "measures [\<lambda>(v, as, s). length (rs_cells s), \<lambda>(v, as, s). length as]")
    (auto simp: length_update_present length_delete_present)

section \<open>Reading the store\<close>

definition context_of :: "'h rsrc \<Rightarrow> arc \<Rightarrow> dev_context option" where
  "context_of s a =
     (case arc_content a s of
        Some (ContextInner c) \<Rightarrow> Some \<lparr>ctx_handle = c\<rparr>
      | _ \<Rightarrow> None)"

definition pd_of :: "'h rsrc \<Rightarrow> arc \<Rightarrow> protection_domain option" where
  "pd_of s a =
     (case arc_content a s of
        Some (ProtectionDomainInner c p) \<Rightarrow>
          map_option (\<lambda>ctx. \<lparr>pd_context = ctx, pd_handle = p\<rparr>) (context_of s c)
      | _ \<Rightarrow> None)"

definition cq_of :: "'h rsrc \<Rightarrow> arc \<Rightarrow> completion_queue option" where
  "cq_of s a =
     (case arc_content a s of
        Some (CompletionQueueInner c q n) \<Rightarrow>
          map_option (\<lambda>ctx. \<lparr>cq_context = ctx, cq_handle = q, cq_min_capacity = n\<rparr>) (context_of s c)
      | _ \<Rightarrow> None)"

definition qp_of :: "'h rsrc \<Rightarrow> arc \<Rightarrow> queue_pair option" where
  "qp_of s a =
     (case arc_content a s of
        Some (OwnedQueuePair p sc rc q) \<Rightarrow>
          (case (pd_of s p, cq_of s sc, cq_of s rc) of
             (Some pd, Some send_cq, Some recv_cq) \<Rightarrow>
               Some \<lparr>qp_pd = pd, qp_send_cq = send_cq, qp_recv_cq = recv_cq, qp_handle = q\<rparr>
           | _ \<Rightarrow> None)
      | _ \<Rightarrow> None)"

definition mr_of :: "'h rsrc \<Rightarrow> arc \<Rightarrow> memory_region option" where
  "mr_of s a =
     (case arc_content a s of
        Some (OwnedMemoryRegion p mr) \<Rightarrow>
          map_option (\<lambda>pd. \<lparr>mreg_pd = pd_handle pd, mreg_mr = mr\<rparr>) (pd_of s p)
      | _ \<Rightarrow> None)"

section \<open>Creating\<close>

text \<open>A call to the driver, on the device part of the state.\<close>

definition own_call :: "('h, 'a, ibv_error) comp \<Rightarrow> ('h rsrc, 'a, own_error) comp" where
  "own_call m s = (case m (rs_hw s) of (r, h') \<Rightarrow> (map_err Ibv r, s\<lparr>rs_hw := h'\<rparr>))"

definition deref :: "('h rsrc \<Rightarrow> 'a option) \<Rightarrow> ('h rsrc, 'a, own_error) comp" where
  "deref get s = (ok_or Dangling (get s), s)"

text \<open>
  \<open>Context::from_device\<close>: an unusable port drops the context that was just allocated.
\<close>

definition context_from_device :: "'h verbs \<Rightarrow> nat \<Rightarrow> ('h rsrc, arc, own_error) comp" where
  "context_from_device v dev s =
     (case v_open_device v dev (rs_hw s) of
        (None, h') \<Rightarrow>
          (map_err Ibv (null_pointer_error v h' ''Failed to open device context''), s\<lparr>rs_hw := h'\<rparr>)
      | (Some ctx, h') \<Rightarrow>
          bind_s (arc_new (ContextInner ctx))
            (\<lambda>context s1.
               case own_call (query_port v \<lparr>ctx_handle = ctx\<rparr>) s1 of
                 (Ok _, s2) \<Rightarrow> (Ok context, s2)
               | (Err e, s2) \<Rightarrow> bind_s (drop_arcs v [context]) (\<lambda>_. lift_s (Err e)) s2
               | (Panic, s2) \<Rightarrow> (Panic, s2)
               | (NoFuel, s2) \<Rightarrow> (NoFuel, s2))
            (s\<lparr>rs_hw := h'\<rparr>))"

text \<open>\<open>ProtectionDomain::allocate\<close>, \<open>CompletionQueue::create\<close>, the registrations.\<close>

definition own_allocate_pd :: "'h verbs \<Rightarrow> arc \<Rightarrow> ('h rsrc, arc, own_error) comp" where
  "own_allocate_pd v context =
     bind_s (deref (\<lambda>s. context_of s context)) (\<lambda>ctx.
     bind_s (own_call (pd_allocate v ctx)) (\<lambda>pd.
     bind_s (arc_clone context) (\<lambda>context'. arc_new (ProtectionDomainInner context' (pd_handle pd)))))"

definition own_create_cq :: "'h verbs \<Rightarrow> arc \<Rightarrow> u32 \<Rightarrow> ('h rsrc, arc, own_error) comp" where
  "own_create_cq v context min_capacity =
     bind_s (deref (\<lambda>s. context_of s context)) (\<lambda>ctx.
     bind_s (own_call (cq_create v ctx min_capacity)) (\<lambda>cq.
     bind_s (arc_clone context)
       (\<lambda>context'. arc_new (CompletionQueueInner context' (cq_handle cq) (cq_min_capacity cq)))))"

definition own_register_mr ::
  "(protection_domain \<Rightarrow> ('h, memory_region, ibv_error) comp) \<Rightarrow> arc \<Rightarrow> ('h rsrc, arc, own_error) comp"
where
  "own_register_mr register pd =
     bind_s (deref (\<lambda>s. pd_of s pd)) (\<lambda>p.
     bind_s (own_call (register p)) (\<lambda>m.
     bind_s (arc_clone pd) (\<lambda>pd'. arc_new (OwnedMemoryRegion pd' (mreg_mr m)))))"

text \<open>
  \<open>QueuePair::builder\<close>.  When the port query fails after \<open>ibv_create_qp\<close> succeeded, the raw pointer is
  not yet in a \<open>QueuePair\<close> and nobody destroys it; the trace records it.
\<close>

definition leaked_qp ::
  "'h verbs \<Rightarrow> protection_domain \<Rightarrow> ibv_qp_init_attr \<Rightarrow> arc \<Rightarrow> arc \<Rightarrow> arc \<Rightarrow> 'h \<Rightarrow> res_event list" where
  "leaked_qp v p attr pd send_cq recv_cq h =
     (case v_create_qp v (pd_handle p) attr h of
        (Some (qp, _), _) \<Rightarrow> [Leaked (OwnedQueuePair pd send_cq recv_cq qp)]
      | (None, _) \<Rightarrow> [])"

definition own_build_qp ::
  "'h verbs \<Rightarrow> arc \<Rightarrow> arc \<Rightarrow> arc \<Rightarrow> qp_params \<Rightarrow> ('h rsrc, arc, own_error) comp" where
  "own_build_qp v pd send_cq recv_cq params =
     bind_s (deref (\<lambda>s. pd_of s pd)) (\<lambda>p.
     bind_s (deref (\<lambda>s. cq_of s send_cq)) (\<lambda>sc.
     bind_s (deref (\<lambda>s. cq_of s recv_cq)) (\<lambda>rc s.
       case own_call (qp_builder v p sc rc params) s of
         (Ok q, s1) \<Rightarrow>
           bind_s (arc_clone pd) (\<lambda>pd'.
           bind_s (arc_clone send_cq) (\<lambda>sc'.
           bind_s (arc_clone recv_cq) (\<lambda>rc'.
             arc_new (OwnedQueuePair pd' sc' rc' (qp_handle (pqp_qp q)))))) s1
       | (Err e, s1) \<Rightarrow>
           (Err e, s1\<lparr>rs_trace :=
              leaked_qp v p (qp_init_attr sc rc params) pd send_cq recv_cq (rs_hw s) @ rs_trace s1\<rparr>)
       | (Panic, s1) \<Rightarrow> (Panic, s1)
       | (NoFuel, s1) \<Rightarrow> (NoFuel, s1))))"

section \<open>What the users of the library can do\<close>

text \<open>
  The operations of the public interface that create, share or release; \<open>CloneLent a\<close> clones what an
  accessor of \<open>a\<close> lends (\<open>ProtectionDomain::context\<close>, \<open>CompletionQueue::context\<close>, \<open>QueuePair::pd\<close> of a
  channel).
\<close>

datatype own_op =
    OpenDevice nat
  | AllocatePd arc
  | CreateCq arc u32
  | BuildQp arc arc arc qp_params
  | RegisterMr arc usize usize access_flags
  | RegisterDmabuf arc int u64 usize u64 access_flags
  | CloneHandle arc
  | CloneLent arc
  | DropHandle arc

text \<open>
  What the borrow checker asks: every handle that is used is owned, at its type.  \<open>Clone\<close> is derived
  for the three \<open>Arc\<close> types only.
\<close>

definition kind_at :: "'h rsrc \<Rightarrow> arc \<Rightarrow> kind option" where
  "kind_at s a = map_option kind_of (arc_content a s)"

definition holds :: "arc list \<Rightarrow> 'h rsrc \<Rightarrow> arc \<Rightarrow> kind \<Rightarrow> bool" where
  "holds hs s a k \<longleftrightarrow> a \<in> set hs \<and> kind_at s a = Some k"

fun permitted :: "own_op \<Rightarrow> arc list \<Rightarrow> 'h rsrc \<Rightarrow> bool" where
  "permitted (OpenDevice _) hs s = True"
| "permitted (AllocatePd c) hs s = holds hs s c KContext"
| "permitted (CreateCq c _) hs s = holds hs s c KContext"
| "permitted (BuildQp p a b _) hs s =
     (holds hs s p KProtectionDomain \<and> holds hs s a KCompletionQueue \<and> holds hs s b KCompletionQueue)"
| "permitted (RegisterMr p _ _ _) hs s = holds hs s p KProtectionDomain"
| "permitted (RegisterDmabuf p _ _ _ _ _) hs s = holds hs s p KProtectionDomain"
| "permitted (CloneHandle a) hs s =
     (holds hs s a KContext \<or> holds hs s a KProtectionDomain \<or> holds hs s a KCompletionQueue)"
| "permitted (CloneLent a) hs s =
     (holds hs s a KProtectionDomain \<or> holds hs s a KCompletionQueue \<or> holds hs s a KQueuePair)"
| "permitted (DropHandle a) hs s = (a \<in> set hs)"

fun lent :: "inner \<Rightarrow> arc option" where
  "lent (ProtectionDomainInner c _) = Some c"
| "lent (CompletionQueueInner c _ _) = Some c"
| "lent (OwnedQueuePair p _ _ _) = Some p"
| "lent _ = None"

fun creating :: "'h verbs \<Rightarrow> own_op \<Rightarrow> ('h rsrc, arc, own_error) comp option" where
  "creating v (OpenDevice d) = Some (context_from_device v d)"
| "creating v (AllocatePd c) = Some (own_allocate_pd v c)"
| "creating v (CreateCq c n) = Some (own_create_cq v c n)"
| "creating v (BuildQp p sc rc params) = Some (own_build_qp v p sc rc params)"
| "creating v (RegisterMr p addr len flags) =
     Some (own_register_mr (\<lambda>pd. register_mr_with_access v (pd_handle pd) addr len flags) p)"
| "creating v (RegisterDmabuf p fd off len iova flags) =
     Some (own_register_mr
             (\<lambda>pd. register_dmabuf_mr_with_access v (pd_handle pd) fd off len iova flags) p)"
| "creating v _ = None"

definition own_exec :: "'h verbs \<Rightarrow> own_op \<Rightarrow> ('h rsrc, arc option, own_error) comp" where
  "own_exec v op =
     (case creating v op of
        Some m \<Rightarrow> bind_s m (\<lambda>a. ret_s (Some a))
      | None \<Rightarrow>
          (case op of
             CloneHandle a \<Rightarrow> bind_s (arc_clone a) (\<lambda>b. ret_s (Some b))
           | CloneLent a \<Rightarrow>
               bind_s (deref (\<lambda>s. Option.bind (arc_content a s) lent))
                 (\<lambda>b. bind_s (arc_clone b) (\<lambda>c. ret_s (Some c)))
           | DropHandle a \<Rightarrow> bind_s (drop_arcs v [a]) (\<lambda>_. ret_s None)
           | _ \<Rightarrow> ret_s None))"

text \<open>The handles that are owned after an operation.\<close>

fun handles_after :: "own_op \<Rightarrow> (arc option, own_error) outcome \<Rightarrow> arc list \<Rightarrow> arc list" where
  "handles_after (DropHandle a) _ hs = remove1 a hs"
| "handles_after _ (Ok (Some a)) hs = a # hs"
| "handles_after _ _ hs = hs"

inductive own_step ::
  "'h verbs \<Rightarrow> arc list \<times> 'h rsrc \<Rightarrow> arc list \<times> 'h rsrc \<Rightarrow> bool" for v where
  own_step: "permitted op hs s \<Longrightarrow> own_exec v op s = (r, s') \<Longrightarrow>
     own_step v (hs, s) (handles_after op r hs, s')"

inductive_cases own_stepE: "own_step v (hs, s) hs'"

definition rsrc_init :: "'h \<Rightarrow> 'h rsrc" where
  "rsrc_init h = \<lparr>rs_cells = [], rs_next = 0, rs_trace = [], rs_hw = h\<rparr>"

inductive own_reach :: "'h verbs \<Rightarrow> arc list \<times> 'h rsrc \<Rightarrow> bool" for v where
  own_init: "own_reach v ([], rsrc_init h)"
| own_next: "own_reach v c \<Longrightarrow> own_step v c c' \<Longrightarrow> own_reach v c'"

section \<open>The driver's side of the contract\<close>

text \<open>
  What \<open>libibverbs\<close> asks of its callers, as an automaton over the trace: an object is created on objects
  that exist, under a new name, and destroyed while it exists and nothing that uses it does (otherwise
  \<open>EBUSY\<close>).  A leaked queue pair uses its protection domain and completion queues forever.
\<close>

type_synonym driver = "(arc \<times> inner) list \<times> inner list"

fun uses :: "inner \<Rightarrow> (arc \<times> kind) list" where
  "uses (ContextInner _) = []"
| "uses (ProtectionDomainInner ctx _) = [(ctx, KContext)]"
| "uses (CompletionQueueInner ctx _ _) = [(ctx, KContext)]"
| "uses (OwnedQueuePair pd send_cq recv_cq _) =
     [(pd, KProtectionDomain), (send_cq, KCompletionQueue), (recv_cq, KCompletionQueue)]"
| "uses (OwnedMemoryRegion pd _) = [(pd, KProtectionDomain)]"
| "uses (BoxedMemory _ _) = []"

fun driver_step :: "res_event \<Rightarrow> driver \<Rightarrow> driver option" where
  "driver_step (Created a x) (live, leaked) =
     (if map_of live a = None \<and>
         (\<forall>(f, k) \<in> set (uses x). map_option kind_of (map_of live f) = Some k)
      then Some ((a, x) # live, leaked) else None)"
| "driver_step (Destroyed a x) (live, leaked) =
     (if map_of live a = Some x \<and>
         (\<forall>y \<in> set (map snd live @ leaked). a \<notin> fst ` set (uses y))
      then Some (AList.delete a live, leaked) else None)"
| "driver_step (Leaked x) (live, leaked) = Some (live, x # leaked)"

fun driver_run :: "res_event list \<Rightarrow> driver option" where
  "driver_run [] = Some ([], [])"
| "driver_run (e # es) = Option.bind (driver_run es) (driver_step e)"

definition live_values :: "cells \<Rightarrow> (arc \<times> inner) list" where
  "live_values cs = map (\<lambda>(a, n, x). (a, x)) cs"

text \<open>The objects a trace creates and destroys, and whether one was leaked.\<close>

fun created :: "res_event list \<Rightarrow> (arc \<times> inner) list" where
  "created [] = []"
| "created (Created a x # tr) = (a, x) # created tr"
| "created (_ # tr) = created tr"

fun destroyed :: "res_event list \<Rightarrow> (arc \<times> inner) list" where
  "destroyed [] = []"
| "destroyed (Destroyed a x # tr) = (a, x) # destroyed tr"
| "destroyed (_ # tr) = destroyed tr"

definition no_leak :: "res_event list \<Rightarrow> bool" where
  "no_leak tr \<longleftrightarrow> (\<forall>e \<in> set tr. case e of Leaked _ \<Rightarrow> False | _ \<Rightarrow> True)"

end
