(* ===== verification/Ownership_Invariant.thy ===== *)
theory Ownership_Invariant
  imports Ownership "HOL-Library.Multiset"
begin

text \<open>
  The invariant of the store of owners: every count is the number of handles and fields that own the
  cell, every field points to a live cell of its type that is older, and the trace is accounted for.
  Allocating, cloning and dropping preserve it.
\<close>

text \<open>Rust's owners keep alive exactly what the driver needs: the fields are what the object uses.\<close>

lemma uses_are_fields [simp]: "uses x = typed_fields x"
  by (cases x) simp_all

lemma fields_set: "fst ` set (typed_fields x) = set (owned_fields x)"
  by (simp add: owned_fields_def)

section \<open>Counting owners\<close>

definition strong :: "cells \<Rightarrow> arc \<Rightarrow> nat" where
  "strong cs a = (case map_of cs a of None \<Rightarrow> 0 | Some (n, _) \<Rightarrow> n)"

definition refs :: "cells \<Rightarrow> arc \<Rightarrow> nat" where
  "refs cs a = sum_list (map (\<lambda>(b, n, x). count_list (owned_fields x) a) cs)"

definition cell_ok :: "cells \<Rightarrow> arc \<Rightarrow> nat \<Rightarrow> inner \<Rightarrow> bool" where
  "cell_ok cs a n x \<longleftrightarrow>
     0 < n \<and> (\<forall>(f, k) \<in> set (typed_fields x). f < a \<and> map_option (kind_of \<circ> snd) (map_of cs f) = Some k)"

definition store_ok :: "cells \<Rightarrow> arc \<Rightarrow> arc list \<Rightarrow> bool" where
  "store_ok cs nxt hs \<longleftrightarrow>
     distinct (map fst cs) \<and>
     (\<forall>a n x. map_of cs a = Some (n, x) \<longrightarrow> a < nxt \<and> cell_ok cs a n x) \<and>
     (\<forall>a. strong cs a = count_list hs a + refs cs a)"

text \<open>
  The trace: every object created once, and by now destroyed or alive; without a leak, a run of the
  driver; with one, a run only as long as what the leaked queue pair uses is alive.
\<close>

definition leaks_ok :: "cells \<Rightarrow> res_event list \<Rightarrow> bool" where
  "leaks_ok cs tr \<longleftrightarrow>
     (\<forall>live leaked. driver_run tr = Some (live, leaked) \<longrightarrow>
        live = live_values cs \<and> (no_leak tr \<longleftrightarrow> leaked = []) \<and>
        (\<forall>x \<in> set leaked. owned_fields x \<noteq> [] \<and> set (owned_fields x) \<subseteq> dom (map_of cs))) \<and>
     (no_leak tr \<longrightarrow> driver_run tr \<noteq> None)"

definition trace_ok :: "cells \<Rightarrow> arc \<Rightarrow> res_event list \<Rightarrow> bool" where
  "trace_ok cs nxt tr \<longleftrightarrow>
     mset (created tr) = mset (destroyed tr) + mset (live_values cs) \<and>
     distinct (map fst (created tr)) \<and> (\<forall>a \<in> fst ` set (created tr). a < nxt) \<and> leaks_ok cs tr"

definition own_inv :: "arc list \<Rightarrow> 'h rsrc \<Rightarrow> bool" where
  "own_inv hs s \<longleftrightarrow>
     store_ok (rs_cells s) (rs_next s) hs \<and> trace_ok (rs_cells s) (rs_next s) (rs_trace s)"

lemma count_list_0: "count_list xs a = 0 \<longleftrightarrow> a \<notin> set xs"
  by (induction xs) auto

lemma refs_simps [simp]:
  "refs [] a = 0"
  "refs ((b, n, x) # cs) a = count_list (owned_fields x) a + refs cs a"
  by (simp_all add: refs_def)

lemma refs_zero: "refs cs a = 0 \<longleftrightarrow> (\<forall>(b, n, x) \<in> set cs. a \<notin> set (owned_fields x))"
  by (induction cs) (auto simp: count_list_0)

lemma refs_update:
  "map_of cs a = Some (n, x) \<Longrightarrow> refs (AList.update a (m, x) cs) b = refs cs b"
  by (induction cs) auto

lemma refs_delete:
  "distinct (map fst cs) \<Longrightarrow> map_of cs a = Some (n, x) \<Longrightarrow>
     refs cs b = count_list (owned_fields x) b + refs (AList.delete a cs) b"
proof (induction cs)
  case (Cons c cs)
  show ?case
  proof (cases "fst c = a")
    case True
    with Cons.prems have "a \<notin> fst ` set cs" by auto
    then have "AList.delete a cs = cs" by simp
    with True Cons.prems show ?thesis by (cases c) (auto simp: AList.delete_eq)
  qed (use Cons in \<open>cases c; auto simp: AList.delete_eq\<close>)
qed simp

lemma live_values_simps [simp]:
  "live_values [] = []"
  "live_values ((a, n, x) # cs) = (a, x) # live_values cs"
  by (simp_all add: live_values_def)

lemma map_of_live: "map_of (live_values cs) a = map_option snd (map_of cs a)"
  by (induction cs) auto

lemma live_update:
  "map_of cs a = Some (n, x) \<Longrightarrow> live_values (AList.update a (m, x) cs) = live_values cs"
  by (induction cs) auto

lemma live_delete: "live_values (AList.delete a cs) = AList.delete a (live_values cs)"
  by (induction cs) (auto simp: AList.delete_eq)

lemma mset_delete:
  "distinct (map fst cs) \<Longrightarrow> map_of cs a = Some (n, x) \<Longrightarrow>
     mset (live_values cs) = add_mset (a, x) (mset (live_values (AList.delete a cs)))"
proof (induction cs)
  case (Cons c cs)
  show ?case
  proof (cases "fst c = a")
    case True
    with Cons.prems have "a \<notin> fst ` set cs" by auto
    then have "AList.delete a cs = cs" by simp
    with True Cons.prems show ?thesis by (cases c) auto
  qed (use Cons in \<open>cases c; auto\<close>)
qed simp

lemma strong_present: "map_of cs a = Some (n, x) \<Longrightarrow> strong cs a = n"
  by (simp add: strong_def)

lemma strong_update: "strong (AList.update a (m, x) cs) b = (if b = a then m else strong cs b)"
  by (simp add: strong_def AList.update_conv')

lemma strong_delete: "strong (AList.delete a cs) b = (if b = a then 0 else strong cs b)"
  by (simp add: strong_def AList.delete_conv' restrict_map_def)

lemma cell_ok_update:
  assumes "map_of cs a = Some (n, x)"
  shows "cell_ok (AList.update a (m, x) cs) b k y \<longleftrightarrow> cell_ok cs b k y"
proof -
  have "map_option (kind_of \<circ> snd) (map_of (AList.update a (m, x) cs) f) =
      map_option (kind_of \<circ> snd) (map_of cs f)" for f
    using assms by (simp add: AList.update_conv')
  then show ?thesis by (simp add: cell_ok_def)
qed

lemma store_okD:
  assumes "store_ok cs nxt hs" "map_of cs a = Some (n, x)"
  shows "a < nxt" "cell_ok cs a n x" "n = count_list hs a + refs cs a"
proof -
  show "a < nxt" "cell_ok cs a n x" using assms by (auto simp: store_ok_def)
  have "strong cs a = count_list hs a + refs cs a" using assms(1) by (simp add: store_ok_def)
  with assms(2) show "n = count_list hs a + refs cs a" by (simp add: strong_def)
qed

lemma store_ok_present:
  assumes "store_ok cs nxt hs" "a \<in> set hs"
  obtains n x where "map_of cs a = Some (n, x)"
proof (cases "map_of cs a")
  case None
  then have "strong cs a = 0" by (simp add: strong_def)
  with assms have "count_list hs a = 0" by (simp add: store_ok_def)
  with assms(2) show ?thesis by (simp add: count_list_0)
qed (use that in auto)

lemma store_ok_mset: "mset hs = mset hs' \<Longrightarrow> store_ok cs nxt hs \<longleftrightarrow> store_ok cs nxt hs'"
  by (simp add: store_ok_def flip: count_mset)

section \<open>One decrement, one release, one increment, one allocation\<close>

lemma store_ok_decrement:
  assumes ok: "store_ok cs nxt (a # hs)" and a: "map_of cs a = Some (n, x)" and n: "1 < n"
  shows "store_ok (AList.update a (n - 1, x) cs) nxt hs"
proof -
  have "strong cs b = count_list (a # hs) b + refs cs b" for b
    using ok unfolding store_ok_def by blast
  then have "strong (AList.update a (n - 1, x) cs) b =
      count_list hs b + refs (AList.update a (n - 1, x) cs) b" for b
    using n strong_present [OF a] by (auto simp: strong_update refs_update [OF a])
  moreover have "cell_ok cs a (n - 1) x"
    using store_okD(2) [OF ok a] n by (simp add: cell_ok_def)
  ultimately show ?thesis
    using ok a by (auto simp: store_ok_def AList.distinct_update AList.update_conv' cell_ok_update [OF a])
qed

lemma store_ok_release:
  assumes ok: "store_ok cs nxt (a # hs)" and a: "map_of cs a = Some (n, x)" and n: "\<not> 1 < n"
  shows "store_ok (AList.delete a cs) nxt (owned_fields x @ hs)"
    and "\<forall>y \<in> snd ` set (live_values cs). a \<notin> set (owned_fields y)"
proof -
  from store_okD(3) [OF ok a] n have z: "refs cs a = 0" "count_list hs a = 0" by auto
  have d: "distinct (map fst cs)" using ok by (simp add: store_ok_def)
  from z(1) have free: "(b, m, y) \<in> set cs \<Longrightarrow> a \<notin> set (owned_fields y)" for b m y
    unfolding refs_zero by blast
  then show "\<forall>y \<in> snd ` set (live_values cs). a \<notin> set (owned_fields y)"
    by (auto simp: live_values_def)
  have "strong cs b = count_list (a # hs) b + refs cs b" for b
    using ok unfolding store_ok_def by blast
  moreover have "refs (AList.delete a cs) a = 0" "count_list (owned_fields x) a = 0"
    using refs_delete [OF d a, of a] z(1) by auto
  ultimately have s: "strong (AList.delete a cs) b =
      count_list (owned_fields x @ hs) b + refs (AList.delete a cs) b" for b
    using refs_delete [OF d a, of b] z by (auto simp: strong_delete)
  have c: "cell_ok (AList.delete a cs) b m y" if "cell_ok cs b m y" "map_of cs b = Some (m, y)" for b m y
    using that free [OF map_of_SomeD [OF that(2)]]
    by (fastforce simp: cell_ok_def AList.delete_conv' restrict_map_def owned_fields_def image_iff)
  show "store_ok (AList.delete a cs) nxt (owned_fields x @ hs)"
    unfolding store_ok_def
  proof (intro conjI allI impI)
    fix b m y assume "map_of (AList.delete a cs) b = Some (m, y)"
    then have b: "map_of cs b = Some (m, y)"
      by (auto simp: AList.delete_conv' restrict_map_def split: if_splits)
    from store_okD(1,2) [OF ok b] c [OF _ b] show "b < nxt" "cell_ok (AList.delete a cs) b m y" by auto
  qed (use d s in \<open>auto simp: AList.distinct_delete\<close>)
qed

lemma store_ok_increment:
  assumes ok: "store_ok cs nxt hs" and a: "map_of cs a = Some (n, x)"
  shows "store_ok (AList.update a (Suc n, x) cs) nxt (a # hs)"
proof -
  have "strong cs b = count_list hs b + refs cs b" for b
    using ok unfolding store_ok_def by blast
  then have "strong (AList.update a (Suc n, x) cs) b =
      count_list (a # hs) b + refs (AList.update a (Suc n, x) cs) b" for b
    using strong_present [OF a] by (auto simp: strong_update refs_update [OF a])
  moreover have "cell_ok cs a (Suc n) x"
    using store_okD(2) [OF ok a] by (simp add: cell_ok_def)
  ultimately show ?thesis
    using ok a by (auto simp: store_ok_def AList.distinct_update AList.update_conv' cell_ok_update [OF a])
qed

lemma store_ok_new:
  assumes ok: "store_ok cs nxt (owned_fields x @ hs)"
    and fields: "\<forall>(f, k) \<in> set (typed_fields x). map_option (kind_of \<circ> snd) (map_of cs f) = Some k"
  shows "store_ok ((nxt, 1, x) # cs) (Suc nxt) (nxt # hs)"
    and "map_of cs nxt = None"
proof -
  show none: "map_of cs nxt = None"
    using store_okD(1) [OF ok, of nxt] by (cases "map_of cs nxt") auto
  have lt: "f < nxt" if "(f, k) \<in> set (typed_fields x)" for f k
    using fields that store_okD(1) [OF ok] by fastforce
  have grow: "cell_ok ((nxt, 1, x) # cs) b m y" if "cell_ok cs b m y" "b < nxt" for b m y
    using that by (fastforce simp: cell_ok_def)
  have "strong cs b = count_list (owned_fields x @ hs) b + refs cs b" for b
    using ok unfolding store_ok_def by blast
  from this [of nxt] this have s: "strong ((nxt, 1, x) # cs) b =
      count_list (nxt # hs) b + refs ((nxt, 1, x) # cs) b" for b
    using none by (auto simp: strong_def)
  show "store_ok ((nxt, 1, x) # cs) (Suc nxt) (nxt # hs)"
    unfolding store_ok_def
  proof (intro conjI allI impI)
    fix b m y assume b: "map_of ((nxt, 1, x) # cs) b = Some (m, y)"
    show "b < Suc nxt"
      using b store_okD(1) [OF ok, of b] by (auto split: if_splits)
    show "cell_ok ((nxt, 1, x) # cs) b m y"
    proof (cases "b = nxt")
      case True
      with b fields lt show ?thesis by (fastforce simp: cell_ok_def)
    next
      case False
      with b have "map_of cs b = Some (m, y)" by simp
      with store_okD(1,2) [OF ok this] show ?thesis by (intro grow)
    qed
  qed (use ok none s in \<open>auto simp: store_ok_def map_of_eq_None_iff\<close>)
qed

section \<open>The operations keep the invariant\<close>

definition errno_known :: "'h verbs \<Rightarrow> bool" where
  "errno_known v \<longleftrightarrow> (\<forall>h. v_last_errno v h \<noteq> None)"

lemma drop_inner_Ok:
  assumes "errno_known v"
  shows "\<exists>h'. drop_inner v x h = (Ok (), h')"
proof (cases x)
  case (ContextInner c)
  with assms show ?thesis by (cases "v_close_device v c h") (auto simp: errno_known_def)
qed simp_all

lemma no_leak_simps [simp]:
  "no_leak []" "no_leak (Created a x # tr) = no_leak tr" "no_leak (Destroyed a x # tr) = no_leak tr"
  "\<not> no_leak (Leaked x # tr)"
  by (auto simp: no_leak_def)

lemma leaks_ok_same:
  assumes "leaks_ok cs tr" "live_values cs' = live_values cs"
  shows "leaks_ok cs' tr"
proof -
  have "dom (map_of cs') = dom (map_of cs)"
    using map_of_live [of cs] map_of_live [of cs'] assms(2)
    by (intro set_eqI) (metis domIff option.map_disc_iff)
  with assms show ?thesis by (simp add: leaks_ok_def)
qed

lemma trace_ok_same: "trace_ok cs nxt tr \<Longrightarrow> live_values cs' = live_values cs \<Longrightarrow> trace_ok cs' nxt tr"
  by (auto simp: trace_ok_def intro: leaks_ok_same)

lemma own_inv_mset: "mset hs = mset hs' \<Longrightarrow> own_inv hs s \<longleftrightarrow> own_inv hs' s"
  unfolding own_inv_def using store_ok_mset by blast

lemma own_inv_hw [simp]: "own_inv hs (s\<lparr>rs_hw := h\<rparr>) \<longleftrightarrow> own_inv hs s"
  by (simp add: own_inv_def)

lemma own_inv_decrement:
  assumes "own_inv (a # hs) s" "map_of (rs_cells s) a = Some (n, x)" "1 < n"
  shows "own_inv hs (s\<lparr>rs_cells := AList.update a (n - 1, x) (rs_cells s)\<rparr>)"
  using assms store_ok_decrement [OF _ assms(2,3)]
  by (auto simp: own_inv_def live_update intro: trace_ok_same)

lemma leaks_ok_release:
  assumes ok: "leaks_ok cs tr" and a: "map_of cs a = Some (n, x)"
    and free: "\<forall>y \<in> snd ` set (live_values cs). a \<notin> set (owned_fields y)"
  shows "leaks_ok (AList.delete a cs) (Destroyed a x # tr)"
proof -
  have "live = live_values (AList.delete a cs) \<and> (no_leak tr \<longleftrightarrow> leaked = []) \<and>
      (\<forall>y \<in> set leaked. owned_fields y \<noteq> [] \<and> set (owned_fields y) \<subseteq> dom (map_of (AList.delete a cs)))"
    if "driver_run (Destroyed a x # tr) = Some (live, leaked)" for live leaked
  proof -
    from that obtain live' where d: "driver_run tr = Some (live', leaked)"
      "live = AList.delete a live'" "\<forall>y \<in> set leaked. a \<notin> set (owned_fields y)"
      by (auto simp: bind_eq_Some_conv fields_set split: if_splits)
    with ok show ?thesis
      by (fastforce simp: leaks_ok_def live_delete AList.delete_conv')
  qed
  moreover have "driver_run (Destroyed a x # tr) \<noteq> None" if "no_leak tr"
  proof -
    from ok that obtain live leaked where "driver_run tr = Some (live, leaked)"
      by (auto simp: leaks_ok_def)
    moreover from this ok that have "live = live_values cs" "leaked = []" by (auto simp: leaks_ok_def)
    ultimately show ?thesis using a free by (auto simp: map_of_live fields_set)
  qed
  ultimately show ?thesis by (simp add: leaks_ok_def del: driver_run.simps)
qed

lemma own_inv_release:
  assumes "own_inv (a # hs) s" "map_of (rs_cells s) a = Some (n, x)" "\<not> 1 < n"
  shows "own_inv (owned_fields x @ hs)
           (s\<lparr>rs_cells := AList.delete a (rs_cells s), rs_hw := h,
              rs_trace := Destroyed a x # rs_trace s\<rparr>)"
proof -
  from assms(1) have ok: "store_ok (rs_cells s) (rs_next s) (a # hs)"
    and tr: "trace_ok (rs_cells s) (rs_next s) (rs_trace s)" by (simp_all add: own_inv_def)
  note r = store_ok_release [OF ok assms(2,3)]
  have d: "distinct (map fst (rs_cells s))" using ok by (simp add: store_ok_def)
  from tr have "leaks_ok (AList.delete a (rs_cells s)) (Destroyed a x # rs_trace s)"
    by (intro leaks_ok_release [OF _ assms(2) r(2)]) (simp add: trace_ok_def)
  with r(1) tr mset_delete [OF d assms(2)] show ?thesis by (auto simp: own_inv_def trace_ok_def)
qed

lemma drop_arcs_inv:
  assumes "errno_known v" "own_inv (as @ hs) s"
  shows "\<exists>s'. drop_arcs v as s = (Ok (), s') \<and> own_inv hs s'"
  using assms
proof (induction v as s arbitrary: hs rule: drop_arcs.induct)
  case (2 v a as s)
  have "a \<in> set (a # as @ hs)" by simp
  with "2.prems" obtain n x where a: "map_of (rs_cells s) a = Some (n, x)"
    by (auto simp: own_inv_def elim: store_ok_present)
  obtain h' where h': "drop_inner v x (rs_hw s) = (Ok (), h')"
    using drop_inner_Ok [OF "2.prems"(1)] by blast
  show ?case
  proof (cases "1 < n")
    case True
    from "2.IH"(1) [OF a refl True] own_inv_decrement [OF _ a True] "2.prems"
    show ?thesis using a True by simp
  next
    case False
    from "2.IH"(2) [OF a refl False h' [symmetric] refl] own_inv_release [OF _ a False] "2.prems"
    show ?thesis using a False h' by simp
  qed
qed simp

section \<open>Reading well-typed cells\<close>

lemma kind_at_cell: "kind_at s a = map_option (kind_of \<circ> snd) (map_of (rs_cells s) a)"
  by (simp add: kind_at_def arc_content_def option.map_comp)

lemma own_inv_field:
  assumes "own_inv hs s" "arc_content a s = Some x" "(f, k) \<in> set (typed_fields x)"
  shows "kind_at s f = Some k" "f < a"
proof -
  from assms(2) obtain n where "map_of (rs_cells s) a = Some (n, x)" by (auto simp: arc_content_def)
  with assms(1) have "cell_ok (rs_cells s) a n x" by (auto simp: own_inv_def dest: store_okD(2))
  with assms(3) show "kind_at s f = Some k" "f < a" by (auto simp: cell_ok_def kind_at_cell)
qed

lemma kind_atE:
  assumes "kind_at s a = Some k"
  obtains x where "arc_content a s = Some x" "kind_of x = k"
  using assms by (auto simp: kind_at_def)

lemma context_of_kind: "kind_at s a = Some KContext \<Longrightarrow> \<exists>ctx. context_of s a = Some ctx"
  by (erule kind_atE, case_tac x) (auto simp: context_of_def)

lemma pd_of_kind:
  assumes "own_inv hs s" "kind_at s a = Some KProtectionDomain"
  shows "\<exists>pd. pd_of s a = Some pd"
proof -
  from assms(2) obtain x where x: "arc_content a s = Some x" "kind_of x = KProtectionDomain"
    by (rule kind_atE)
  then obtain c p where "x = ProtectionDomainInner c p" by (cases x) auto
  with x own_inv_field(1) [OF assms(1) x(1), of c KContext] context_of_kind [of s c] show ?thesis
    by (auto simp: pd_of_def)
qed

lemma cq_of_kind:
  assumes "own_inv hs s" "kind_at s a = Some KCompletionQueue"
  shows "\<exists>cq. cq_of s a = Some cq"
proof -
  from assms(2) obtain x where x: "arc_content a s = Some x" "kind_of x = KCompletionQueue"
    by (rule kind_atE)
  then obtain c q n where "x = CompletionQueueInner c q n" by (cases x) auto
  with x own_inv_field(1) [OF assms(1) x(1), of c KContext] context_of_kind [of s c] show ?thesis
    by (auto simp: cq_of_def)
qed

section \<open>Cloning and allocating\<close>

text \<open>What a step may not do to the cells that stay: their values never change.\<close>

definition same_cells :: "'h rsrc \<Rightarrow> 'h rsrc \<Rightarrow> bool" where
  "same_cells s s' \<longleftrightarrow> (\<forall>b. arc_content b s' = arc_content b s) \<and> rs_next s' = rs_next s"

lemma same_cells_kind: "same_cells s s' \<Longrightarrow> kind_at s' b = kind_at s b"
  by (simp add: same_cells_def kind_at_def)

lemma same_cells_hw [simp]: "same_cells s (s\<lparr>rs_hw := h\<rparr>)"
  by (simp add: same_cells_def arc_content_def)

lemma same_cells_trans: "same_cells s s' \<Longrightarrow> same_cells s' s'' \<Longrightarrow> same_cells s s''"
  by (simp add: same_cells_def)

lemma arc_clone_inv:
  assumes "own_inv hs s" "kind_at s a = Some k"
  shows "\<exists>s'. arc_clone a s = (Ok a, s') \<and> own_inv (a # hs) s' \<and> same_cells s s' \<and>
              rs_hw s' = rs_hw s"
proof -
  from assms(2) obtain n x where a: "map_of (rs_cells s) a = Some (n, x)"
    by (auto simp: kind_at_cell)
  let ?s = "s\<lparr>rs_cells := AList.update a (Suc n, x) (rs_cells s)\<rparr>"
  from assms(1) store_ok_increment [OF _ a] have "own_inv (a # hs) ?s"
    by (auto simp: own_inv_def live_update [OF a] intro: trace_ok_same)
  moreover have "same_cells s ?s"
    using a by (simp add: same_cells_def arc_content_def AList.update_conv')
  ultimately show ?thesis using a by (simp add: arc_clone_def)
qed

definition extended :: "arc \<Rightarrow> inner \<Rightarrow> 'h rsrc \<Rightarrow> 'h rsrc \<Rightarrow> bool" where
  "extended a x s s' \<longleftrightarrow>
     (\<forall>b. arc_content b s' = (if b = a then Some x else arc_content b s)) \<and> arc_content a s = None \<and>
     rs_next s' = Suc (rs_next s)"

lemma leaks_ok_new:
  assumes ok: "leaks_ok cs tr" and a: "map_of cs a = None"
    and fields: "\<forall>(f, k) \<in> set (typed_fields x). map_option (kind_of \<circ> snd) (map_of cs f) = Some k"
  shows "leaks_ok ((a, 1, x) # cs) (Created a x # tr)"
proof -
  have "live = live_values ((a, 1, x) # cs) \<and> (no_leak tr \<longleftrightarrow> leaked = []) \<and>
      (\<forall>y \<in> set leaked. owned_fields y \<noteq> [] \<and> set (owned_fields y) \<subseteq> dom (map_of ((a, 1, x) # cs)))"
    if "driver_run (Created a x # tr) = Some (live, leaked)" for live leaked
  proof -
    from that obtain live' where d: "driver_run tr = Some (live', leaked)" "live = (a, x) # live'"
      by (auto simp: bind_eq_Some_conv split: if_splits)
    with ok show ?thesis by (fastforce simp: leaks_ok_def)
  qed
  moreover have "driver_run (Created a x # tr) \<noteq> None" if "no_leak tr"
  proof -
    from ok that obtain live leaked where "driver_run tr = Some (live, leaked)"
      by (auto simp: leaks_ok_def)
    moreover from this ok that have "live = live_values cs" "leaked = []" by (auto simp: leaks_ok_def)
    ultimately show ?thesis using a fields by (auto simp: map_of_live option.map_comp)
  qed
  ultimately show ?thesis by (simp add: leaks_ok_def del: driver_run.simps)
qed

lemma arc_new_inv:
  assumes "own_inv (owned_fields x @ hs) s"
    and "\<forall>(f, k) \<in> set (typed_fields x). kind_at s f = Some k"
  shows "\<exists>s'. arc_new x s = (Ok (rs_next s), s') \<and> own_inv (rs_next s # hs) s' \<and>
              extended (rs_next s) x s s' \<and> rs_hw s' = rs_hw s"
proof -
  let ?s = "snd (arc_new x s)"
  from assms(1) have ok: "store_ok (rs_cells s) (rs_next s) (owned_fields x @ hs)"
    and tr: "trace_ok (rs_cells s) (rs_next s) (rs_trace s)" by (simp_all add: own_inv_def)
  note n = store_ok_new [OF ok assms(2) [unfolded kind_at_cell]]
  have "leaks_ok ((rs_next s, 1, x) # rs_cells s) (Created (rs_next s) x # rs_trace s)"
    using tr by (intro leaks_ok_new [OF _ n(2) assms(2) [unfolded kind_at_cell]]) (simp add: trace_ok_def)
  with tr n(1) have "own_inv (rs_next s # hs) ?s"
    by (auto simp: own_inv_def trace_ok_def arc_new_def intro: less_SucI)
  moreover have "extended (rs_next s) x s ?s"
    using n(2) by (auto simp: extended_def arc_content_def arc_new_def)
  ultimately show ?thesis by (auto simp: arc_new_def)
qed

lemma same_extended: "same_cells s s1 \<Longrightarrow> extended a x s1 s2 \<Longrightarrow> extended a x s s2"
  by (simp add: same_cells_def extended_def)

lemma same_next: "same_cells s s1 \<Longrightarrow> rs_next s1 = rs_next s"
  by (simp add: same_cells_def)

text \<open>
  How the store evolves: names are not reused and a value never changes.
\<close>

definition evolves :: "'h rsrc \<Rightarrow> 'h rsrc \<Rightarrow> bool" where
  "evolves s s' \<longleftrightarrow>
     rs_next s \<le> rs_next s' \<and>
     (\<forall>b x. b < rs_next s \<longrightarrow> arc_content b s' = Some x \<longrightarrow> arc_content b s = Some x)"

lemma evolves_trans: "evolves s s1 \<Longrightarrow> evolves s1 s2 \<Longrightarrow> evolves s s2"
  unfolding evolves_def by (metis order.trans order.strict_trans2)

lemma evolves_same: "same_cells s s' \<Longrightarrow> evolves s s'"
  by (simp add: evolves_def same_cells_def)

lemma evolves_refl [simp]: "evolves s s" "evolves s (s\<lparr>rs_hw := h\<rparr>)"
  "evolves s (s\<lparr>rs_hw := h, rs_trace := tr\<rparr>)"
  by (simp_all add: evolves_def arc_content_def)

lemma evolves_extended: "extended (rs_next s) x s s' \<Longrightarrow> evolves s s'"
  by (auto simp: evolves_def extended_def)

lemma content_update_count:
  "map_of (rs_cells s) a = Some (n, x) \<Longrightarrow>
     arc_content b (s\<lparr>rs_cells := AList.update a (m, x) (rs_cells s)\<rparr>) = arc_content b s"
  by (simp add: arc_content_def AList.update_conv')

lemma content_delete:
  "arc_content b (s\<lparr>rs_cells := AList.delete a (rs_cells s), rs_hw := h, rs_trace := tr\<rparr>) =
     (if b = a then None else arc_content b s)"
  by (simp add: arc_content_def AList.delete_conv')

lemma drop_arcs_evolves: "drop_arcs v as s = (Ok u, s') \<Longrightarrow> evolves s s'"
proof (induction v as s rule: drop_arcs.induct)
  case (2 v a as s)
  from "2.prems" obtain n x where a: "map_of (rs_cells s) a = Some (n, x)"
    by (auto split: option.splits)
  show ?case
  proof (cases "1 < n")
    case True
    with "2.IH"(1) [OF a refl True] "2.prems" a show ?thesis
      by (simp add: evolves_def content_update_count)
  next
    case False
    with "2.prems" a obtain h' where h: "drop_inner v x (rs_hw s) = (Ok (), h')"
      by (auto split: prod.splits outcome.splits)
    with "2.IH"(2) [OF a refl False h [symmetric] refl] "2.prems" a False show ?thesis
      by (auto simp: evolves_def content_delete split: if_splits)
  qed
qed simp

text \<open>The end of every constructor with one owned field.\<close>

lemma clone_new_inv:
  assumes "own_inv hs s" "kind_at s a = Some k" "typed_fields (mk a) = [(a, k)]"
  shows "\<exists>s'. bind_s (arc_clone a) (\<lambda>a'. arc_new (mk a')) s = (Ok (rs_next s), s') \<and>
              own_inv (rs_next s # hs) s' \<and> extended (rs_next s) (mk a) s s' \<and> rs_hw s' = rs_hw s"
proof -
  obtain s1 where 1: "arc_clone a s = (Ok a, s1)" "own_inv (a # hs) s1" "same_cells s s1"
      "rs_hw s1 = rs_hw s"
    using arc_clone_inv [OF assms(1,2)] by blast
  have "own_inv (owned_fields (mk a) @ hs) s1" "\<forall>(f, k) \<in> set (typed_fields (mk a)). kind_at s1 f = Some k"
    using 1 assms(2,3) by (simp_all add: owned_fields_def same_cells_kind)
  from arc_new_inv [OF this] obtain s2 where
    "arc_new (mk a) s1 = (Ok (rs_next s1), s2)" "own_inv (rs_next s1 # hs) s2"
    "extended (rs_next s1) (mk a) s1 s2" "rs_hw s2 = rs_hw s1" by blast
  with 1 show ?thesis by (auto simp: bind_s_def same_next intro: same_extended)
qed

end
