(* ===== verification/Ownership_Lemmas.thy ===== *)
theory Ownership_Lemmas
  imports Ownership_Invariant
begin

text \<open>
  The constructors, and with them every operation of the public interface, preserve the invariant of
  \<open>Ownership_Invariant\<close>; what is alive is what the handles own, and without handles the store is empty.
\<close>

section \<open>The calls to the driver\<close>

text \<open>With \<open>errno\<close> at hand every constructor returns a value or an error.\<close>

definition answers :: "('h, 'a, 'e) comp \<Rightarrow> bool" where
  "answers m \<longleftrightarrow> (\<forall>h. (\<exists>a h'. m h = (Ok a, h')) \<or> (\<exists>e h'. m h = (Err e, h')))"

lemma null_pointer_error_known: "errno_known v \<Longrightarrow> \<exists>e. null_pointer_error v h msg = Err e"
  by (auto simp: errno_known_def null_pointer_error_def split: option.splits)

lemma query_port_answers: "answers (query_port v ctx)"
  by (auto simp: answers_def query_port_def split: prod.splits ibv_port_state.splits)

lemma constructors_answer:
  assumes "errno_known v"
  shows "answers (pd_allocate v ctx)" "answers (cq_create v ctx n)"
    "answers (register_mr_with_access v p addr len flags)"
    "answers (register_dmabuf_mr_with_access v p fd off len iova flags)"
  using null_pointer_error_known [OF assms]
  by (auto simp: answers_def pd_allocate_def cq_create_def register_mr_with_access_def
      register_dmabuf_mr_with_access_def split: prod.splits option.splits)

lemma bind_answers:
  assumes "answers m" "\<And>a. answers (k a)"
  shows "answers (bind_s m k)"
  unfolding answers_def
proof
  fix h
  from assms(1) have "(\<exists>a h'. m h = (Ok a, h')) \<or> (\<exists>e h'. m h = (Err e, h'))"
    by (simp add: answers_def)
  then show "(\<exists>a h'. bind_s m k h = (Ok a, h')) \<or> (\<exists>e h'. bind_s m k h = (Err e, h'))"
  proof (elim disjE exE)
    fix a h' assume "m h = (Ok a, h')"
    then show ?thesis using assms(2) [of a] by (simp add: bind_s_def answers_def)
  qed (simp add: bind_s_def)
qed

lemma qp_builder_answers:
  assumes "errno_known v"
  shows "answers (qp_builder v pd sc rc params)"
  unfolding answers_def
proof
  fix h
  obtain q h1 where q: "v_create_qp v (pd_handle pd) (qp_init_attr sc rc params) h = (q, h1)"
    by (rule prod.exhaust)
  have a: "(\<exists>a h'. bind_s (query_port v (pd_context pd)) (\<lambda>lid. ret_s (mk lid)) h1 = (Ok a, h')) \<or>
      (\<exists>e h'. bind_s (query_port v (pd_context pd)) (\<lambda>lid. ret_s (mk lid)) h1 = (Err e, h'))" for mk
    using bind_answers [OF query_port_answers [of v "pd_context pd"], of "\<lambda>lid. ret_s (mk lid)"]
    by (simp add: answers_def ret_s_def)
  show "(\<exists>a h'. qp_builder v pd sc rc params h = (Ok a, h')) \<or>
        (\<exists>e h'. qp_builder v pd sc rc params h = (Err e, h'))"
  proof (cases q)
    case None
    with q null_pointer_error_known [OF assms, of h1] show ?thesis by (auto simp: qp_builder_def)
  next
    case (Some qn)
    then show ?thesis using q by (cases qn) (simp add: qp_builder_def, rule a)
  qed
qed

lemma own_call_simps:
  "m (rs_hw s) = (Ok a, h') \<Longrightarrow> own_call m s = (Ok a, s\<lparr>rs_hw := h'\<rparr>)"
  "m (rs_hw s) = (Err e, h') \<Longrightarrow> own_call m s = (Err (Ibv e), s\<lparr>rs_hw := h'\<rparr>)"
  by (simp_all add: own_call_def)

section \<open>The constructors\<close>

text \<open>The constructors of a protection domain, a completion queue and a memory region, in one form.\<close>

definition own_create ::
  "('h rsrc \<Rightarrow> 'y option) \<Rightarrow> ('y \<Rightarrow> ('h, 'z, ibv_error) comp) \<Rightarrow> arc \<Rightarrow> ('z \<Rightarrow> arc \<Rightarrow> inner) \<Rightarrow>
     ('h rsrc, arc, own_error) comp" where
  "own_create get m a mk =
     bind_s (deref get) (\<lambda>y. bind_s (own_call (m y)) (\<lambda>z. bind_s (arc_clone a) (\<lambda>a'. arc_new (mk z a'))))"

lemma own_create_forms:
  "own_allocate_pd v c = own_create (\<lambda>s. context_of s c) (pd_allocate v) c
     (\<lambda>pd c. ProtectionDomainInner c (pd_handle pd))"
  "own_create_cq v c n = own_create (\<lambda>s. context_of s c) (\<lambda>ctx. cq_create v ctx n) c
     (\<lambda>cq c. CompletionQueueInner c (cq_handle cq) (cq_min_capacity cq))"
  "own_register_mr reg p = own_create (\<lambda>s. pd_of s p) reg p (\<lambda>m p. OwnedMemoryRegion p (mreg_mr m))"
  by (simp_all add: own_create_def own_allocate_pd_def own_create_cq_def own_register_mr_def)

lemma own_create_Ok:
  assumes "own_inv hs s" "get s = Some y" "kind_at s a = Some k" "typed_fields (mk z a) = [(a, k)]"
    and m: "m y (rs_hw s) = (Ok z, h')"
  shows "\<exists>s'. own_create get m a mk s = (Ok (rs_next s), s') \<and> own_inv (rs_next s # hs) s' \<and>
              extended (rs_next s) (mk z a) s s' \<and> rs_hw s' = h'"
proof -
  let ?s = "s\<lparr>rs_hw := h'\<rparr>"
  have "own_inv hs ?s" "kind_at ?s a = Some k"
    using assms(1,3) by (simp_all add: kind_at_def arc_content_def)
  from clone_new_inv [OF this, of "mk z"] assms(4) obtain s' where
    "bind_s (arc_clone a) (\<lambda>a'. arc_new (mk z a')) ?s = (Ok (rs_next ?s), s')"
    "own_inv (rs_next ?s # hs) s'" "extended (rs_next ?s) (mk z a) ?s s'" "rs_hw s' = h'" by auto
  then show ?thesis
    using assms(2) own_call_simps(1) [of "m y", OF m]
    by (auto simp: own_create_def bind_s_def deref_def intro: same_extended [OF same_cells_hw])
qed

lemma own_create_Err:
  "get s = Some y \<Longrightarrow> m y (rs_hw s) = (Err e, h') \<Longrightarrow>
     own_create get m a mk s = (Err (Ibv e), s\<lparr>rs_hw := h'\<rparr>)"
  by (simp add: own_create_def bind_s_def deref_def own_call_def)

text \<open>What a creating operation may do: a new handle on a new cell, or an error and the old handles.\<close>

definition creates :: "kind \<Rightarrow> arc list \<Rightarrow> 'h rsrc \<Rightarrow> (arc, own_error) outcome \<Rightarrow> 'h rsrc \<Rightarrow> bool" where
  "creates k hs s r s' \<longleftrightarrow>
     (r = Ok (rs_next s) \<and> own_inv (rs_next s # hs) s' \<and>
        (\<exists>x. extended (rs_next s) x s s' \<and> kind_of x = k)) \<or>
     (\<exists>e. r = Err (Ibv e) \<and> own_inv hs s' \<and> evolves s s')"

lemma own_create_creates:
  assumes "own_inv hs s" "get s = Some y" "kind_at s a = Some k" "\<And>z. typed_fields (mk z a) = [(a, k)]"
    and "answers (m y)" "own_create get m a mk s = (r, s')" "\<And>z. kind_of (mk z a) = k'"
  shows "creates k' hs s r s'"
  using assms(5) [unfolded answers_def, rule_format, of "rs_hw s"]
proof (elim disjE exE)
  fix z h' assume "m y (rs_hw s) = (Ok z, h')"
  from own_create_Ok [where mk = mk and get = get and m = m, OF assms(1-3) assms(4) [of z] this] assms(6,7) show ?thesis
    by (auto simp: creates_def)
next
  fix e h' assume "m y (rs_hw s) = (Err e, h')"
  from own_create_Err [where mk = mk and a = a and get = get and m = m, OF assms(2) this] assms(1,6) show ?thesis
    by (auto simp: creates_def arc_content_def)
qed

lemma own_build_qp_Ok:
  assumes inv: "own_inv hs s" and p: "kind_at s p = Some KProtectionDomain"
    and a: "kind_at s a = Some KCompletionQueue" and b: "kind_at s b = Some KCompletionQueue"
    and get: "pd_of s p = Some pd" "cq_of s a = Some sc" "cq_of s b = Some rc"
    and q: "qp_builder v pd sc rc params (rs_hw s) = (Ok q, h')"
  shows "\<exists>s'. own_build_qp v p a b params s = (Ok (rs_next s), s') \<and> own_inv (rs_next s # hs) s' \<and>
              extended (rs_next s) (OwnedQueuePair p a b (qp_handle (pqp_qp q))) s s' \<and> rs_hw s' = h'"
proof -
  let ?s = "s\<lparr>rs_hw := h'\<rparr>" and ?x = "OwnedQueuePair p a b (qp_handle (pqp_qp q))"
  have k: "kind_at ?s c = kind_at s c" for c by (simp add: kind_at_def arc_content_def)
  obtain s1 where 1: "arc_clone p ?s = (Ok p, s1)" "own_inv (p # hs) s1" "same_cells ?s s1"
    "rs_hw s1 = h'"
    using arc_clone_inv [of hs ?s p] inv p k by auto
  obtain s2 where 2: "arc_clone a s1 = (Ok a, s2)" "own_inv (a # p # hs) s2" "same_cells s1 s2"
    "rs_hw s2 = h'"
    using arc_clone_inv [OF 1(2), of a] a k same_cells_kind [OF 1(3)] 1(4) by auto
  obtain s3 where 3: "arc_clone b s2 = (Ok b, s3)" "own_inv (b # a # p # hs) s3" "same_cells s2 s3"
    "rs_hw s3 = h'"
    using arc_clone_inv [OF 2(2), of b] b k same_cells_kind [OF 1(3)] same_cells_kind [OF 2(3)] 2(4)
    by auto
  have same: "same_cells s s3"
    using 1(3) 2(3) 3(3) same_cells_hw same_cells_trans by metis
  have "own_inv (owned_fields ?x @ hs) s3"
    using own_inv_mset [of "owned_fields ?x @ hs" "b # a # p # hs" s3] 3(2) by simp
  moreover have "\<forall>(f, k) \<in> set (typed_fields ?x). kind_at s3 f = Some k"
    using p a b same_cells_kind [OF same] by simp
  ultimately obtain s4 where 4: "arc_new ?x s3 = (Ok (rs_next s3), s4)" "own_inv (rs_next s3 # hs) s4"
    "extended (rs_next s3) ?x s3 s4" "rs_hw s4 = h'"
    using arc_new_inv [of ?x hs s3] 3(4) by auto
  have "own_build_qp v p a b params s = (Ok (rs_next s3), s4)"
    using get q 1(1) 2(1) 3(1) 4(1) by (simp add: own_build_qp_def bind_s_def deref_def own_call_def)
  with 4 same show ?thesis by (auto simp: same_next intro: same_extended)
qed

lemma own_build_qp_Err:
  assumes "pd_of s p = Some pd" "cq_of s a = Some sc" "cq_of s b = Some rc"
    and "qp_builder v pd sc rc params (rs_hw s) = (Err e, h')"
  shows "own_build_qp v p a b params s =
           (Err (Ibv e), s\<lparr>rs_hw := h', rs_trace :=
              leaked_qp v pd (qp_init_attr sc rc params) p a b (rs_hw s) @ rs_trace s\<rparr>)"
  using assms by (simp add: own_build_qp_def bind_s_def deref_def own_call_def)

lemma own_inv_leak:
  assumes "own_inv hs s" "kind_at s p = Some kp" "kind_at s a = Some ka" "kind_at s b = Some kb"
  shows "own_inv hs (s\<lparr>rs_trace := leaked_qp v pd attr p a b h @ rs_trace s\<rparr>)"
proof -
  have "leaks_ok (rs_cells s) (Leaked (OwnedQueuePair p a b q) # tr)" if "leaks_ok (rs_cells s) tr" for q tr
    using that assms(2-4) by (fastforce simp: leaks_ok_def bind_eq_Some_conv kind_at_cell)
  with assms(1) show ?thesis
    by (auto simp: own_inv_def trace_ok_def leaked_qp_def split: prod.splits option.splits)
qed

lemma own_build_qp_creates:
  assumes "errno_known v" "own_inv hs s" "kind_at s p = Some KProtectionDomain"
    and "kind_at s a = Some KCompletionQueue" "kind_at s b = Some KCompletionQueue"
    and "own_build_qp v p a b params s = (r, s')"
  shows "creates KQueuePair hs s r s'"
proof -
  obtain pd sc rc where get: "pd_of s p = Some pd" "cq_of s a = Some sc" "cq_of s b = Some rc"
    using pd_of_kind [OF assms(2,3)] cq_of_kind [OF assms(2,4)] cq_of_kind [OF assms(2,5)] by blast
  from qp_builder_answers [OF assms(1), of pd sc rc params]
  have "(\<exists>q h'. qp_builder v pd sc rc params (rs_hw s) = (Ok q, h')) \<or>
        (\<exists>e h'. qp_builder v pd sc rc params (rs_hw s) = (Err e, h'))" by (simp add: answers_def)
  then show ?thesis
  proof (elim disjE exE)
    fix q h' assume "qp_builder v pd sc rc params (rs_hw s) = (Ok q, h')"
    from own_build_qp_Ok [OF assms(2-5) get this] assms(6) show ?thesis by (auto simp: creates_def)
  next
    fix e h' assume "qp_builder v pd sc rc params (rs_hw s) = (Err e, h')"
    have "own_inv hs (s\<lparr>rs_hw := h', rs_trace :=
        leaked_qp v pd (qp_init_attr sc rc params) p a b (rs_hw s) @ rs_trace s\<rparr>)"
      using own_inv_leak [of hs "s\<lparr>rs_hw := h'\<rparr>" p _ a _ b _ v pd "qp_init_attr sc rc params" "rs_hw s"]
        assms(2-5) by (simp add: kind_at_def arc_content_def)
    with own_build_qp_Err [OF get \<open>qp_builder v pd sc rc params (rs_hw s) = (Err e, h')\<close>] assms(6)
    show ?thesis by (auto simp: creates_def arc_content_def)
  qed
qed

lemma context_from_device_creates:
  assumes "errno_known v" "own_inv hs s" "context_from_device v d s = (r, s')"
  shows "creates KContext hs s r s'"
proof -
  obtain c h1 where c: "v_open_device v d (rs_hw s) = (c, h1)" by (rule prod.exhaust)
  show ?thesis
  proof (cases c)
    case None
    obtain e where
      "(null_pointer_error v h1 ''Failed to open device context'' :: (arc, ibv_error) outcome) = Err e"
      using null_pointer_error_known [OF assms(1)] by blast
    with c assms None show ?thesis by (auto simp: context_from_device_def creates_def arc_content_def)
  next
    case (Some ctx)
    let ?s = "s\<lparr>rs_hw := h1\<rparr>" and ?x = "ContextInner ctx"
    obtain s1 where 1: "arc_new ?x ?s = (Ok (rs_next s), s1)" "own_inv (rs_next s # hs) s1"
      "extended (rs_next s) ?x ?s s1"
      using arc_new_inv [of ?x hs ?s] assms(2) by auto
    from 1(3) have ext: "extended (rs_next s) ?x s s1" by (rule same_extended [OF same_cells_hw])
    from query_port_answers [of v "\<lparr>ctx_handle = ctx\<rparr>"]
    have "(\<exists>l h'. query_port v \<lparr>ctx_handle = ctx\<rparr> (rs_hw s1) = (Ok l, h')) \<or>
          (\<exists>e h'. query_port v \<lparr>ctx_handle = ctx\<rparr> (rs_hw s1) = (Err e, h'))"
      by (simp add: answers_def)
    then show ?thesis
    proof (elim disjE exE)
      fix l h' assume "query_port v \<lparr>ctx_handle = ctx\<rparr> (rs_hw s1) = (Ok l, h')"
      with c Some 1(1) assms(3) have "r = Ok (rs_next s)" "s' = s1\<lparr>rs_hw := h'\<rparr>"
        by (auto simp: context_from_device_def bind_s_def own_call_def)
      with 1(2) ext show ?thesis
        by (auto simp: creates_def extended_def arc_content_def intro!: exI [of _ ?x])
    next
      fix e h' assume q: "query_port v \<lparr>ctx_handle = ctx\<rparr> (rs_hw s1) = (Err e, h')"
      have "own_inv ([rs_next s] @ hs) (s1\<lparr>rs_hw := h'\<rparr>)" using 1(2) by simp
      from drop_arcs_inv [OF assms(1) this] obtain s2 where
        2: "drop_arcs v [rs_next s] (s1\<lparr>rs_hw := h'\<rparr>) = (Ok (), s2)" "own_inv hs s2" by blast
      have "evolves s s2"
        using evolves_extended [OF ext] drop_arcs_evolves [OF 2(1)]
          evolves_trans evolves_refl(2) by metis
      moreover have "(r, s') = (Err (Ibv e), s2)"
        using c Some 1(1) assms(3) q 2(1)
        by (simp add: context_from_device_def bind_s_def own_call_def lift_s_def del: drop_arcs.simps)
      ultimately show ?thesis using 2(2) by (auto simp: creates_def)
    qed
  qed
qed

text \<open>What the new owner reads back as.\<close>

lemma content_extended: "extended a x s s' \<Longrightarrow> arc_content b s = Some y \<Longrightarrow> arc_content b s' = Some y"
  by (auto simp: extended_def)

lemma context_of_extended:
  assumes "extended a x s s'" "context_of s c = Some ctx"
  shows "context_of s' c = Some ctx"
proof -
  from assms(2) obtain y where y: "arc_content c s = Some y"
    by (auto simp: context_of_def split: option.splits)
  with assms content_extended [OF assms(1) y] show ?thesis by (simp add: context_of_def)
qed

lemma pd_of_extended:
  assumes "extended a x s s'" "pd_of s p = Some pd"
  shows "pd_of s' p = Some pd"
proof -
  from assms(2) obtain c h where y: "arc_content p s = Some (ProtectionDomainInner c h)"
    by (auto simp: pd_of_def split: option.splits inner.splits)
  with assms content_extended [OF assms(1) y] context_of_extended [OF assms(1), of c]
  show ?thesis by (auto simp: pd_of_def)
qed

lemma cq_of_extended:
  assumes "extended a x s s'" "cq_of s q = Some cq"
  shows "cq_of s' q = Some cq"
proof -
  from assms(2) obtain c h n where y: "arc_content q s = Some (CompletionQueueInner c h n)"
    by (auto simp: cq_of_def split: option.splits inner.splits)
  with assms content_extended [OF assms(1) y] context_of_extended [OF assms(1), of c]
  show ?thesis by (auto simp: cq_of_def)
qed

lemma qp_builder_value:
  assumes "qp_builder v pd sc rc params h = (Ok q, h')"
  shows "pqp_qp q = \<lparr>qp_pd = pd, qp_send_cq = sc, qp_recv_cq = rc, qp_handle = qp_handle (pqp_qp q)\<rparr>"
  using assms by (auto simp: qp_builder_def bind_s_eq_Ok ret_s_def split: prod.splits option.splits)

lemma qp_of_extended:
  assumes "extended a (OwnedQueuePair p sc rc n) s s'"
    and "pd_of s p = Some pd" "cq_of s sc = Some send_cq" "cq_of s rc = Some recv_cq"
    and "q = \<lparr>qp_pd = pd, qp_send_cq = send_cq, qp_recv_cq = recv_cq, qp_handle = n\<rparr>"
  shows "qp_of s' a = Some q"
proof -
  have "arc_content a s' = Some (OwnedQueuePair p sc rc n)" using assms(1) by (simp add: extended_def)
  with assms pd_of_extended [OF assms(1,2)] cq_of_extended [OF assms(1,3)] cq_of_extended [OF assms(1,4)]
  show ?thesis by (simp add: qp_of_def)
qed

section \<open>Preservation and progress\<close>

lemma arc_clone_keeps:
  assumes "own_inv hs s" "kind_at s a = Some k" "arc_clone a s = (r, s')"
  shows "r = Ok a \<and> own_inv (a # hs) s' \<and> (\<forall>b. arc_content b s' = arc_content b s)"
  using arc_clone_inv [OF assms(1,2)] assms(3) by (auto simp: same_cells_def)

lemma lent_field: "lent x = Some b \<Longrightarrow> \<exists>k. (b, k) \<in> set (typed_fields x)"
  by (cases x) auto

lemma permitted_creates:
  assumes inv: "own_inv hs s" and v: "errno_known v" and per: "permitted op hs s"
    and m: "creating v op = Some m" "m s = (r, s')"
  shows "\<exists>k. creates k hs s r s'"
  using per m
proof (cases op)
  case (AllocatePd c)
  with per obtain ctx where "context_of s c = Some ctx" "kind_at s c = Some KContext"
    using context_of_kind by (auto simp: holds_def)
  from own_create_creates [where get = "\<lambda>s. context_of s c" and m = "pd_allocate v"
      and mk = "\<lambda>pd c. ProtectionDomainInner c (pd_handle pd)",
      OF inv this _ constructors_answer(1) [OF v]]
  show ?thesis using AllocatePd m by (auto simp: own_create_forms)
next
  case (CreateCq c n)
  with per obtain ctx where "context_of s c = Some ctx" "kind_at s c = Some KContext"
    using context_of_kind by (auto simp: holds_def)
  from own_create_creates [where get = "\<lambda>s. context_of s c" and m = "\<lambda>ctx. cq_create v ctx n"
      and mk = "\<lambda>cq c. CompletionQueueInner c (cq_handle cq) (cq_min_capacity cq)",
      OF inv this _ constructors_answer(2) [OF v]]
  show ?thesis using CreateCq m by (auto simp: own_create_forms)
next
  case (RegisterMr p addr len fl)
  with per obtain pd where "pd_of s p = Some pd" "kind_at s p = Some KProtectionDomain"
    using pd_of_kind [OF inv] by (auto simp: holds_def)
  from own_create_creates [where get = "\<lambda>s. pd_of s p"
      and m = "\<lambda>pd. register_mr_with_access v (pd_handle pd) addr len fl"
      and mk = "\<lambda>m p. OwnedMemoryRegion p (mreg_mr m)",
      OF inv this _ constructors_answer(3) [OF v]]
  show ?thesis using RegisterMr m by (auto simp: own_create_forms)
next
  case (RegisterDmabuf p fd off len iova fl)
  with per obtain pd where "pd_of s p = Some pd" "kind_at s p = Some KProtectionDomain"
    using pd_of_kind [OF inv] by (auto simp: holds_def)
  from own_create_creates [where get = "\<lambda>s. pd_of s p"
      and m = "\<lambda>pd. register_dmabuf_mr_with_access v (pd_handle pd) fd off len iova fl"
      and mk = "\<lambda>m p. OwnedMemoryRegion p (mreg_mr m)",
      OF inv this _ constructors_answer(4) [OF v]]
  show ?thesis using RegisterDmabuf m by (auto simp: own_create_forms)
next
  case (OpenDevice d)
  with m context_from_device_creates [OF v inv, of d r s'] show ?thesis by auto
next
  case (BuildQp p a b prm)
  with per m own_build_qp_creates [OF v inv, of p a b prm r s'] show ?thesis by (auto simp: holds_def)
qed simp_all

text \<open>
  A permitted operation uses no freed cell, does not panic and keeps the invariant.
\<close>

lemma creating_handles: "creating v op = Some m \<Longrightarrow>
    handles_after op (Ok (Some a)) hs = a # hs \<and> handles_after op (Err e) hs = hs"
  by (cases op) auto

lemma exec_keeps:
  assumes inv: "own_inv hs s" and v: "errno_known v" and per: "permitted op hs s"
    and e: "own_exec v op s = (r, s')"
  shows "(is_ok r \<or> (\<exists>e. r = Err (Ibv e))) \<and> own_inv (handles_after op r hs) s' \<and> evolves s s'"
proof (cases "creating v op")
  case (Some m)
  obtain r0 s0 where m: "m s = (r0, s0)" by (rule prod.exhaust)
  note c = permitted_creates [OF inv v per Some m] and h = creating_handles [OF Some]
  from e Some m have "(r, s') = bind_s (\<lambda>_. (r0, s0)) (\<lambda>a. ret_s (Some a)) s"
    by (simp add: own_exec_def bind_s_def)
  with c h show ?thesis
    by (fastforce simp: creates_def bind_s_def ret_s_def intro: evolves_extended)
next
  case None
  then consider (clone) a where "op = CloneHandle a" | (lent) a where "op = CloneLent a"
    | (drop) a where "op = DropHandle a" by (cases op) auto
  then show ?thesis
  proof cases
    case clone
    with per obtain k where "kind_at s a = Some k" by (auto simp: holds_def)
    from arc_clone_inv [OF inv this] clone e show ?thesis
      by (auto simp: own_exec_def bind_s_def ret_s_def intro: evolves_same)
  next
    case lent
    with per obtain x b where x: "arc_content a s = Some x" and b: "lent x = Some b"
      by (auto simp: holds_def elim!: kind_atE; case_tac x; auto)
    with lent_field own_inv_field(1) [OF inv x] obtain k where "kind_at s b = Some k" by blast
    from arc_clone_inv [OF inv this] lent x b e show ?thesis
      by (auto simp: own_exec_def bind_s_def ret_s_def deref_def intro: evolves_same)
  next
    case drop
    with per have "a \<in> set hs" by simp
    then have "own_inv ([a] @ remove1 a hs) s"
      using inv own_inv_mset [of "a # remove1 a hs" hs s] by simp
    from drop_arcs_inv [OF v this] obtain s1 where
      "drop_arcs v [a] s = (Ok (), s1)" "own_inv (remove1 a hs) s1" by blast
    with drop e drop_arcs_evolves [OF this(1)] show ?thesis
      by (auto simp: own_exec_def bind_s_def ret_s_def simp del: drop_arcs.simps)
  qed
qed

section \<open>Reachable states\<close>

lemma own_inv_init: "own_inv [] (rsrc_init h)"
  by (simp add: own_inv_def rsrc_init_def store_ok_def trace_ok_def leaks_ok_def strong_def)

lemma own_reach_inv:
  assumes "own_reach v c" "errno_known v"
  shows "own_inv (fst c) (snd c)"
  using assms
proof (induction rule: own_reach.induct)
  case (own_init h)
  then show ?case by (simp add: own_inv_init)
next
  case (own_next c c')
  from own_next.hyps(2) show ?case
    by (cases rule: own_step.cases) (use own_next exec_keeps in \<open>auto, blast\<close>)
qed

text \<open>Fields are older than their owner, so the youngest cell is owned by handles only.\<close>

lemma empty_without_handles:
  assumes "store_ok cs nxt []"
  shows "cs = []"
proof (rule ccontr)
  assume ne: "cs \<noteq> []"
  define m where "m = Max (fst ` set cs)"
  from ne have "m \<in> fst ` set cs" by (auto simp: m_def intro!: Max_in)
  then obtain n x where m: "map_of cs m = Some (n, x)"
    by (metis map_of_eq_None_iff not_None_eq surj_pair)
  have "refs cs m = 0"
    unfolding refs_zero
  proof clarify
    fix b k y assume b: "(b, k, y) \<in> set cs" "m \<in> set (owned_fields y)"
    moreover have "distinct (map fst cs)" using assms by (simp add: store_ok_def)
    ultimately have "map_of cs b = Some (k, y)" by simp
    from store_okD(2) [OF assms this] b(2) have "m < b"
      by (auto simp: cell_ok_def owned_fields_def)
    moreover have "b \<le> m" using b(1) by (auto simp: m_def intro!: Max_ge image_eqI)
    ultimately show False by simp
  qed
  with store_okD(2,3) [OF assms m] show False by (simp add: cell_ok_def)
qed

section \<open>Alive means owned\<close>

text \<open>What the handles own, directly or through fields.\<close>

inductive owned_by :: "'h rsrc \<Rightarrow> arc list \<Rightarrow> arc \<Rightarrow> bool" for s hs where
  owned_handle: "a \<in> set hs \<Longrightarrow> owned_by s hs a"
| owned_field: "owned_by s hs a \<Longrightarrow> arc_content a s = Some x \<Longrightarrow> b \<in> set (owned_fields x) \<Longrightarrow>
     owned_by s hs b"

lemma owned_is_alive:
  assumes "owned_by s hs b" "own_inv hs s"
  shows "arc_content b s \<noteq> None"
  using assms
proof induction
  case (owned_handle a)
  then show ?case by (auto simp: own_inv_def arc_content_def elim: store_ok_present)
next
  case (owned_field a x b)
  then obtain k where "(b, k) \<in> set (typed_fields x)" by (auto simp: owned_fields_def)
  with own_inv_field(1) [OF owned_field.prems owned_field.hyps(2)] show ?case by (auto simp: kind_at_def)
qed

lemma alive_is_owned:
  assumes inv: "own_inv hs s" and "arc_content b s = Some x"
  shows "owned_by s hs b"
  using assms(2)
proof (induction "rs_next s - b" arbitrary: b x rule: less_induct)
  case less
  have ok: "store_ok (rs_cells s) (rs_next s) hs" using inv by (simp add: own_inv_def)
  from less.prems obtain n where b: "map_of (rs_cells s) b = Some (n, x)" by (auto simp: arc_content_def)
  from store_okD(2,3) [OF ok b] have "count_list hs b \<noteq> 0 \<or> refs (rs_cells s) b \<noteq> 0"
    by (auto simp: cell_ok_def)
  then show ?case
  proof
    assume "count_list hs b \<noteq> 0"
    then show ?thesis by (intro owned_handle) (simp add: count_list_0)
  next
    assume "refs (rs_cells s) b \<noteq> 0"
    then obtain c m y where c: "(c, m, y) \<in> set (rs_cells s)" "b \<in> set (owned_fields y)"
      unfolding refs_zero by blast
    moreover have "distinct (map fst (rs_cells s))" using ok by (simp add: store_ok_def)
    ultimately have cy: "map_of (rs_cells s) c = Some (m, y)" "arc_content c s = Some y"
      by (simp_all add: arc_content_def)
    with c(2) own_inv_field(2) [OF inv cy(2)] store_okD(1) [OF ok cy(1)]
    have "rs_next s - c < rs_next s - b" by (fastforce simp: owned_fields_def)
    from less.hyps [OF this cy(2)] cy(2) c(2) show ?thesis by (rule owned_field)
  qed
qed

lemma alive_below_next:
  assumes "own_inv hs s" "arc_content b s = Some x"
  shows "b < rs_next s"
  using assms store_okD(1) by (auto simp: own_inv_def arc_content_def)

text \<open>The handles determine what is alive: an operation that leaves the handles restores the store.\<close>

lemma same_handles_same_store:
  assumes s: "own_inv hs s" and s': "own_inv hs s'" and ev: "evolves s s'"
  shows "arc_content b s' = arc_content b s"
proof -
  have 1: "arc_content a s' = arc_content a s" if "owned_by s hs a" for a
  proof -
    from that have "owned_by s' hs a"
    proof induction
      case (owned_field a x b)
      from owned_is_alive [OF owned_field.IH s'] obtain y where y: "arc_content a s' = Some y" by auto
      with ev alive_below_next [OF s owned_field.hyps(2)] owned_field.hyps(2) have "y = x"
        by (auto simp: evolves_def)
      with y have "arc_content a s' = Some x" by simp
      from owned_by.owned_field [OF owned_field.IH this owned_field.hyps(3)] show ?case .
    qed (rule owned_by.owned_handle)
    then obtain y where y: "arc_content a s' = Some y" using owned_is_alive [OF _ s'] by blast
    from owned_is_alive [OF that s] obtain x where "arc_content a s = Some x" by blast
    from alive_below_next [OF s this] ev y have "arc_content a s = Some y" by (simp add: evolves_def)
    with y show ?thesis by simp
  qed
  have 2: "owned_by s hs a" if "owned_by s' hs a" for a
    using that
  proof induction
    case (owned_field a x b)
    from 1 [OF owned_field.IH] owned_field.hyps(2) have "arc_content a s = Some x" by simp
    from owned_by.owned_field [OF owned_field.IH this owned_field.hyps(3)] show ?case .
  qed (rule owned_by.owned_handle)
  show ?thesis
  proof (cases "arc_content b s'")
    case None
    then show ?thesis using 1 [of b] alive_is_owned [OF s, of b] by (cases "arc_content b s") auto
  next
    case (Some y)
    from 1 [OF 2 [OF alive_is_owned [OF s' Some]]] show ?thesis .
  qed
qed

end
