(* ===== verification/Owned_Channels.thy ===== *)
theory Owned_Channels
  imports Ownership_Lemmas
begin

text \<open>
  The owners inside the structures that the library builds: \<open>PreparedChannel\<close>, \<open>Channel\<close>,
  \<open>PreparedMultiChannel\<close> and \<open>MultiChannel\<close> (\<open>src/channel/builder.rs\<close>, \<open>src/multi_channel/builder.rs\<close>),
  with what the error paths of their builders drop.

  The locale \<open>owning\<close> is the contract a holder of owners relies on: one owner can be dropped, and lists
  of owners are dropped one after the other.  It is interpreted on \<open>drop_arcs\<close>.
\<close>

section \<open>The contract of owners\<close>

locale owning =
  fixes inv :: "'a list \<Rightarrow> 's \<Rightarrow> bool"
    and drop_all :: "'a list \<Rightarrow> ('s, unit, 'e) comp"
  assumes inv_order: "mset hs = mset hs' \<Longrightarrow> inv hs s \<Longrightarrow> inv hs' s"
    and drop_none: "drop_all [] s = (Ok (), s)"
    and drop_one: "inv (a # hs) s \<Longrightarrow> \<exists>s'. drop_all [a] s = (Ok (), s') \<and> inv hs s'"
    and drop_more: "drop_all (a # as) s = bind_s (drop_all [a]) (\<lambda>_. drop_all as) s"
begin

text \<open>Any selection of the owners can be dropped in any order; the others stay.\<close>

lemma drop_selection:
  "mset hs = mset as + mset rest \<Longrightarrow> inv hs s \<Longrightarrow> \<exists>s'. drop_all as s = (Ok (), s') \<and> inv rest s'"
proof (induction as arbitrary: hs s)
  case Nil
  then show ?case using inv_order [of hs rest s] by (simp add: drop_none)
next
  case (Cons a as)
  have "inv (a # as @ rest) s"
    by (rule inv_order [OF _ Cons.prems(2)]) (simp add: Cons.prems(1))
  from drop_one [OF this] obtain s1 where 1: "drop_all [a] s = (Ok (), s1)" "inv (as @ rest) s1"
    by blast
  have "mset (as @ rest) = mset as + mset rest" by simp
  from Cons.IH [OF this 1(2)] obtain s2 where "drop_all as s1 = (Ok (), s2)" "inv rest s2" by blast
  with 1(1) have "drop_all (a # as) s = (Ok (), s2)" by (subst drop_more) (simp add: bind_s_def)
  with \<open>inv rest s2\<close> show ?case by blast
qed

end

definition owners :: "'h verbs \<Rightarrow> arc list \<Rightarrow> 'h rsrc \<Rightarrow> bool" where
  "owners v hs s \<longleftrightarrow> errno_known v \<and> own_inv hs s"

lemma drop_arcs_more: "drop_arcs v (as @ bs) s = bind_s (drop_arcs v as) (\<lambda>_. drop_arcs v bs) s"
proof (induction v as s rule: drop_arcs.induct)
  case (1 v s)
  then show ?case by (simp add: bind_s_def)
next
  case (2 v a as s)
  show ?case
  proof (cases "map_of (rs_cells s) a")
    case None
    then show ?thesis by (simp add: bind_s_def)
  next
    case (Some c)
    obtain n x where c: "c = (n, x)" by (rule prod.exhaust)
    show ?thesis
    proof (cases "1 < n")
      case True
      with "2.IH"(1) [OF Some c [symmetric] True] Some c show ?thesis by (simp add: bind_s_def)
    next
      case False
      obtain r h' where d: "drop_inner v x (rs_hw s) = (r, h')" by (rule prod.exhaust)
      show ?thesis
      proof (cases r)
        case (Ok u)
        with "2.IH"(2) [OF Some c [symmetric] False d [symmetric]] Some c False d show ?thesis
          by (simp add: bind_s_def)
      qed (use Some c False d in \<open>simp_all add: bind_s_def\<close>)
    qed
  qed
qed

interpretation arcs: owning "owners v" "drop_arcs v" for v :: "'h verbs"
proof
  show "owners v hs s \<Longrightarrow> owners v hs' s" if "mset hs = mset hs'" for hs hs' and s :: "'h rsrc"
    using own_inv_mset [OF that, of s] by (simp add: owners_def)
  show "\<exists>s'. drop_arcs v [a] s = (Ok (), s') \<and> owners v hs s'" if "owners v (a # hs) s" for a hs s
    using that drop_arcs_inv [of v "[a]" hs s] by (auto simp: owners_def simp del: drop_arcs.simps)
  show "drop_arcs v (a # as) s = bind_s (drop_arcs v [a]) (\<lambda>_. drop_arcs v as) s" for a as s
    using drop_arcs_more [of v "[a]" as s] by simp
qed simp

section \<open>Building channels\<close>

text \<open>The owners of a prepared channel: its completion queue and its queue pair.\<close>

type_synonym owned_channel = "arc \<times> arc"

definition channel_owners :: "owned_channel list \<Rightarrow> arc list" where
  "channel_owners chs = concat (map (\<lambda>(cq, qp). [cq, qp]) chs)"

definition own_build_channel ::
  "'h verbs \<Rightarrow> arc \<Rightarrow> u32 \<Rightarrow> qp_params \<Rightarrow> ('h rsrc, owned_channel, own_error) comp" where
  "own_build_channel v pd min_cq_entries params =
     bind_s (deref (\<lambda>s. Option.bind (arc_content pd s) lent)) (\<lambda>context.
     bind_s (own_create_cq v context min_cq_entries) (\<lambda>cq s.
       case own_build_qp v pd cq cq params s of
         (Ok qp, s1) \<Rightarrow> (Ok (cq, qp), s1)
       | (Err e, s1) \<Rightarrow> bind_s (drop_arcs v [cq]) (\<lambda>_. lift_s (Err e)) s1
       | (Panic, s1) \<Rightarrow> (Panic, s1)
       | (NoFuel, s1) \<Rightarrow> (NoFuel, s1)))"

text \<open>
  \<open>(0..num_channels).map(build).collect::<IbvResult<_>>()?\<close>: the first error drops the channels
  collected so far.
\<close>

fun own_collect_channels ::
  "'h verbs \<Rightarrow> arc \<Rightarrow> u32 \<Rightarrow> qp_params \<Rightarrow> nat \<Rightarrow> owned_channel list \<Rightarrow>
     ('h rsrc, owned_channel list, own_error) comp" where
  "own_collect_channels v pd n params 0 acc s = (Ok acc, s)"
| "own_collect_channels v pd n params (Suc k) acc s =
     (case own_build_channel v pd n params s of
        (Ok ch, s1) \<Rightarrow> own_collect_channels v pd n params k (acc @ [ch]) s1
      | (Err e, s1) \<Rightarrow> bind_s (drop_arcs v (channel_owners acc)) (\<lambda>_. lift_s (Err e)) s1
      | (Panic, s1) \<Rightarrow> (Panic, s1)
      | (NoFuel, s1) \<Rightarrow> (NoFuel, s1))"

definition own_build_multi_channel ::
  "'h verbs \<Rightarrow> arc \<Rightarrow> nat \<Rightarrow> u32 \<Rightarrow> qp_params \<Rightarrow> ('h rsrc, owned_channel list \<times> arc, own_error) comp"
where
  "own_build_multi_channel v pd num_channels n params =
     bind_s (own_collect_channels v pd n params num_channels [])
       (\<lambda>channels. bind_s (arc_clone pd) (\<lambda>pd'. ret_s (channels, pd')))"

text \<open>The owners of a multi-channel, in the order its fields are dropped.\<close>

definition multi_channel_owners :: "owned_channel list \<times> arc \<Rightarrow> arc list" where
  "multi_channel_owners mc = channel_owners (fst mc) @ [snd mc]"

section \<open>Lemmas\<close>

lemma channel_owners_simps [simp]:
  "channel_owners [] = []"
  "channel_owners ((cq, qp) # chs) = cq # qp # channel_owners chs"
  "channel_owners (xs @ ys) = channel_owners xs @ channel_owners ys"
  by (simp_all add: channel_owners_def)

text \<open>
  A builder either returns the owners it promises or an error, and then the handles are what they were;
  in both cases no freed cell is used.
\<close>

definition builds :: "('a \<Rightarrow> arc list) \<Rightarrow> arc list \<Rightarrow> 'h rsrc \<Rightarrow> ('a, own_error) outcome \<Rightarrow> 'h rsrc \<Rightarrow> bool"
where
  "builds own hs s r s' \<longleftrightarrow>
     evolves s s' \<and>
     ((\<exists>a. r = Ok a \<and> own_inv (own a @ hs) s') \<or> (\<exists>e. r = Err (Ibv e) \<and> own_inv hs s'))"

lemma creates_builds: "creates k hs s r s' \<Longrightarrow> builds (\<lambda>a. [a]) hs s r s'"
  by (auto simp: creates_def builds_def intro: evolves_extended)

lemma drop_builds:
  assumes "errno_known v" "own_inv (as @ hs) s1" "evolves s s1"
  shows "\<exists>s'. drop_arcs v as s1 = (Ok (), s') \<and> own_inv hs s' \<and> evolves s s'"
proof -
  obtain s' where "drop_arcs v as s1 = (Ok (), s')" "own_inv hs s'"
    using drop_arcs_inv [OF assms(1,2)] by blast
  with drop_arcs_evolves [OF this(1)] evolves_trans [OF assms(3)] show ?thesis by blast
qed

lemma kind_evolves:
  assumes "evolves s s'" "own_inv hs s" "own_inv hs' s'" "a \<in> set hs'" "kind_at s a = Some k"
  shows "kind_at s' a = Some k"
proof -
  from assms(5) obtain x where x: "arc_content a s = Some x" "kind_of x = k" by (rule kind_atE)
  have "arc_content a s' \<noteq> None"
    by (rule owned_is_alive [OF owned_by.owned_handle [OF assms(4)] assms(3)])
  then obtain y where "arc_content a s' = Some y" by blast
  with assms(1) alive_below_next [OF assms(2) x(1)] x show ?thesis
    by (auto simp: evolves_def kind_at_def)
qed

text \<open>An owner that an operation made: it is new, and of the kind it should be.\<close>

definition made :: "kind \<Rightarrow> 'h rsrc \<Rightarrow> 'h rsrc \<Rightarrow> arc \<Rightarrow> bool" where
  "made k s s' a \<longleftrightarrow> rs_next s \<le> a \<and> kind_at s' a = Some k"

lemma made_extended: "extended (rs_next s) x s s' \<Longrightarrow> made (kind_of x) s s' (rs_next s)"
  by (simp add: made_def extended_def kind_at_def)

lemma made_before: "evolves s0 s \<Longrightarrow> made k s s' a \<Longrightarrow> made k s0 s' a"
  by (auto simp: made_def evolves_def)

lemma made_after:
  "made k s0 s a \<Longrightarrow> evolves s s' \<Longrightarrow> own_inv hs s \<Longrightarrow> own_inv hs' s' \<Longrightarrow> a \<in> set hs' \<Longrightarrow> made k s0 s' a"
  unfolding made_def using kind_evolves by blast

lemma own_build_channel_makes:
  assumes v: "errno_known v" and inv: "own_inv hs s" and pd: "holds hs s pd KProtectionDomain"
    and b: "own_build_channel v pd n params s = (r, s')"
  shows "builds (\<lambda>(cq, qp). [cq, qp]) hs s r s' \<and> (\<forall>ch. r = Ok ch \<longrightarrow> made KQueuePair s s' (snd ch))"
proof -
  from pd have k: "kind_at s pd = Some KProtectionDomain" and h: "pd \<in> set hs" by (simp_all add: holds_def)
  from k obtain c p where x: "arc_content pd s = Some (ProtectionDomainInner c p)"
    by (auto elim!: kind_atE; case_tac x; auto)
  have c: "kind_at s c = Some KContext" by (rule own_inv_field(1) [OF inv x]) simp
  obtain r1 s1 where cq: "own_create_cq v c n s = (r1, s1)" by (rule prod.exhaust)
  obtain ctx where ctx: "context_of s c = Some ctx" using context_of_kind [OF c] by blast
  have "creates KCompletionQueue hs s r1 s1"
    by (rule own_create_creates [where get = "\<lambda>s. context_of s c" and m = "\<lambda>ctx. cq_create v ctx n"
          and mk = "\<lambda>cq c. CompletionQueueInner c (cq_handle cq) (cq_min_capacity cq)" and k = KContext,
          OF inv ctx c _ constructors_answer(2) [OF v]])
      (use cq in \<open>simp_all add: own_create_forms\<close>)
  then show ?thesis
    unfolding creates_def
  proof (elim disjE conjE exE)
    fix e assume "r1 = Err (Ibv e)" "own_inv hs s1" "evolves s s1"
    with b x cq show ?thesis
      by (auto simp: own_build_channel_def bind_s_def deref_def builds_def)
  next
    fix y assume ok: "r1 = Ok (rs_next s)" and inv1: "own_inv (rs_next s # hs) s1"
      and ext: "extended (rs_next s) y s s1" and ky: "kind_of y = KCompletionQueue"
    have ev: "evolves s s1" using ext by (rule evolves_extended)
    have "kind_at s1 pd = Some KProtectionDomain"
      using kind_evolves [OF ev inv inv1 _ k] h by simp
    moreover have q: "kind_at s1 (rs_next s) = Some KCompletionQueue"
      using ext ky by (simp add: kind_at_def extended_def)
    moreover obtain r2 s2 where qp: "own_build_qp v pd (rs_next s) (rs_next s) params s1 = (r2, s2)"
      by (rule prod.exhaust)
    ultimately have "creates KQueuePair (rs_next s # hs) s1 r2 s2"
      by (intro own_build_qp_creates [OF v inv1])
    then show ?thesis
      unfolding creates_def
    proof (elim disjE conjE exE)
      fix z assume 2: "r2 = Ok (rs_next s1)" "own_inv (rs_next s1 # rs_next s # hs) s2"
        "extended (rs_next s1) z s1 s2" "kind_of z = KQueuePair"
      have "own_inv (rs_next s # rs_next s1 # hs) s2"
        using own_inv_mset [of "rs_next s1 # rs_next s # hs" "rs_next s # rs_next s1 # hs" s2] 2(2) by simp
      with 2 ok b x cq qp evolves_trans [OF ev evolves_extended [OF 2(3)]]
        made_before [OF ev made_extended [OF 2(3)]] show ?thesis
        by (auto simp: own_build_channel_def bind_s_def deref_def builds_def)
    next
      fix e assume 2: "r2 = Err (Ibv e)" "own_inv (rs_next s # hs) s2" "evolves s1 s2"
      from 2(2) have "own_inv ([rs_next s] @ hs) s2" by simp
      from drop_builds [OF v this evolves_trans [OF ev 2(3)]] obtain s3 where
        "drop_arcs v [rs_next s] s2 = (Ok (), s3)" "own_inv hs s3" "evolves s s3" by blast
      with 2(1) ok b x cq qp show ?thesis
        by (auto simp: own_build_channel_def bind_s_def deref_def builds_def lift_s_def
            simp del: drop_arcs.simps)
    qed
  qed
qed

lemmas own_build_channel_builds = own_build_channel_makes [THEN conjunct1]
lemmas own_build_channel_made = own_build_channel_makes [THEN conjunct2, rule_format]

lemma own_collect_channels_builds:
  assumes v: "errno_known v"
  shows "own_inv (channel_owners acc @ hs) s \<Longrightarrow> holds hs s pd KProtectionDomain \<Longrightarrow>
    own_collect_channels v pd n params k acc s = (r, s') \<Longrightarrow>
    evolves s s' \<and>
    ((\<exists>chs. r = Ok (acc @ chs) \<and> length chs = k \<and> own_inv (channel_owners (acc @ chs) @ hs) s') \<or>
     (\<exists>e. r = Err (Ibv e) \<and> own_inv hs s'))"
proof (induction k arbitrary: acc s)
  case 0
  then show ?case by auto
next
  case (Suc k)
  obtain r1 s1 where 1: "own_build_channel v pd n params s = (r1, s1)" by (rule prod.exhaust)
  have "holds (channel_owners acc @ hs) s pd KProtectionDomain"
    using Suc.prems(2) by (simp add: holds_def)
  note b = own_build_channel_builds [OF v Suc.prems(1) this 1]
  then have ev: "evolves s s1" by (simp add: builds_def)
  show ?case
  proof (cases r1)
    case (Ok ch)
    obtain cq qp where ch: "ch = (cq, qp)" by (rule prod.exhaust)
    from b Ok ch have o: "own_inv (cq # qp # channel_owners acc @ hs) s1" by (simp add: builds_def)
    have inv1: "own_inv (channel_owners (acc @ [ch]) @ hs) s1"
      using own_inv_mset [of "cq # qp # channel_owners acc @ hs" "channel_owners (acc @ [ch]) @ hs" s1]
        o ch by simp
    have "holds hs s1 pd KProtectionDomain"
      using Suc.prems(2) kind_evolves [OF ev Suc.prems(1) inv1] by (simp add: holds_def)
    from Suc.IH [OF inv1 this] Suc.prems(3) 1 Ok evolves_trans [OF ev] show ?thesis by fastforce
  next
    case (Err e)
    with b obtain e' where e': "e = Ibv e'" "own_inv (channel_owners acc @ hs) s1"
      by (auto simp: builds_def)
    from drop_builds [OF v e'(2) ev] obtain s2 where
      "drop_arcs v (channel_owners acc) s1 = (Ok (), s2)" "own_inv hs s2" "evolves s s2" by blast
    with Suc.prems(3) 1 Err e' show ?thesis by (auto simp: bind_s_def lift_s_def)
  qed (use b in \<open>simp_all add: builds_def\<close>)
qed

lemma channel_owner_qp: "ch \<in> set chs \<Longrightarrow> snd ch \<in> set (channel_owners chs)"
  by (induction chs) auto

text \<open>The queue pairs of the channels are new, so they are no other channel's.\<close>

lemma own_collect_channels_made:
  assumes v: "errno_known v"
  shows "own_inv (channel_owners acc @ hs) s \<Longrightarrow> holds hs s pd KProtectionDomain \<Longrightarrow>
    own_collect_channels v pd n params k acc s = (Ok chs, s') \<Longrightarrow> evolves s0 s \<Longrightarrow>
    \<forall>ch \<in> set acc. made KQueuePair s0 s (snd ch) \<Longrightarrow>
    \<forall>ch \<in> set chs. made KQueuePair s0 s' (snd ch)"
proof (induction k arbitrary: acc s)
  case 0
  then show ?case by simp
next
  case (Suc k)
  obtain r1 s1 where 1: "own_build_channel v pd n params s = (r1, s1)" by (rule prod.exhaust)
  have h: "holds (channel_owners acc @ hs) s pd KProtectionDomain"
    using Suc.prems(2) by (simp add: holds_def)
  note b = own_build_channel_builds [OF v Suc.prems(1) h 1]
  then have ev: "evolves s s1" by (simp add: builds_def)
  show ?case
  proof (cases r1)
    case (Ok ch)
    obtain cq qp where ch: "ch = (cq, qp)" by (rule prod.exhaust)
    from b Ok ch have o: "own_inv (cq # qp # channel_owners acc @ hs) s1" by (simp add: builds_def)
    have inv1: "own_inv (channel_owners (acc @ [ch]) @ hs) s1"
      using own_inv_mset [of "cq # qp # channel_owners acc @ hs" "channel_owners (acc @ [ch]) @ hs" s1]
        o ch by simp
    have h1: "holds hs s1 pd KProtectionDomain"
      using Suc.prems(2) kind_evolves [OF ev Suc.prems(1) inv1] by (simp add: holds_def)
    have "made KQueuePair s0 s1 (snd c)" if "c \<in> set (acc @ [ch])" for c
      using that
    proof (simp, elim disjE)
      assume "c \<in> set acc"
      with Suc.prems(5) channel_owner_qp show ?thesis
        by (intro made_after [OF _ ev Suc.prems(1) inv1]) auto
    next
      assume "c = ch"
      with own_build_channel_made [OF v Suc.prems(1) h 1 Ok] show ?thesis
        using made_before [OF Suc.prems(4)] by simp
    qed
    with Suc.IH [OF inv1 h1] Suc.prems(3) 1 Ok evolves_trans [OF Suc.prems(4) ev] show ?thesis by simp
  next
    case (Err e)
    with Suc.prems(3) 1 show ?thesis
      by (cases "drop_arcs v (channel_owners acc) s1") (auto simp: bind_s_def lift_s_def split: outcome.splits)
  qed (use Suc.prems(3) 1 in simp_all)
qed

lemma own_build_multi_channel_builds:
  assumes v: "errno_known v" and inv: "own_inv hs s" and pd: "holds hs s pd KProtectionDomain"
    and b: "own_build_multi_channel v pd k n params s = (r, s')"
  shows "builds multi_channel_owners hs s r s' \<and> (\<forall>mc. r = Ok mc \<longrightarrow> length (fst mc) = k)"
proof -
  obtain r1 s1 where 1: "own_collect_channels v pd n params k [] s = (r1, s1)" by (rule prod.exhaust)
  have "own_inv (channel_owners [] @ hs) s" using inv by simp
  from own_collect_channels_builds [OF v this pd 1] have ev: "evolves s s1"
    and c: "(\<exists>chs. r1 = Ok chs \<and> length chs = k \<and> own_inv (channel_owners chs @ hs) s1) \<or>
      (\<exists>e. r1 = Err (Ibv e) \<and> own_inv hs s1)" by simp_all
  from c show ?thesis
  proof (elim disjE exE conjE)
    fix e assume "r1 = Err (Ibv e)" "own_inv hs s1"
    with 1 b ev show ?thesis by (auto simp: own_build_multi_channel_def bind_s_def builds_def)
  next
    fix chs assume chs: "r1 = Ok chs" "length chs = k" "own_inv (channel_owners chs @ hs) s1"
    have k: "kind_at s1 pd = Some KProtectionDomain"
      using kind_evolves [OF ev inv chs(3)] pd by (simp add: holds_def)
    from arc_clone_inv [OF chs(3) k] obtain s2 where
      2: "arc_clone pd s1 = (Ok pd, s2)" "own_inv (pd # channel_owners chs @ hs) s2" "same_cells s1 s2"
      by blast
    have "own_inv (multi_channel_owners (chs, pd) @ hs) s2"
      using own_inv_mset [of "pd # channel_owners chs @ hs" "multi_channel_owners (chs, pd) @ hs" s2] 2(2)
      by (simp add: multi_channel_owners_def)
    with 1 b chs 2(1) evolves_trans [OF ev evolves_same [OF 2(3)]] show ?thesis
      by (auto simp: own_build_multi_channel_def bind_s_def ret_s_def builds_def)
  qed
qed

lemma own_build_multi_channel_made:
  assumes v: "errno_known v" and inv: "own_inv hs s" and pd: "holds hs s pd KProtectionDomain"
    and b: "own_build_multi_channel v pd k n params s = (Ok mc, s')" and ch: "ch \<in> set (fst mc)"
  shows "made KQueuePair s s' (snd ch)"
proof -
  from b obtain s1 where 1: "own_collect_channels v pd n params k [] s = (Ok (fst mc), s1)"
    and 2: "arc_clone pd s1 = (Ok (snd mc), s')"
    by (auto simp: own_build_multi_channel_def bind_s_eq_Ok ret_s_def)
  have i: "own_inv (channel_owners [] @ hs) s" using inv by simp
  from own_collect_channels_made [OF v i pd 1 evolves_refl(1)] ch
  have m: "made KQueuePair s s1 (snd ch)" by simp
  from own_collect_channels_builds [OF v i pd 1]
  have o: "own_inv (channel_owners (fst mc) @ hs) s1" and ev: "evolves s s1" by auto
  have "kind_at s1 pd = Some KProtectionDomain"
    using kind_evolves [OF ev inv o] pd by (simp add: holds_def)
  from arc_clone_keeps [OF o this 2] have "arc_content b s' = arc_content b s1" for b by simp
  with m show ?thesis by (simp add: made_def kind_at_def)
qed

text \<open>
  Building and then dropping the owners in any order leaves the store as it was, and so does a build that
  fails halfway.
\<close>

definition restores :: "('a \<Rightarrow> arc list) \<Rightarrow> 'h verbs \<Rightarrow> 'h rsrc \<Rightarrow> ('a, own_error) outcome \<Rightarrow> 'h rsrc \<Rightarrow> bool"
where
  "restores own v s r s' \<longleftrightarrow>
     (case r of
        Ok a \<Rightarrow> (\<forall>as. mset as = mset (own a) \<longrightarrow>
           (\<exists>s''. drop_arcs v as s' = (Ok (), s'') \<and> (\<forall>b. arc_content b s'' = arc_content b s)))
      | Err e \<Rightarrow> (\<forall>b. arc_content b s' = arc_content b s)
      | _ \<Rightarrow> False)"

lemma builds_restores:
  assumes v: "errno_known v" and inv: "own_inv hs s" and m: "builds own hs s r s'"
  shows "restores own v s r s'"
proof -
  from m have ev: "evolves s s'" by (simp add: builds_def)
  show ?thesis
  proof (cases r)
    case (Ok mc)
    with m have o: "owners v (own mc @ hs) s'"
      using v by (simp add: builds_def owners_def)
    have "\<exists>s''. drop_arcs v as s' = (Ok (), s'') \<and> (\<forall>a. arc_content a s'' = arc_content a s)"
      if "mset as = mset (own mc)" for as
    proof -
      have "mset (own mc @ hs) = mset as + mset hs" using that by simp
      from arcs.drop_selection [OF this o] obtain s'' where
        d: "drop_arcs v as s' = (Ok (), s'')" "own_inv hs s''" by (auto simp: owners_def)
      from same_handles_same_store [OF inv d(2) evolves_trans [OF ev drop_arcs_evolves [OF d(1)]]] d(1)
      show ?thesis by blast
    qed
    with Ok show ?thesis by (simp add: restores_def)
  next
    case (Err e)
    with m have "own_inv hs s'" by (simp add: builds_def)
    with same_handles_same_store [OF inv this ev] Err show ?thesis by (simp add: restores_def)
  qed (use m in \<open>simp_all add: builds_def\<close>)
qed

end
