(* ===== verification/Device_Manager.thy ===== *)
theory Device_Manager
  imports Ownership_Lemmas Rust_Std
begin

text \<open>
  \<open>src/ibverbs/device/manager.rs\<close>: the list of devices, its iterator, and opening a device by name.
\<close>

section \<open>DeviceList\<close>

text \<open>
  \<open>devices_ptr\<close> is \<open>None\<close> when it is null; reading past the array behind it is undefined, here as in Rust.
\<close>

record device_list =
  dl_devices :: "nat list option"
  dl_num :: nat

definition list_devices :: "'h verbs \<Rightarrow> ('h, device_list, ibv_error) comp" where
  "list_devices v h =
     (case v_get_device_list v h of
        ((ptr, num_devices), h') \<Rightarrow>
          let devices = \<lparr>dl_devices = ptr, dl_num = unat (word_of_int num_devices :: usize)\<rparr> in
          (case ptr of
             Some _ \<Rightarrow> (Ok devices, h')
           | None \<Rightarrow>
               (case v_last_errno v h' of
                  None \<Rightarrow> (Panic, h')
                | Some errno \<Rightarrow>
                    if errno \<noteq> 0
                    then (Err (from_errno_with_msg (v_errno_consts v) errno ''Failed to list devices''), h')
                    else (Ok devices, h'))))"

definition dl_drop :: "'h verbs \<Rightarrow> device_list \<Rightarrow> 'h \<Rightarrow> 'h" where
  "dl_drop v dl h = (case dl_devices dl of None \<Rightarrow> h | Some ptr \<Rightarrow> v_free_device_list v ptr h)"

definition dl_len :: "device_list \<Rightarrow> nat" where
  "dl_len dl = dl_num dl"

definition dl_is_empty :: "device_list \<Rightarrow> bool" where
  "dl_is_empty dl \<longleftrightarrow> dl_num dl = 0"

definition dl_get :: "device_list \<Rightarrow> nat \<Rightarrow> nat option" where
  "dl_get dl index = (if dl_num dl \<le> index then None else Some (the (dl_devices dl) ! index))"

section \<open>DeviceListIter\<close>

record device_list_iter =
  dli_list :: device_list
  dli_i :: nat

definition dl_iter :: "device_list \<Rightarrow> device_list_iter" where
  "dl_iter dl = \<lparr>dli_list = dl, dli_i = 0\<rparr>"

definition dli_next :: "device_list_iter \<Rightarrow> nat option \<times> device_list_iter" where
  "dli_next it =
     (let opt_device = dl_get (dli_list it) (dli_i it) in
      (opt_device, if opt_device \<noteq> None then it\<lparr>dli_i := dli_i it + 1\<rparr> else it))"

text \<open>\<open>Iterator::find\<close> and \<open>Iterator::collect\<close> of the standard library, on this iterator.\<close>

lemma dli_next_shrinks:
  "dli_next it = (Some d, it') \<Longrightarrow> dl_num (dli_list it') - dli_i it' < dl_num (dli_list it) - dli_i it"
  by (auto simp: dli_next_def dl_get_def Let_def split: if_splits)

function dli_find :: "(nat \<Rightarrow> bool) \<Rightarrow> device_list_iter \<Rightarrow> nat option" where
  "dli_find p it =
     (case dli_next it of
        (None, _) \<Rightarrow> None
      | (Some d, it') \<Rightarrow> if p d then Some d else dli_find p it')"
  by pat_completeness auto
termination
  by (relation "measure (\<lambda>(p, it). dl_num (dli_list it) - dli_i it)")
    (auto dest!: sym [of _ "dli_next _"] intro: dli_next_shrinks)

function dli_collect :: "device_list_iter \<Rightarrow> nat list" where
  "dli_collect it =
     (case dli_next it of
        (None, _) \<Rightarrow> []
      | (Some d, it') \<Rightarrow> d # dli_collect it')"
  by pat_completeness auto
termination
  by (relation "measure (\<lambda>it. dl_num (dli_list it) - dli_i it)") (auto dest!: sym [of _ "dli_next _"] intro: dli_next_shrinks)

declare dli_find.simps [simp del] dli_collect.simps [simp del]

section \<open>Device\<close>

text \<open>A name that is not UTF-8 is \<open>None\<close>, like a null pointer.\<close>

definition device_name :: "'h verbs \<Rightarrow> nat \<Rightarrow> string option" where
  "device_name v dev =
     (case v_device_name v dev of
        None \<Rightarrow> None
      | Some bytes \<Rightarrow> if utf8_valid (map of_char bytes) then Some bytes else None)"

definition device_get_guid :: "'h verbs \<Rightarrow> nat \<Rightarrow> ('h, guid, ibv_error) comp" where
  "device_get_guid v dev = device_guid v (v_device_guid v dev)"

definition device_open :: "'h verbs \<Rightarrow> nat \<Rightarrow> ('h rsrc, arc, own_error) comp" where
  "device_open v dev = context_from_device v dev"

text \<open>\<open>Context::device\<close>.\<close>

definition context_device :: "'h verbs \<Rightarrow> dev_context \<Rightarrow> nat" where
  "context_device v ctx = v_context_device v (ctx_handle ctx)"

section \<open>open_device\<close>

text \<open>The list is dropped when the function returns, on every path.\<close>

definition open_device :: "'h verbs \<Rightarrow> string \<Rightarrow> ('h rsrc, arc, own_error) comp" where
  "open_device v name =
     bind_s (own_call (list_devices v)) (\<lambda>devices s.
       case (case dli_find (\<lambda>d. device_name v d = Some name) (dl_iter devices) of
               None \<Rightarrow> (Err (Ibv (NotFound (''Device '' @ [CHR 0x27] @ name @ [CHR 0x27] @ '' not found''))), s)
             | Some device \<Rightarrow> device_open v device s) of
         (r, s') \<Rightarrow> (r, s'\<lparr>rs_hw := dl_drop v devices (rs_hw s')\<rparr>))"

section \<open>Lemmas\<close>

text \<open>
  The documented contract of \<open>ibv_get_device_list\<close>: the count is the length of the array, and 0 when the
  pointer is null.
\<close>

definition lists_devices :: "'h verbs \<Rightarrow> bool" where
  "lists_devices v \<longleftrightarrow>
     (\<forall>h. case v_get_device_list v h of
            ((None, n), _) \<Rightarrow> n = 0
          | ((Some ds, n), _) \<Rightarrow> n = int (length ds) \<and> length ds < 2 ^ 31)"

definition devices_of :: "device_list \<Rightarrow> nat list" where
  "devices_of dl = (case dl_devices dl of None \<Rightarrow> [] | Some ds \<Rightarrow> ds)"

definition list_ok :: "device_list \<Rightarrow> bool" where
  "list_ok dl \<longleftrightarrow> dl_num dl = length (devices_of dl)"

lemma list_devices_cases:
  assumes "lists_devices v"
  shows "list_devices v h =
    (case v_get_device_list v h of
       ((Some ds, n), h') \<Rightarrow> (Ok \<lparr>dl_devices = Some ds, dl_num = length ds\<rparr>, h')
     | ((None, n), h') \<Rightarrow>
         (case v_last_errno v h' of
            None \<Rightarrow> (Panic, h')
          | Some errno \<Rightarrow>
              if errno = 0 then (Ok \<lparr>dl_devices = None, dl_num = 0\<rparr>, h')
              else (Err (from_errno_with_msg (v_errno_consts v) errno ''Failed to list devices''), h')))"
proof -
  obtain ptr n h' where p: "v_get_device_list v h = ((ptr, n), h')" by (metis prod.exhaust)
  from assms have c: "case v_get_device_list v h of
            ((None, n), _) \<Rightarrow> n = 0
          | ((Some ds, n), _) \<Rightarrow> n = int (length ds) \<and> length ds < 2 ^ 31"
    unfolding lists_devices_def by (rule spec)
  show ?thesis
  proof (cases ptr)
    case (Some ds)
    with c p have "n = int (length ds)" "length ds < 2 ^ 31" by simp_all
    then have "unat (word_of_int n :: usize) = length ds"
      by (simp add: unat_of_nat take_bit_nat_eq_self)
    with p Some show ?thesis by (simp add: list_devices_def)
  qed (use p c in \<open>simp add: list_devices_def split: option.splits\<close>)
qed

lemma dl_get_devices: "list_ok dl \<Longrightarrow> dl_get dl i = (if i < dl_len dl then Some (devices_of dl ! i) else None)"
  by (auto simp: dl_get_def list_ok_def devices_of_def dl_len_def split: option.splits)

lemma dli_next_at:
  "dli_next \<lparr>dli_list = dl, dli_i = i\<rparr> =
     (dl_get dl i, \<lparr>dli_list = dl, dli_i = if dl_get dl i \<noteq> None then Suc i else i\<rparr>)"
  by (simp add: dli_next_def Let_def)

lemma dli_loops:
  assumes "list_ok dl"
  shows "dli_find p \<lparr>dli_list = dl, dli_i = i\<rparr> = find p (drop i (devices_of dl)) \<and>
         dli_collect \<lparr>dli_list = dl, dli_i = i\<rparr> = drop i (devices_of dl)"
proof (induction "dl_len dl - i" arbitrary: i)
  case 0
  with assms show ?case
    by (simp add: dli_find.simps [of p] dli_collect.simps dli_next_at dl_get_devices list_ok_def dl_len_def)
next
  case (Suc k)
  then have i: "i < length (devices_of dl)" and len: "dl_len dl = length (devices_of dl)"
    using assms by (simp_all add: list_ok_def dl_len_def)
  have "k = dl_len dl - Suc i" using Suc.hyps(2) by simp
  from Suc.hyps(1) [OF this] i len show ?case
    by (simp add: dli_find.simps [of p "\<lparr>dli_list = dl, dli_i = i\<rparr>"]
        dli_collect.simps [of "\<lparr>dli_list = dl, dli_i = i\<rparr>"] dli_next_at dl_get_devices [OF assms]
        Cons_nth_drop_Suc [symmetric])
qed

lemma dli_find_devices:
  "list_ok dl \<Longrightarrow> dli_find p (dl_iter dl) = find p (devices_of dl)"
  by (simp add: dl_iter_def dli_loops)

text \<open>Opening by name is a lookup in the array, then the open itself, then the release of the list.\<close>

lemma open_device_found:
  assumes "lists_devices v" "v_get_device_list v (rs_hw s) = ((Some ds, n), h1)"
  shows "open_device v name s =
    (case find (\<lambda>d. device_name v d = Some name) ds of
       None \<Rightarrow> (Err (Ibv (NotFound (''Device '' @ [CHR 0x27] @ name @ [CHR 0x27] @ '' not found''))),
                s\<lparr>rs_hw := v_free_device_list v ds h1\<rparr>)
     | Some d \<Rightarrow>
         (case context_from_device v d (s\<lparr>rs_hw := h1\<rparr>) of
            (r, s') \<Rightarrow> (r, s'\<lparr>rs_hw := v_free_device_list v ds (rs_hw s')\<rparr>)))"
proof -
  let ?dl = "\<lparr>dl_devices = Some ds, dl_num = length ds\<rparr>"
  have "list_devices v (rs_hw s) = (Ok ?dl, h1)"
    using assms by (simp add: list_devices_cases)
  moreover have "dli_find p (dl_iter ?dl) = find p ds" for p
    using dli_find_devices [of ?dl p] by (simp add: list_ok_def devices_of_def)
  ultimately show ?thesis
    by (simp add: open_device_def bind_s_def own_call_def dl_drop_def device_open_def split: option.splits)
qed

lemma open_device_null:
  assumes "lists_devices v" "v_get_device_list v (rs_hw s) = ((None, n), h1)"
    and "v_last_errno v h1 = Some errno"
  shows "open_device v name s =
    (Err (Ibv (if errno = 0
               then NotFound (''Device '' @ [CHR 0x27] @ name @ [CHR 0x27] @ '' not found'')
               else from_errno_with_msg (v_errno_consts v) errno ''Failed to list devices'')),
     s\<lparr>rs_hw := h1\<rparr>)"
proof -
  have "dli_find p (dl_iter \<lparr>dl_devices = None, dl_num = 0\<rparr>) = None" for p
    using dli_find_devices [of "\<lparr>dl_devices = None, dl_num = 0\<rparr>" p]
    by (simp add: list_ok_def devices_of_def)
  with assms show ?thesis
    by (simp add: open_device_def bind_s_def own_call_def list_devices_cases dl_drop_def)
qed

lemma arc_content_hw: "arc_content b (s\<lparr>rs_hw := h\<rparr>) = arc_content b s"
  by (simp add: arc_content_def)

text \<open>With the store: \<open>open_device\<close> adds one context or leaves the owners as they were.\<close>

lemma open_device_creates:
  assumes v: "errno_known v" and l: "lists_devices v" and inv: "own_inv hs s"
    and r: "open_device v name s = (r, s')"
  shows "creates KContext hs s r s'"
proof -
  obtain ptr n h1 where g: "v_get_device_list v (rs_hw s) = ((ptr, n), h1)" by (metis prod.exhaust)
  have hw: "creates KContext hs s r (s'\<lparr>rs_hw := h\<rparr>)"
    if "creates KContext hs (s\<lparr>rs_hw := h1\<rparr>) r s'" for r s' h
    using that by (simp add: creates_def extended_def arc_content_hw evolves_def cong: if_cong)
  show ?thesis
  proof (cases ptr)
    case None
    from v obtain e where "v_last_errno v h1 = Some e" by (auto simp: errno_known_def)
    from open_device_null [OF l _ this, of s n name] g None r inv show ?thesis
      by (auto simp: creates_def)
  next
    case (Some ds)
    note o = open_device_found [OF l, of s ds n h1 name]
    show ?thesis
    proof (cases "find (\<lambda>d. device_name v d = Some name) ds")
      case None
      with o g Some r inv show ?thesis by (auto simp: creates_def)
    next
      case d: (Some d)
      obtain r1 s1 where c: "context_from_device v d (s\<lparr>rs_hw := h1\<rparr>) = (r1, s1)" by (rule prod.exhaust)
      with o g Some d r have "r = r1" "s' = s1\<lparr>rs_hw := v_free_device_list v ds (rs_hw s1)\<rparr>" by auto
      with hw [OF context_from_device_creates [OF v _ c]] inv show ?thesis by simp
    qed
  qed
qed

end
