(* ===== verification/Public_Interface.thy ===== *)
theory Public_Interface
  imports Node Owned_Channels Device_Manager
begin

text \<open>
  The convenience methods of the public types: what they read and which operation they forward to.
  Builders with the protection domain set (\<open>create_qp\<close>, \<open>create_channel\<close>, \<open>create_multi_channel\<close>,
  \<open>create_node\<close>) are the builder function applied to it.
\<close>

section \<open>Completions and work results\<close>

definition wc_get_wr_id :: "work_completion \<Rightarrow> u64" where
  "wc_get_wr_id wc = wcp_wr_id wc"

definition wc_get_result :: "work_completion \<Rightarrow> work_result" where
  "wc_get_result wc = wcp_result wc"

definition we_get_raw_status :: "work_error \<Rightarrow> u32" where
  "we_get_raw_status e = we_raw_status e"

definition we_get_vendor_code :: "work_error \<Rightarrow> u32" where
  "we_get_vendor_code e = we_vendor_code e"

definition pw_get_wr_id :: "pending_work \<Rightarrow> u64" where
  "pw_get_wr_id w = pw_wr_id w"

text \<open>\<open>PolledCompletions\<close> is the filled part of the caller's buffer.\<close>

type_synonym poll_slot = ibv_wc
type_synonym polled_completions = "poll_slot list"

definition polled_len :: "polled_completions \<Rightarrow> nat" where
  "polled_len wcs = length wcs"

definition polled_is_empty :: "polled_completions \<Rightarrow> bool" where
  "polled_is_empty wcs \<longleftrightarrow> wcs = []"

definition polled_into_iter :: "polled_completions \<Rightarrow> work_completion list" where
  "polled_into_iter wcs = map work_completion_new wcs"

section \<open>Devices, contexts and protection domains\<close>

definition context_create_cq ::
  "'h verbs \<Rightarrow> dev_context \<Rightarrow> u32 \<Rightarrow> ('h, completion_queue, ibv_error) comp" where
  "context_create_cq v ctx min_cq_entries = cq_create v ctx min_cq_entries"

definition context_allocate_pd ::
  "'h verbs \<Rightarrow> dev_context \<Rightarrow> ('h, protection_domain, ibv_error) comp" where
  "context_allocate_pd v ctx = pd_allocate v ctx"

definition cq_get_min_capacity :: "completion_queue \<Rightarrow> u32" where
  "cq_get_min_capacity cq = cq_min_capacity cq"

definition cq_get_context :: "completion_queue \<Rightarrow> dev_context" where
  "cq_get_context cq = cq_context cq"

definition pd_get_context :: "protection_domain \<Rightarrow> dev_context" where
  "pd_get_context pd = pd_context pd"

definition qp_get_pd :: "queue_pair \<Rightarrow> protection_domain" where
  "qp_get_pd qp = qp_pd qp"

definition pd_create_qp ::
  "'h verbs \<Rightarrow> protection_domain \<Rightarrow> completion_queue \<Rightarrow> completion_queue \<Rightarrow> qp_params \<Rightarrow>
     ('h, prepared_queue_pair, ibv_error) comp" where
  "pd_create_qp v pd = qp_builder v pd"

definition pd_register_mr_with_permissions ::
  "'h verbs \<Rightarrow> protection_domain \<Rightarrow> usize \<Rightarrow> usize \<Rightarrow> access_flags \<Rightarrow> ('h, memory_region, ibv_error) comp"
where
  "pd_register_mr_with_permissions v pd address len access_flags =
     register_mr_with_access v (pd_handle pd) address len access_flags"

definition pd_register_local_mr ::
  "'h verbs \<Rightarrow> protection_domain \<Rightarrow> usize \<Rightarrow> usize \<Rightarrow> ('h, memory_region, ibv_error) comp" where
  "pd_register_local_mr v pd address len = register_local_mr v (pd_handle pd) address len"

definition pd_register_local_mr_slice ::
  "'h verbs \<Rightarrow> protection_domain \<Rightarrow> slice \<Rightarrow> ('h, memory_region, ibv_error) comp" where
  "pd_register_local_mr_slice v pd mem = register_local_mr v (pd_handle pd) (sl_ptr mem) (sl_len mem)"

definition pd_register_shared_mr ::
  "'h verbs \<Rightarrow> protection_domain \<Rightarrow> usize \<Rightarrow> usize \<Rightarrow> ('h, memory_region, ibv_error) comp" where
  "pd_register_shared_mr v pd address len = register_shared_mr v (pd_handle pd) address len"

definition pd_register_dmabuf ::
  "'h verbs \<Rightarrow> protection_domain \<Rightarrow> int \<Rightarrow> u64 \<Rightarrow> usize \<Rightarrow> u64 \<Rightarrow> access_flags \<Rightarrow>
     ('h, memory_region, ibv_error) comp" where
  "pd_register_dmabuf v pd fd offset len iova access_flags =
     register_dmabuf_mr_with_access v (pd_handle pd) fd offset len iova access_flags"

definition pd_register_local_dmabuf ::
  "'h verbs \<Rightarrow> protection_domain \<Rightarrow> int \<Rightarrow> u64 \<Rightarrow> usize \<Rightarrow> u64 \<Rightarrow> ('h, memory_region, ibv_error) comp"
where
  "pd_register_local_dmabuf v pd fd offset len iova =
     register_local_dmabuf_mr v (pd_handle pd) fd offset len iova"

definition pd_register_shared_dmabuf ::
  "'h verbs \<Rightarrow> protection_domain \<Rightarrow> int \<Rightarrow> u64 \<Rightarrow> usize \<Rightarrow> u64 \<Rightarrow> ('h, memory_region, ibv_error) comp"
where
  "pd_register_shared_dmabuf v pd fd offset len iova =
     register_shared_dmabuf_mr v (pd_handle pd) fd offset len iova"

section \<open>Memory\<close>

definition mr_gather_element where
  "mr_gather_element dbg m s = gather_new dbg m s"

definition mr_gather_element_checked where
  "mr_gather_element_checked m s = gather_new_checked m s"

definition mr_gather_element_unchecked where
  "mr_gather_element_unchecked m s = gather_new_unchecked m s"

definition mr_scatter_element where
  "mr_scatter_element dbg m s = scatter_new dbg m s"

definition mr_scatter_element_checked where
  "mr_scatter_element_checked m s = scatter_new_checked m s"

definition mr_scatter_element_unchecked where
  "mr_scatter_element_unchecked m s = scatter_new_unchecked m s"

definition rmr_address :: "remote_memory_region \<Rightarrow> u64" where
  "rmr_address r = rmr_addr r"

definition rmr_get_length :: "remote_memory_region \<Rightarrow> usize" where
  "rmr_get_length r = rmr_length r"

definition rmr_get_rkey :: "remote_memory_region \<Rightarrow> u32" where
  "rmr_get_rkey r = rmr_rkey r"

section \<open>Work requests\<close>

text \<open>The trait \<open>WorkRequest\<close>: its four implementors, and \<open>post\<close> of each.\<close>

datatype work_request =
    SendWr send_work_request
  | ReceiveWr receive_work_request
  | WriteWr write_work_request
  | ReadWr read_work_request

definition send_wr_post where "send_wr_post v wr qp wr_id = qp_post_send v qp wr wr_id"
definition receive_wr_post where "receive_wr_post v wr qp wr_id = qp_post_receive v qp wr wr_id"
definition write_wr_post where "write_wr_post v wr qp wr_id = qp_post_write v qp wr wr_id"
definition read_wr_post where "read_wr_post v wr qp wr_id = qp_post_read v qp wr wr_id"

definition qp_post ::
  "'h verbs \<Rightarrow> queue_pair \<Rightarrow> work_request \<Rightarrow> u64 \<Rightarrow> ('h, unit, ibv_error) comp" where
  "qp_post v qp wr wr_id =
     (case wr of
        SendWr w \<Rightarrow> send_wr_post v w qp wr_id
      | ReceiveWr w \<Rightarrow> receive_wr_post v w qp wr_id
      | WriteWr w \<Rightarrow> write_wr_post v w qp wr_id
      | ReadWr w \<Rightarrow> read_wr_post v w qp wr_id)"

text \<open>The peer of a peer work request, and the conversion back to the plain request.\<close>

definition peer_send_peer :: "peer_send_wr \<Rightarrow> nat" where "peer_send_peer w = psw_peer w"
definition peer_receive_peer :: "peer_receive_wr \<Rightarrow> nat" where "peer_receive_peer w = prw_peer w"
definition peer_write_peer :: "peer_write_wr \<Rightarrow> nat" where "peer_write_peer w = pww_peer w"
definition peer_read_peer :: "peer_read_wr \<Rightarrow> nat" where "peer_read_peer w = prd_peer w"

definition send_wr_from_peer :: "peer_send_wr \<Rightarrow> send_work_request" where
  "send_wr_from_peer w = psw_wr w"
definition receive_wr_from_peer :: "peer_receive_wr \<Rightarrow> receive_work_request" where
  "receive_wr_from_peer w = prw_wr w"
definition write_wr_from_peer :: "peer_write_wr \<Rightarrow> write_work_request" where
  "write_wr_from_peer w = pww_wr w"
definition read_wr_from_peer :: "peer_read_wr \<Rightarrow> read_work_request" where
  "read_wr_from_peer w = prd_wr w"

definition prmr_get_peer :: "peer_remote_memory_region \<Rightarrow> nat" where
  "prmr_get_peer r = prmr_peer r"

section \<open>Queue pair configuration\<close>

definition max_rnr_unlimited :: max_rnr_retries where
  "max_rnr_unlimited = RnrUnlimited"

definition ack_unlimited :: ack_timeout where
  "ack_unlimited = AckUnlimited"

fun max_ack_retries_count :: "max_ack_retries \<Rightarrow> u8" where
  "max_ack_retries_count (MaxAckRetries n) = n"

section \<open>Channels, multi-channels, nodes and their scopes\<close>

definition ch_pd :: "channel \<Rightarrow> protection_domain" where
  "ch_pd ch = qp_get_pd (ch_qp ch)"

definition mc_get_pd :: "multi_channel \<Rightarrow> protection_domain" where
  "mc_get_pd m = mc_pd m"

definition node_get_world_size :: "node \<Rightarrow> nat" where
  "node_get_world_size n = node_world_size n"

definition node_get_rank :: "node \<Rightarrow> nat" where
  "node_get_rank n = node_rank n"

definition pd_create_channel where "pd_create_channel v pd = channel_builder v pd"
definition pd_create_multi_channel where
  "pd_create_multi_channel v pd num_channels = multi_channel_builder v num_channels pd"
definition pd_create_node where
  "pd_create_node v pd addr rank world = node_builder v addr rank world pd"

definition ch_scope_pd where "ch_scope_pd sc = ch_pd (sc_inner sc)"
definition mc_scope_pd where "mc_scope_pd sc = mc_get_pd (sc_inner sc)"
definition mc_scope_num_channels where "mc_scope_num_channels sc = length (mc_channels (sc_inner sc))"
definition node_scope_pd where "node_scope_pd sc = node_pd (sc_inner sc)"
definition node_scope_world_size where "node_scope_world_size sc = node_get_world_size (sc_inner sc)"
definition node_scope_rank where "node_scope_rank sc = node_get_rank (sc_inner sc)"

end
