(* ===== verification/Exchanger.thy ===== *)
theory Exchanger
  imports Network_Config Rust_Std "HOL-Library.AList"
begin

text \<open>
  \<open>src/network/tcp_exchanger.rs\<close>: the all-to-all exchange over TCP that brings the endpoints of all
  nodes together.  A message is the serialised pair of a rank and its data behind a length of four
  bytes; every node first serves the nodes of lower rank and then connects to those of higher rank.

  The crates \<open>tokio\<close> (sockets, timer) and \<open>serde_json\<close> are parameters over an arbitrary network state
  \<open>'n\<close>.  The retry loop of a connection and the accept loop take a fuel.  A \<open>HashMap\<close> is an
  association list with distinct keys, of which the code uses \<open>insert\<close>, \<open>remove\<close> and \<open>len\<close>.
\<close>

section \<open>Errors, messages and the crates\<close>

datatype exchange_error =
    InvalidRank nat
  | SerdeError string
  | ExchangeIo io_error
  | MessageTooLarge nat
  | ExchangeTimeout

record exchange_config =
  exchange_timeout :: nat
  retry_delay :: nat

text \<open>In milliseconds.\<close>

definition exchange_config_default :: exchange_config where
  "exchange_config_default = \<lparr>exchange_timeout = 60000, retry_delay = 1000\<rparr>"

record 'd exchange_message =
  em_rank :: nat
  em_data :: 'd

record 'd serde_json =
  sj_to_vec :: "'d exchange_message \<Rightarrow> (u8 list, string) outcome"
  sj_from_slice :: "u8 list \<Rightarrow> ('d exchange_message, string) outcome"

text \<open>
  Listeners and streams are numbers.  \<open>tk_read_exact s k\<close> returns \<open>k\<close> bytes or an error, and \<open>tk_timeout\<close>
  runs a future and returns \<open>None\<close> when the time is over first.
\<close>

record ('n, 'd) tokio =
  tk_build :: "('n, unit, io_error) comp"
  tk_timeout ::
    "nat \<Rightarrow> ('n, 'd list, exchange_error) comp \<Rightarrow> 'n \<Rightarrow> ('d list, exchange_error) outcome option \<times> 'n"
  tk_bind :: "string \<Rightarrow> u16 \<Rightarrow> ('n, nat, io_error) comp"
  tk_accept :: "nat \<Rightarrow> ('n, nat, io_error) comp"
  tk_connect :: "string \<Rightarrow> u16 \<Rightarrow> ('n, nat, io_error) comp"
  tk_sleep :: "nat \<Rightarrow> 'n \<Rightarrow> 'n"
  tk_read_exact :: "nat \<Rightarrow> nat \<Rightarrow> ('n, u8 list, io_error) comp"
  tk_write_all :: "nat \<Rightarrow> u8 list \<Rightarrow> ('n, unit, io_error) comp"

section \<open>Framing\<close>

definition write_stream ::
  "('n, 'd) tokio \<Rightarrow> 'd serde_json \<Rightarrow> nat \<Rightarrow> 'd \<Rightarrow> nat \<Rightarrow> ('n, unit, exchange_error) comp" where
  "write_stream t j rank dat stream =
     bind_s (lift_s (map_err SerdeError (sj_to_vec j \<lparr>em_rank = rank, em_data = dat\<rparr>))) (\<lambda>encoded.
     bind_s (lift_s (if length encoded < 2 ^ 32 then Ok (length encoded)
                     else Err (MessageTooLarge (length encoded)))) (\<lambda>len.
     bind_s (map_err_s ExchangeIo (tk_write_all t stream (be_bytes 4 len))) (\<lambda>_.
       map_err_s ExchangeIo (tk_write_all t stream encoded))))"

definition read_stream ::
  "('n, 'd) tokio \<Rightarrow> 'd serde_json \<Rightarrow> nat \<Rightarrow> ('n, 'd exchange_message, exchange_error) comp" where
  "read_stream t j stream =
     bind_s (map_err_s ExchangeIo (tk_read_exact t stream 4)) (\<lambda>size_buf.
     bind_s (map_err_s ExchangeIo (tk_read_exact t stream (from_be_bytes size_buf))) (\<lambda>msg_buf.
       lift_s (map_err SerdeError (sj_from_slice j msg_buf))))"

section \<open>One exchange\<close>

type_synonym 'd hash_map = "(nat \<times> 'd) list"

text \<open>A range is the pair of its bounds.\<close>

definition in_range :: "nat \<times> nat \<Rightarrow> nat \<Rightarrow> bool" where
  "in_range r x \<longleftrightarrow> fst r \<le> x \<and> x < snd r"

definition insert_if_valid ::
  "'d exchange_message \<Rightarrow> 'd hash_map \<Rightarrow> nat \<times> nat \<Rightarrow> bool \<times> 'd hash_map" where
  "insert_if_valid incoming received valid_range =
     (if in_range valid_range (em_rank incoming)
      then (True, AList.update (em_rank incoming) (em_data incoming) received)
      else (False, received))"

definition exchange_serve ::
  "('n, 'd) tokio \<Rightarrow> 'd serde_json \<Rightarrow> 'd \<Rightarrow> nat \<Rightarrow> nat \<times> nat \<Rightarrow> nat \<Rightarrow> 'd hash_map \<Rightarrow>
     ('n, 'd hash_map, exchange_error) comp" where
  "exchange_serve t j dat self_rank remote_ranks stream received =
     bind_s (write_stream t j self_rank dat stream) (\<lambda>_.
     bind_s (read_stream t j stream) (\<lambda>incoming.
       ret_s (snd (insert_if_valid incoming received remote_ranks))))"

definition exchange_connect ::
  "('n, 'd) tokio \<Rightarrow> 'd serde_json \<Rightarrow> 'd \<Rightarrow> nat \<Rightarrow> nat \<times> nat \<Rightarrow> nat \<Rightarrow> 'd hash_map \<Rightarrow>
     ('n, 'd hash_map, exchange_error) comp" where
  "exchange_connect t j dat self_rank remote_ranks stream received =
     bind_s (read_stream t j stream) (\<lambda>incoming.
     let received' = snd (insert_if_valid incoming received remote_ranks) in
     bind_s (write_stream t j self_rank dat stream) (\<lambda>_. ret_s received'))"

section \<open>Serving and connecting\<close>

definition range_len :: "nat \<times> nat \<Rightarrow> nat" where
  "range_len r = snd r - fst r"

text \<open>\<open>received.remove(&rank).expect(..)\<close> for the ranks of a list, in order.\<close>

fun take_ranks :: "nat list \<Rightarrow> 'd hash_map \<Rightarrow> ('d list, exchange_error) outcome" where
  "take_ranks [] received = Ok []"
| "take_ranks (rank # ranks) received =
     (case map_of received rank of
        None \<Rightarrow> Panic
      | Some d \<Rightarrow> map_ok (\<lambda>ds. d # ds) (take_ranks ranks (AList.delete rank received)))"

text \<open>\<open>while received.len() < remote_ranks.len()\<close>\<close>

fun serve_loop ::
  "nat \<Rightarrow> ('n, 'd) tokio \<Rightarrow> 'd serde_json \<Rightarrow> 'd \<Rightarrow> nat \<Rightarrow> nat \<times> nat \<Rightarrow> nat \<Rightarrow> 'd hash_map \<Rightarrow>
     ('n, 'd hash_map, exchange_error) comp" where
  "serve_loop 0 t j dat self_rank remote_ranks server received n =
     (if length received < range_len remote_ranks then (NoFuel, n) else (Ok received, n))"
| "serve_loop (Suc fuel) t j dat self_rank remote_ranks server received n =
     (if length received < range_len remote_ranks then
        bind_s (map_err_s ExchangeIo (tk_accept t server)) (\<lambda>stream.
        bind_s (exchange_serve t j dat self_rank remote_ranks stream received) (\<lambda>received'.
          serve_loop fuel t j dat self_rank remote_ranks server received')) n
      else (Ok received, n))"

definition exchange_all_serve ::
  "nat \<Rightarrow> ('n, 'd) tokio \<Rightarrow> 'd serde_json \<Rightarrow> 'd \<Rightarrow> node_config \<Rightarrow> nat \<times> nat \<Rightarrow>
     ('n, 'd list, exchange_error) comp" where
  "exchange_all_serve fuel t j dat self_node remote_ranks =
     bind_s (map_err_s ExchangeIo (tk_bind t (hostname self_node) (port self_node))) (\<lambda>server.
     bind_s (serve_loop fuel t j dat (rankid self_node) remote_ranks server []) (\<lambda>received.
       lift_s (take_ranks [fst remote_ranks..<snd remote_ranks] received)))"

text \<open>The retry loop: an attempt that fails is followed by a pause.\<close>

fun connect_loop ::
  "nat \<Rightarrow> ('n, 'd) tokio \<Rightarrow> exchange_config \<Rightarrow> node_config \<Rightarrow> ('n, nat, exchange_error) comp" where
  "connect_loop 0 t c remote_node n = (NoFuel, n)"
| "connect_loop (Suc fuel) t c remote_node n =
     (case tk_connect t (hostname remote_node) (port remote_node) n of
        (Ok s, n') \<Rightarrow> (Ok s, n')
      | (Err _, n') \<Rightarrow> connect_loop fuel t c remote_node (tk_sleep t (retry_delay c) n')
      | (Panic, n') \<Rightarrow> (Panic, n')
      | (NoFuel, n') \<Rightarrow> (NoFuel, n'))"

definition config_get :: "network_config \<Rightarrow> nat \<Rightarrow> node_config option" where
  "config_get network rank = (if rank < length network then Some (network ! rank) else None)"

fun connect_ranks ::
  "nat \<Rightarrow> ('n, 'd) tokio \<Rightarrow> 'd serde_json \<Rightarrow> 'd \<Rightarrow> nat \<Rightarrow> nat \<times> nat \<Rightarrow> network_config \<Rightarrow>
     exchange_config \<Rightarrow> nat list \<Rightarrow> 'd hash_map \<Rightarrow> ('n, 'd hash_map, exchange_error) comp" where
  "connect_ranks fuel t j dat self_rank remote_ranks network c [] received = ret_s received"
| "connect_ranks fuel t j dat self_rank remote_ranks network c (remote_rank # rs) received =
     bind_s (lift_s (ok_or (InvalidRank remote_rank) (config_get network remote_rank))) (\<lambda>remote_node.
     bind_s (connect_loop fuel t c remote_node) (\<lambda>stream.
     bind_s (exchange_connect t j dat self_rank remote_ranks stream received) (\<lambda>received'.
       connect_ranks fuel t j dat self_rank remote_ranks network c rs received')))"

definition exchange_all_connect ::
  "nat \<Rightarrow> ('n, 'd) tokio \<Rightarrow> 'd serde_json \<Rightarrow> 'd \<Rightarrow> node_config \<Rightarrow> nat \<times> nat \<Rightarrow> network_config \<Rightarrow>
     exchange_config \<Rightarrow> ('n, 'd list, exchange_error) comp" where
  "exchange_all_connect fuel t j dat self_node remote_ranks network c =
     bind_s
       (connect_ranks fuel t j dat (rankid self_node) remote_ranks network c
          [fst remote_ranks..<snd remote_ranks] [])
       (\<lambda>received. lift_s (take_ranks [fst remote_ranks..<snd remote_ranks] received))"

section \<open>The whole exchange\<close>

definition exchange_all ::
  "nat \<Rightarrow> ('n, 'd) tokio \<Rightarrow> 'd serde_json \<Rightarrow> nat \<Rightarrow> network_config \<Rightarrow> 'd \<Rightarrow> exchange_config \<Rightarrow>
     ('n, 'd list, exchange_error) comp" where
  "exchange_all fuel t j rank network dat c =
     bind_s (lift_s (ok_or (InvalidRank rank) (config_get network rank))) (\<lambda>self_node.
     let lower_ranks = (0, rankid self_node);
         greater_ranks = (rankid self_node + 1, world_size network)
     in
     bind_s (exchange_all_serve fuel t j dat self_node lower_ranks) (\<lambda>lower_nodes_data.
     bind_s (exchange_all_connect fuel t j dat self_node greater_ranks network c)
       (\<lambda>greater_nodes_data.
          ret_s (lower_nodes_data @ [dat] @ greater_nodes_data))))"

definition await_exchange_all ::
  "nat \<Rightarrow> ('n, 'd) tokio \<Rightarrow> 'd serde_json \<Rightarrow> nat \<Rightarrow> network_config \<Rightarrow> 'd \<Rightarrow> exchange_config \<Rightarrow>
     ('n, 'd list, exchange_error) comp" where
  "await_exchange_all fuel t j rank network dat c =
     bind_s (map_err_s ExchangeIo (tk_build t)) (\<lambda>_ n.
       (case tk_timeout t (exchange_timeout c) (exchange_all fuel t j rank network dat c) n of
          (Some r, n') \<Rightarrow> (r, n')
        | (None, n') \<Rightarrow> (Err ExchangeTimeout, n')))"

end
