(* ===== verification/Exchanger_Lemmas.thy ===== *)
theory Exchanger_Lemmas
  imports Exchanger
begin

text \<open>
  What the exchange guarantees: frames are read back as they were written, the map of received data
  stays within its range and covers it when the server loop ends, and the data of a rank comes from
  a message of that rank.
\<close>

section \<open>The map of received data\<close>

definition received_ok :: "nat \<times> nat \<Rightarrow> 'd hash_map \<Rightarrow> bool" where
  "received_ok r m \<longleftrightarrow> distinct (map fst m) \<and> fst ` set m \<subseteq> {fst r..<snd r}"

text \<open>
  Every entry came from a message of its rank; \<open>Q\<close> is what is known of the messages that are read, at
  the least that they were decoded from bytes.
\<close>

definition tagged :: "(nat \<Rightarrow> 'd \<Rightarrow> bool) \<Rightarrow> 'd hash_map \<Rightarrow> bool" where
  "tagged Q m \<longleftrightarrow> (\<forall>k d. map_of m k = Some d \<longrightarrow> Q k d)"

definition reads_only :: "('n, 'd) tokio \<Rightarrow> 'd serde_json \<Rightarrow> (nat \<Rightarrow> 'd \<Rightarrow> bool) \<Rightarrow> bool" where
  "reads_only t j Q \<longleftrightarrow> (\<forall>s n e n'. read_stream t j s n = (Ok e, n') \<longrightarrow> Q (em_rank e) (em_data e))"

definition decoded :: "'d serde_json \<Rightarrow> nat \<Rightarrow> 'd \<Rightarrow> bool" where
  "decoded j k d \<longleftrightarrow> (\<exists>bs. sj_from_slice j bs = Ok \<lparr>em_rank = k, em_data = d\<rparr>)"

lemma reads_decoded: "reads_only t j (decoded j)"
  by (auto simp: reads_only_def decoded_def read_stream_def bind_s_eq_Ok lift_s_def)
    (metis exchange_message.surjective old.unit.exhaust)

lemma received_ok_Nil [simp]: "received_ok r []"
  by (simp add: received_ok_def)

lemma tagged_Nil [simp]: "tagged Q []"
  by (simp add: tagged_def)

lemma insert_keeps_ok: "received_ok r m \<Longrightarrow> received_ok r (snd (insert_if_valid e m r))"
  by (simp add: received_ok_def insert_if_valid_def in_range_def distinct_update dom_update)

lemma insert_keeps_tagged:
  "tagged Q m \<Longrightarrow> Q (em_rank e) (em_data e) \<Longrightarrow> tagged Q (snd (insert_if_valid e m r))"
  by (auto simp: tagged_def insert_if_valid_def update_conv' split: if_splits)

lemma keys_in_range: "received_ok r m \<Longrightarrow> fst ` set m \<subseteq> {fst r..<snd r}"
  by (simp add: received_ok_def)

lemma card_keys: "received_ok r m \<Longrightarrow> card (fst ` set m) = length m"
  by (metis distinct_card length_map list.set_map received_ok_def)

lemma length_le_range: "received_ok r m \<Longrightarrow> length m \<le> range_len r"
  using card_mono [OF _ keys_in_range [of r m]] by (simp add: card_keys range_len_def)

text \<open>Enough entries cover the range: the \<open>expect\<close> of the server never panics.\<close>

lemma full_map_covers:
  assumes "received_ok r m" "range_len r \<le> length m"
  shows "fst ` set m = {fst r..<snd r}"
proof (rule card_subset_eq)
  show "card (fst ` set m) = card {fst r..<snd r}"
    using assms length_le_range [OF assms(1)] by (simp add: card_keys range_len_def)
qed (use keys_in_range [OF assms(1)] in simp_all)

lemma take_ranks_cases:
  assumes "distinct ranks"
  shows "take_ranks ranks m =
     (if set ranks \<subseteq> fst ` set m then Ok (map (\<lambda>r. the (map_of m r)) ranks) else Panic)"
  using assms
proof (induction ranks arbitrary: m)
  case Nil
  then show ?case by simp
next
  case (Cons r ranks)
  show ?case
  proof (cases "map_of m r")
    case None
    moreover from this have "r \<notin> fst ` set m" by (simp add: map_of_eq_None_iff)
    ultimately show ?thesis by simp
  next
    case (Some d)
    have keys: "fst ` set (AList.delete r m) = fst ` set m - {r}"
      by (metis AList.delete_keys List.set_map removeAll_filter_not_eq set_removeAll)
    have same: "map (\<lambda>x. the (map_of (AList.delete r m) x)) ranks = map (\<lambda>x. the (map_of m x)) ranks"
      using Cons.prems by (auto simp: delete_conv')
    have r: "r \<in> fst ` set m" using Some by (metis map_of_eq_None_iff option.distinct(1))
    have sub: "set ranks \<subseteq> fst ` set m - {r} \<longleftrightarrow> set (r # ranks) \<subseteq> fst ` set m"
      using r Cons.prems by auto
    show ?thesis
      unfolding take_ranks.simps Some option.case Cons.IH [OF distinct.simps(2) [THEN iffD1, OF Cons.prems, THEN conjunct2]]
        keys same sub by (simp add: Some)
  qed
qed

section \<open>Computations that do not panic\<close>

definition panic_free :: "('s, 'a, 'e) comp \<Rightarrow> bool" where
  "panic_free m \<longleftrightarrow> (\<forall>s s'. m s \<noteq> (Panic, s'))"

lemma panic_free_ret [intro]: "panic_free (ret_s a)"
  by (simp add: panic_free_def ret_s_def)

lemma panic_free_lift: "panic_free (lift_s r) \<longleftrightarrow> r \<noteq> Panic"
  by (simp add: panic_free_def lift_s_def)

lemma panic_free_map_err [intro]: "panic_free m \<Longrightarrow> panic_free (map_err_s f m)"
  by (auto simp: panic_free_def map_err_s_def map_err_def split: prod.splits outcome.splits)

lemma panic_free_bind [intro]:
  assumes "panic_free m" "\<And>a. panic_free (k a)"
  shows "panic_free (bind_s m k)"
  using assms unfolding panic_free_def bind_s_def
  by (auto split: prod.splits outcome.splits)

text \<open>The crates report failures as values.\<close>

definition crates_panic_free :: "('n, 'd) tokio \<Rightarrow> 'd serde_json \<Rightarrow> bool" where
  "crates_panic_free t j \<longleftrightarrow>
     (\<forall>h p. panic_free (tk_bind t h p)) \<and> (\<forall>l. panic_free (tk_accept t l)) \<and>
     (\<forall>h p. panic_free (tk_connect t h p)) \<and> (\<forall>s k. panic_free (tk_read_exact t s k)) \<and>
     (\<forall>s bs. panic_free (tk_write_all t s bs)) \<and>
     (\<forall>m. sj_to_vec j m \<noteq> Panic) \<and> (\<forall>bs. sj_from_slice j bs \<noteq> Panic)"

lemma map_err_Panic [simp]: "map_err f r = Panic \<longleftrightarrow> r = Panic"
  by (cases r) simp_all

lemma stream_panic_free:
  assumes "crates_panic_free t j"
  shows "panic_free (write_stream t j rank dat s)" "panic_free (read_stream t j s)"
  using assms unfolding write_stream_def read_stream_def crates_panic_free_def
  by (auto intro!: panic_free_bind panic_free_map_err simp: panic_free_lift)

lemma exchange_panic_free:
  assumes "crates_panic_free t j"
  shows "panic_free (exchange_serve t j dat rank r s m)"
    and "panic_free (exchange_connect t j dat rank r s m)"
  unfolding exchange_serve_def exchange_connect_def Let_def
  by (intro panic_free_bind stream_panic_free [OF assms] panic_free_ret)+

section \<open>The loops\<close>

lemma exchange_Ok:
  assumes "reads_only t j Q"
  shows "exchange_serve t j dat rank r s m n = (Ok m', n') \<Longrightarrow>
           \<exists>e. Q (em_rank e) (em_data e) \<and> m' = snd (insert_if_valid e m r)"
    and "exchange_connect t j dat rank r s m n = (Ok m', n') \<Longrightarrow>
           \<exists>e. Q (em_rank e) (em_data e) \<and> m' = snd (insert_if_valid e m r)"
  using assms
  by (force simp: exchange_serve_def exchange_connect_def bind_s_eq_Ok ret_s_def Let_def reads_only_def)+

lemma exchange_keeps:
  assumes "Q (em_rank e) (em_data e)" "received_ok r m" "tagged Q m"
  shows "received_ok r (snd (insert_if_valid e m r)) \<and> tagged Q (snd (insert_if_valid e m r))"
  using assms insert_keeps_ok insert_keeps_tagged by blast

lemma serve_loop_Ok:
  assumes "serve_loop fuel t j dat rank r l m n = (Ok m', n')" "received_ok r m" "tagged Q m"
    and reads: "reads_only t j Q"
  shows "received_ok r m' \<and> tagged Q m' \<and> range_len r \<le> length m'"
  using assms(1-3)
proof (induction fuel arbitrary: m n)
  case 0
  then show ?case by (auto split: if_splits)
next
  case (Suc fuel)
  show ?case
  proof (cases "length m < range_len r")
    case True
    with Suc.prems(1) obtain s n1 m1 n2 where
      x: "exchange_serve t j dat rank r s m n1 = (Ok m1, n2)" and
      l: "serve_loop fuel t j dat rank r l m1 n2 = (Ok m', n')"
      by (auto simp: bind_s_eq_Ok)
    from exchange_Ok(1) [OF reads x] exchange_keeps Suc.prems(2,3)
    have "received_ok r m1 \<and> tagged Q m1" by metis
    with Suc.IH [OF l] show ?thesis by blast
  qed (use Suc.prems in auto)
qed

lemma serve_loop_panic_free:
  assumes "crates_panic_free t j"
  shows "panic_free (serve_loop fuel t j dat rank r l m)"
proof (induction fuel arbitrary: m)
  case 0
  then show ?case by (simp add: panic_free_def)
next
  case (Suc fuel)
  let ?go = "bind_s (map_err_s ExchangeIo (tk_accept t l)) (\<lambda>stream.
      bind_s (exchange_serve t j dat rank r stream m) (\<lambda>m'. serve_loop fuel t j dat rank r l m'))"
  have "panic_free ?go"
    using assms Suc exchange_panic_free(1) [OF assms]
    by (intro panic_free_bind panic_free_map_err) (simp_all add: crates_panic_free_def)
  then show ?case by (simp add: panic_free_def)
qed

lemma connect_loop_panic_free:
  assumes "crates_panic_free t j"
  shows "panic_free (connect_loop fuel t c node)"
proof -
  have p: "tk_connect t h p n \<noteq> (Panic, n')" for h p n n'
    using assms by (simp add: crates_panic_free_def panic_free_def)
  have "connect_loop fuel t c node n \<noteq> (Panic, n')" for n n'
  proof (induction fuel arbitrary: n)
    case (Suc fuel)
    with p show ?case by (simp split: prod.splits outcome.splits)
  qed simp
  then show ?thesis by (simp add: panic_free_def)
qed

lemma connect_ranks_Ok:
  assumes "connect_ranks fuel t j dat rank r net c rs m n = (Ok m', n')" "received_ok r m" "tagged Q m"
    and reads: "reads_only t j Q"
  shows "received_ok r m' \<and> tagged Q m'"
  using assms(1-3)
proof (induction rs arbitrary: m n)
  case Nil
  then show ?case by (simp add: ret_s_def)
next
  case (Cons k rs)
  from Cons.prems(1) obtain s n1 m1 n2 where
    x: "exchange_connect t j dat rank r s m n1 = (Ok m1, n2)" and
    l: "connect_ranks fuel t j dat rank r net c rs m1 n2 = (Ok m', n')"
    by (auto simp: bind_s_eq_Ok)
  from exchange_Ok(2) [OF reads x] exchange_keeps Cons.prems(2,3)
  have "received_ok r m1 \<and> tagged Q m1" by metis
  with Cons.IH [OF l] show ?case by blast
qed

lemma connect_ranks_panic_free:
  assumes "crates_panic_free t j"
  shows "panic_free (connect_ranks fuel t j dat rank r net c rs m)"
proof (induction rs arbitrary: m)
  case Nil
  then show ?case by (simp add: panic_free_ret)
next
  case (Cons k rs)
  have "ok_or (InvalidRank k) x \<noteq> Panic" for x :: "node_config option" by (cases x) simp_all
  then show ?case
    unfolding connect_ranks.simps
    by (intro panic_free_bind connect_loop_panic_free [OF assms] exchange_panic_free(2) [OF assms] Cons.IH)
      (simp add: panic_free_lift)
qed

section \<open>Results\<close>

text \<open>The data in the order of the ranks, once the map covers the range.\<close>

lemma take_range:
  assumes "received_ok r m" "tagged Q m"
  shows "take_ranks [fst r..<snd r] m =
           (if fst ` set m = {fst r..<snd r}
            then Ok (map (\<lambda>k. the (map_of m k)) [fst r..<snd r]) else Panic)"
    and "fst ` set m = {fst r..<snd r} \<Longrightarrow> k \<in> {fst r..<snd r} \<Longrightarrow>
           Q k (the (map_of m k))"
proof -
  show "take_ranks [fst r..<snd r] m =
           (if fst ` set m = {fst r..<snd r}
            then Ok (map (\<lambda>k. the (map_of m k)) [fst r..<snd r]) else Panic)"
    using keys_in_range [OF assms(1)] by (simp add: take_ranks_cases set_eq_subset)
  assume "fst ` set m = {fst r..<snd r}" "k \<in> {fst r..<snd r}"
  then obtain d where "map_of m k = Some d" by (metis map_of_eq_None_iff not_None_eq)
  with assms(2) show "Q k (the (map_of m k))"
    by (auto simp: tagged_def)
qed

definition tagged_from :: "(nat \<Rightarrow> 'd \<Rightarrow> bool) \<Rightarrow> nat \<Rightarrow> 'd list \<Rightarrow> bool" where
  "tagged_from Q lo xs \<longleftrightarrow> (\<forall>i < length xs. Q (lo + i) (xs ! i))"

lemma covered_tagged:
  assumes "received_ok r m" "tagged Q m" "fst ` set m = {fst r..<snd r}"
  shows "tagged_from Q (fst r) (map (\<lambda>k. the (map_of m k)) [fst r..<snd r])"
  using take_range(2) [OF assms] by (simp add: tagged_from_def)

lemma exchange_all_serve_Ok:
  assumes "exchange_all_serve fuel t j dat node r n = (Ok xs, n')" "reads_only t j Q"
  shows "length xs = range_len r \<and> tagged_from Q (fst r) xs"
proof -
  from assms obtain l n1 m n2 where
    l: "serve_loop fuel t j dat (rankid node) r l [] n1 = (Ok m, n2)" and
    x: "take_ranks [fst r..<snd r] m = Ok xs"
    by (auto simp: exchange_all_serve_def bind_s_eq_Ok lift_s_def)
  from serve_loop_Ok [OF l _ _ assms(2)] have ok: "received_ok r m" "tagged Q m" "range_len r \<le> length m" by simp_all
  note full = full_map_covers [OF ok(1,3)]
  with x take_range(1) [OF ok(1,2)] covered_tagged [OF ok(1,2) full] show ?thesis
    by (auto simp: range_len_def)
qed

lemma exchange_all_serve_panic_free:
  assumes "crates_panic_free t j"
  shows "panic_free (exchange_all_serve fuel t j dat node r)"
proof -
  have "exchange_all_serve fuel t j dat node r n \<noteq> (Panic, n')" for n n'
  proof
    assume x: "exchange_all_serve fuel t j dat node r n = (Panic, n')"
    obtain b n1 where b: "tk_bind t (hostname node) (port node) n = (b, n1)" by (metis prod.exhaust)
    have nb: "b \<noteq> Panic" using assms b by (auto simp: crates_panic_free_def panic_free_def)
    from x b nb obtain l where l: "b = Ok l"
      by (cases b) (auto simp: exchange_all_serve_def bind_s_def map_err_s_def)
    obtain c n2 where c: "serve_loop fuel t j dat (rankid node) r l [] n1 = (c, n2)"
      by (metis prod.exhaust)
    have "c \<noteq> Panic"
      using serve_loop_panic_free [OF assms] c unfolding panic_free_def by metis
    with x b l c obtain m where m: "c = Ok m" and p: "take_ranks [fst r..<snd r] m = Panic"
      by (cases c) (auto simp: exchange_all_serve_def bind_s_def map_err_s_def lift_s_def)
    from serve_loop_Ok [OF c [unfolded m] _ _ reads_decoded]
    have ok: "received_ok r m" "tagged (decoded j) m" "range_len r \<le> length m" by simp_all
    from full_map_covers [OF ok(1,3)] take_range(1) [OF ok(1,2)] p show False by simp
  qed
  then show ?thesis by (simp add: panic_free_def)
qed

lemma exchange_all_connect_Ok:
  assumes "exchange_all_connect fuel t j dat node r net c n = (Ok xs, n')" "reads_only t j Q"
  shows "length xs = range_len r \<and> tagged_from Q (fst r) xs"
proof -
  from assms obtain m n1 where
    m: "connect_ranks fuel t j dat (rankid node) r net c [fst r..<snd r] [] n = (Ok m, n1)" and
    x: "take_ranks [fst r..<snd r] m = Ok xs"
    by (auto simp: exchange_all_connect_def bind_s_eq_Ok lift_s_def)
  from connect_ranks_Ok [OF m _ _ assms(2)] have ok: "received_ok r m" "tagged Q m" by simp_all
  show ?thesis
  proof (cases "fst ` set m = {fst r..<snd r}")
    case True
    with x take_range(1) [OF ok] covered_tagged [OF ok True] show ?thesis by (auto simp: range_len_def)
  next
    case False
    with x take_range(1) [OF ok] show ?thesis by simp
  qed
qed

text \<open>Connecting panics exactly when the sessions succeeded and a rank is missing.\<close>

lemma exchange_all_connect_Panic:
  assumes "crates_panic_free t j" "exchange_all_connect fuel t j dat node r net c n = (x, n')"
  shows "x = Panic \<longleftrightarrow>
           (\<exists>m n1. connect_ranks fuel t j dat (rankid node) r net c [fst r..<snd r] [] n = (Ok m, n1) \<and>
                fst ` set m \<subset> {fst r..<snd r})"
proof -
  obtain y n1 where y: "connect_ranks fuel t j dat (rankid node) r net c [fst r..<snd r] [] n = (y, n1)"
    by (metis prod.exhaust)
  have "y \<noteq> Panic" using connect_ranks_panic_free [OF assms(1)] y unfolding panic_free_def by metis
  show ?thesis
  proof (cases y)
    case (Ok m)
    from connect_ranks_Ok [OF y [unfolded Ok] _ _ reads_decoded]
    have ok: "received_ok r m" "tagged (decoded j) m" by simp_all
    have x: "x = take_ranks [fst r..<snd r] m"
      using assms(2) y Ok by (simp add: exchange_all_connect_def bind_s_def lift_s_def)
    with y Ok take_range(1) [OF ok] keys_in_range [OF ok(1)] show ?thesis by auto
  qed (use assms(2) y \<open>y \<noteq> Panic\<close> in \<open>auto simp: exchange_all_connect_def bind_s_def\<close>)
qed

lemma exchange_all_Ok:
  assumes "exchange_all fuel t j rank net dat c n = (Ok xs, n')" "reads_only t j Q"
    and "\<forall>i < length net. rankid (net ! i) = i"
  shows "rank < world_size net \<and> length xs = world_size net \<and> xs ! rank = dat \<and>
         (\<forall>i < world_size net. i \<noteq> rank \<longrightarrow> Q i (xs ! i))"
proof -
  let ?w = "world_size net"
  have w: "?w = length net" by (simp add: world_size_def)
  from assms(1) have r: "rank < length net"
    by (auto simp: exchange_all_def bind_s_eq_Ok lift_s_def ok_or_def config_get_def split: if_splits)
  then have id: "rankid (net ! rank) = rank" using assms(3) by simp
  from assms(1) r id obtain lo n1 hi where
    lo: "exchange_all_serve fuel t j dat (net ! rank) (0, rank) n = (Ok lo, n1)" and
    hi: "exchange_all_connect fuel t j dat (net ! rank) (rank + 1, ?w) net c n1 = (Ok hi, n')" and
    xs: "xs = lo @ [dat] @ hi"
    by (auto simp: exchange_all_def bind_s_eq_Ok lift_s_def ok_or_def config_get_def ret_s_def)
  from exchange_all_serve_Ok [OF lo assms(2)] have l: "length lo = rank" "tagged_from Q 0 lo"
    by (simp_all add: range_len_def)
  from exchange_all_connect_Ok [OF hi assms(2)] have h: "length hi = ?w - (rank + 1)"
    "tagged_from Q (rank + 1) hi"
    by (simp_all add: range_len_def)
  have "Q i (xs ! i)" if "i < ?w" "i \<noteq> rank" for i
  proof (cases "i < rank")
    case True
    with l show ?thesis by (simp add: tagged_from_def xs nth_append)
  next
    case False
    with that obtain k where k: "i = Suc (rank + k)" by (metis less_natE linorder_neqE_nat)
    with that h show ?thesis by (auto simp: tagged_from_def xs nth_append l)
  qed
  with l(1) h(1) r w show ?thesis by (simp add: xs nth_append)
qed

text \<open>When the peers are honest about the data of a rank, the result is the data of all ranks.\<close>

lemma exchange_all_honest:
  assumes "exchange_all fuel t j rank net (d rank) c n = (Ok xs, n')"
    and "reads_only t j (\<lambda>k x. x = d k)" "\<forall>i < length net. rankid (net ! i) = i"
  shows "xs = map d [0..<world_size net]"
proof -
  note x = exchange_all_Ok [OF assms]
  then have "\<forall>i < world_size net. xs ! i = d i" by metis
  with x show ?thesis by (intro nth_equalityI) simp_all
qed

end
