(* ===== verification/Scope_View.thy ===== *)
theory Scope_View
  imports Multi_Channel
begin

text \<open>
  A polling scope is opened on a channel, on a multi-channel or on a node, and its operations reach a
  channel inside.  The locale states what lets a scope of the container be read as a scope of the
  part it works on; it is interpreted on the channel of a peer of a multi-channel here, and on the
  multi-channel of a node in \<open>Node_Lemmas\<close>.
\<close>

text \<open>
  \<open>get\<close> and \<open>put\<close> read and replace a part of a container, lawfully where \<open>ok\<close> holds.
\<close>

locale scope_view =
  fixes get :: "'c \<Rightarrow> 'd"
    and put :: "'d \<Rightarrow> 'c \<Rightarrow> 'c"
    and ok :: "'c \<Rightarrow> bool"
  assumes get_put: "ok c \<Longrightarrow> get (put d c) = d"
    and put_put: "put d (put d' c) = put d c"
    and put_get: "ok c \<Longrightarrow> put (get c) c = c"
    and ok_put: "ok c \<Longrightarrow> ok (put d c)"
begin

definition view :: "('c, 'h) scope \<Rightarrow> ('d, 'h) scope" where
  "view sc = \<lparr>sc_inner = get (sc_inner sc), sc_wrs = sc_wrs sc, sc_world = sc_world sc\<rparr>"

definition write_back :: "('d, 'h) scope \<Rightarrow> ('c, 'h) scope \<Rightarrow> ('c, 'h) scope" where
  "write_back sd sc =
     \<lparr>sc_inner = put (sc_inner sd) (sc_inner sc), sc_wrs = sc_wrs sd, sc_world = sc_world sd\<rparr>"

text \<open>\<open>f\<close> on the container is \<open>g\<close> on the part.\<close>

definition mirrors :: "(('c, 'h) scope, 'a, 'e) comp \<Rightarrow> (('d, 'h) scope, 'a, 'e) comp \<Rightarrow> bool" where
  "mirrors f g \<longleftrightarrow>
     (\<forall>sc. ok (sc_inner sc) \<longrightarrow> f sc = (case g (view sc) of (r, sd) \<Rightarrow> (r, write_back sd sc)))"

lemma mirrorsI:
  "(\<And>sc. ok (sc_inner sc) \<Longrightarrow> f sc = (case g (view sc) of (r, sd) \<Rightarrow> (r, write_back sd sc))) \<Longrightarrow>
     mirrors f g"
  by (simp add: mirrors_def)

lemma mirrorsD:
  "mirrors f g \<Longrightarrow> ok (sc_inner sc) \<Longrightarrow> g (view sc) = (r, sd) \<Longrightarrow> f sc = (r, write_back sd sc)"
  by (simp add: mirrors_def)

lemma view_back: "ok (sc_inner sc) \<Longrightarrow> view (write_back sd sc) = sd"
  by (simp add: view_def write_back_def get_put)

lemma back_back: "write_back sd (write_back sd' sc) = write_back sd sc"
  by (simp add: write_back_def put_put)

lemma back_view: "ok (sc_inner sc) \<Longrightarrow> write_back (view sc) sc = sc"
  by (simp add: view_def write_back_def put_get)

lemma ok_back: "ok (sc_inner sc) \<Longrightarrow> ok (sc_inner (write_back sd sc))"
  by (simp add: write_back_def ok_put)

lemma mirrors_ret: "mirrors (ret_s a) (ret_s a)"
  by (rule mirrorsI) (simp add: ret_s_def back_view)

lemma mirrors_bind:
  fixes f :: "(('c, 'h) scope, 'a, 'e) comp" and g :: "(('d, 'h) scope, 'a, 'e) comp"
  assumes "mirrors f g" "\<And>a. mirrors (f' a) (g' a)"
  shows "mirrors (bind_s f f') (bind_s g g')"
proof (rule mirrorsI)
  fix sc :: "('c, 'h) scope"
  assume ok: "ok (sc_inner sc)"
  obtain x sd where g: "g (view sc) = (x, sd)" by (metis prod.exhaust)
  note f = mirrorsD [OF assms(1) ok g]
  show "bind_s f f' sc = (case bind_s g g' (view sc) of (r, sd) \<Rightarrow> (r, write_back sd sc))"
  proof (cases x)
    case (Ok a)
    obtain y sd' where g': "g' a sd = (y, sd')" by (metis prod.exhaust)
    from mirrorsD [OF assms(2) ok_back [OF ok], of a sd y sd'] g' ok
    have "f' a (write_back sd sc) = (y, write_back sd' sc)" by (simp add: view_back back_back)
    with f g g' Ok show ?thesis by (simp add: bind_s_def)
  qed (use f g in \<open>simp_all add: bind_s_def\<close>)
qed

lemma mirrors_collect:
  assumes "\<And>x. mirrors (f x) (g x)"
  shows "mirrors (collect_s f xs) (collect_s g xs)"
proof (induction xs)
  case Nil
  show ?case by (simp add: mirrors_ret)
next
  case (Cons x xs)
  then show ?case by (simp add: mirrors_bind mirrors_ret assms)
qed

lemma mirrors_map_err: "mirrors f g \<Longrightarrow> mirrors (map_err_s e f) (map_err_s e g)"
  by (rule mirrorsI) (simp add: mirrors_def map_err_s_def split: prod.splits)

lemma put_work_back:
  "ok (sc_inner sc) \<Longrightarrow> put_work i b s sc = write_back (put_work i b s (view sc)) sc"
  by (simp add: put_work_def view_def write_back_def put_get split: prod.splits)

lemma mirrors_spin_poll:
  fixes v :: "'h verbs"
  shows "mirrors (scoped_spin_poll fuel v i) (scoped_spin_poll fuel v i)"
proof (rule mirrorsI)
  fix sc :: "('c, 'h) scope"
  assume ok: "ok (sc_inner sc)"
  have w: "sc_wrs (view sc) = sc_wrs sc" "sc_world (view sc) = sc_world sc"
    by (simp_all add: view_def)
  show "scoped_spin_poll fuel v i sc =
      (case scoped_spin_poll fuel v i (view sc) of (r, sd) \<Rightarrow> (r, write_back sd sc))"
    using put_work_back [OF ok] ok
    by (auto simp: scoped_spin_poll_def w Let_def back_view split: prod.splits outcome.splits)
qed

lemma mirrors_post:
  fixes op :: "(channel \<times> 'h world, pending_work, ibv_error) comp"
  assumes get: "\<And>c. ok c \<Longrightarrow> sel_get sel c = sel_get sel' (get c)"
    and put: "\<And>c ch. ok c \<Longrightarrow> sel_put sel ch c = put (sel_put sel' ch (get c)) c"
  shows "mirrors (channel_post sel op) (channel_post sel' op)"
proof (rule mirrorsI)
  fix sc :: "('c, 'h) scope"
  assume ok: "ok (sc_inner sc)"
  have w: "sc_wrs (view sc) = sc_wrs sc" "sc_world (view sc) = sc_world sc"
    "sc_inner (view sc) = get (sc_inner sc)"
    by (simp_all add: view_def)
  show "channel_post sel op sc = (case channel_post sel' op (view sc) of (r, sd) \<Rightarrow> (r, write_back sd sc))"
    using back_view [OF ok] get [OF ok] put [OF ok]
    by (simp add: channel_post_def w Let_def split: prod.splits outcome.splits)
      (simp add: write_back_def view_def)
qed

lemma mirrors_auto_poll:
  assumes "ok (sc_inner sc)"
  shows "auto_poll fuel v sc = (case auto_poll fuel v (view sc) of (r, sd) \<Rightarrow> (r, write_back sd sc))"
  using assms by (simp add: auto_poll_def view_def write_back_def put_get split: prod.splits)

lemma mirrors_run_manual:
  fixes f :: "(('c, 'h) scope, 'a, 'e) comp" and g :: "(('d, 'h) scope, 'a, 'e) comp"
  assumes "mirrors f g"
  shows "mirrors (scope_run_manual fuel v f) (scope_run_manual fuel v g)"
proof (rule mirrorsI)
  fix sc :: "('c, 'h) scope"
  assume ok: "ok (sc_inner sc)"
  obtain x sd where g: "g (view sc) = (x, sd)" by (metis prod.exhaust)
  note f = mirrorsD [OF assms ok g]
  obtain y sd' where p: "auto_poll fuel v sd = (y, sd')" by (metis prod.exhaust)
  have p': "auto_poll fuel v (write_back sd sc) = (y, write_back sd' sc)"
    using mirrors_auto_poll [OF ok_back [OF ok], of fuel v sd] p
    by (simp add: view_back [OF ok] back_back)
  show "scope_run_manual fuel v f sc =
      (case scope_run_manual fuel v g (view sc) of (r, sd) \<Rightarrow> (r, write_back sd sc))"
    using f g p p' by (cases x; cases y) (simp_all add: scope_run_manual_def)
qed

lemma manual_scope_view:
  assumes "mirrors f g" "ok c"
  shows "run_manual_scope fuel v f (c, w) =
           (case run_manual_scope fuel v g (get c, w) of (r, (d, w')) \<Rightarrow> (r, (put d c, w')))"
proof -
  have n: "view (scope_new c w) = scope_new (get c) w" "ok (sc_inner (scope_new c w))"
    using assms(2) by (simp_all add: view_def scope_new_def)
  obtain r sd where g: "scope_run_manual fuel v g (scope_new (get c) w) = (r, sd)"
    by (metis prod.exhaust)
  from mirrorsD [OF mirrors_run_manual [OF assms(1)] n(2), unfolded n(1), OF g]
  show ?thesis
    by (simp add: run_manual_scope_def with_scope_def g) (simp add: write_back_def scope_new_def)
qed

end

text \<open>The channel of a peer that exists, seen from the multi-channel.\<close>

interpretation peer_view: scope_view "\<lambda>m. mc_channels m ! peer" "mc_set_channel peer"
  "\<lambda>m. peer < mc_num_channels m" for peer
  by unfold_locales (simp_all add: mc_set_channel_def mc_num_channels_def)

text \<open>
  Posting to a peer in a scope of the multi-channel and waiting for the work is the blocking operation
  on the peer, so \<open>MultiChannel::send\<close> and its like could as well be written over a scope.
\<close>

lemma peer_post_mirrors:
  "peer_view.mirrors peer (channel_post (mc_selector peer) op) (channel_post self_selector op)"
  by (rule peer_view.mirrors_post)
    (simp_all add: mc_selector_def self_selector_def mc_channel_def mc_num_channels_def)

lemma post_and_spin_at_peer:
  assumes "peer < mc_num_channels m"
  shows "post_and_spin fuel v (map_err_s TIbv (channel_post (mc_selector peer) op)) (m, w) =
           at_channel TIbv peer
             (post_and_spin fuel v (map_err_s TIbv (channel_post self_selector op))) (m, w)"
proof -
  let ?f = "\<lambda>sel. bind_s (map_err_s TIbv (channel_post sel op)) (\<lambda>i. scoped_spin_poll fuel v i)"
  have "peer_view.mirrors peer (?f (mc_selector peer)) (?f self_selector)"
    by (intro peer_view.mirrors_bind peer_view.mirrors_map_err peer_post_mirrors
        peer_view.mirrors_spin_poll)
  from peer_view.manual_scope_view [OF this assms, of fuel v w] assms show ?thesis
    by (simp add: post_and_spin_def at_channel_in_range)
qed

end
