(* ===== verification/Node_Lemmas.thy ===== *)
theory Node_Lemmas
  imports Node Scope_View
begin

text \<open>
  What a node can rely on: which collections of endpoints \<open>gather_endpoints\<close> accepts and which error
  the others get, how the nodes of a world are wired together, that the barrier of a node that came
  up is well formed, and that a scope of a node is a scope of its multi-channel.
\<close>

section \<open>Collecting endpoints\<close>

text \<open>The endpoint of another node that is meant for \<open>p\<close>.\<close>

definition entry_for :: "prepared_node \<Rightarrow> local_endpoint \<Rightarrow> network_channel_endpoint" where
  "entry_for p e = le_endpoints e ! pn_rank p"

text \<open>The slots after the endpoints of \<open>ds\<close>, the latest first.\<close>

definition slots :: "prepared_node \<Rightarrow> local_endpoint list \<Rightarrow> network_channel_endpoint option list" where
  "slots p ds = map (map_of (map (\<lambda>e. (le_rank e, entry_for p e)) ds)) [0..<pn_world_size p]"

text \<open>Why the endpoint \<open>e\<close> is refused when the ranks \<open>R\<close> have been received.\<close>

definition refusal :: "prepared_node \<Rightarrow> nat set \<Rightarrow> local_endpoint \<Rightarrow> io_error option" where
  "refusal p R e =
     (if pn_world_size p \<le> le_rank e then Some (rank_out_of_bounds (le_rank e) (pn_world_size p))
      else if le_rank e \<in> R then Some (duplicate_endpoint (le_rank e))
      else if length (le_endpoints e) \<le> pn_rank p
        then Some (missing_rechannel (le_rank e) (pn_rank p))
      else None)"

definition accepted :: "prepared_node \<Rightarrow> local_endpoint list \<Rightarrow> bool" where
  "accepted p es \<longleftrightarrow>
     distinct (map le_rank es) \<and>
     (\<forall>e \<in> set es. le_rank e < pn_world_size p \<and> pn_rank p < length (le_endpoints e))"

lemma slots_Nil: "slots p [] = replicate (pn_world_size p) None"
  by (simp add: slots_def map_replicate_const)

lemma length_slots [simp]: "length (slots p ds) = pn_world_size p"
  by (simp add: slots_def)

lemma nth_slots [simp]:
  "r < pn_world_size p \<Longrightarrow> slots p ds ! r = map_of (map (\<lambda>e. (le_rank e, entry_for p e)) ds) r"
  by (simp add: slots_def)

lemma slot_None_iff:
  "map_of (map (\<lambda>e. (le_rank e, entry_for p e)) ds) r = None \<longleftrightarrow> r \<notin> le_rank ` set ds"
  by (simp add: map_of_eq_None_iff image_image)

lemma slots_update:
  "le_rank e < pn_world_size p \<Longrightarrow> (slots p ds)[le_rank e := Some (entry_for p e)] = slots p (e # ds)"
  by (rule nth_equalityI) (auto simp: nth_list_update)

lemma fill_slot_slots:
  "fill_slot p (slots p ds) e =
     (case refusal p (le_rank ` set ds) e of None \<Rightarrow> Ok (slots p (e # ds)) | Some x \<Rightarrow> Err x)"
  using slot_None_iff [of p ds "le_rank e"]
  by (auto simp: fill_slot_def refusal_def not_less slots_update entry_for_def [symmetric])

lemma accepted_Nil [simp]: "accepted p []"
  by (simp add: accepted_def)

lemma accepted_append:
  "accepted p (ds @ [e]) \<longleftrightarrow> accepted p ds \<and> refusal p (le_rank ` set ds) e = None"
  by (auto simp: accepted_def refusal_def)

lemma fill_slots_cases:
  assumes "accepted p ds"
  shows "case fill_slots p (slots p (rev ds)) es of
           Ok tmp \<Rightarrow> accepted p (ds @ es) \<and> tmp = slots p (rev (ds @ es))
         | Err x \<Rightarrow> \<exists>pre e post. es = pre @ e # post \<and> accepted p (ds @ pre) \<and>
                      refusal p (le_rank ` set (ds @ pre)) e = Some x
         | _ \<Rightarrow> False"
  using assms
proof (induction es arbitrary: ds)
  case Nil
  then show ?case by simp
next
  case (Cons e es)
  show ?case
  proof (cases "refusal p (le_rank ` set ds) e")
    case None
    with Cons.prems have "accepted p (ds @ [e])" by (simp add: accepted_append)
    note IH = Cons.IH [OF this]
    have step: "fill_slots p (slots p (rev ds)) (e # es) = fill_slots p (slots p (rev (ds @ [e]))) es"
      using None by (simp add: fill_slot_slots)
    show ?thesis
    proof (cases "fill_slots p (slots p (rev (ds @ [e]))) es")
      case (Err x)
      with IH obtain pre e' post where es: "es = pre @ e' # post"
        "accepted p ((ds @ [e]) @ pre)" "refusal p (le_rank ` set ((ds @ [e]) @ pre)) e' = Some x"
        by auto
      then have "e # es = (e # pre) @ e' # post" "accepted p (ds @ e # pre)"
        "refusal p (le_rank ` set (ds @ e # pre)) e' = Some x" by simp_all
      then show ?thesis unfolding step Err outcome.case by blast
    qed (use IH in \<open>simp_all add: step del: fill_slots.simps\<close>)
  next
    case (Some x)
    with Cons.prems show ?thesis
      by (auto simp: fill_slot_slots intro!: exI [of _ "[]"])
  qed
qed

lemma accepted_covers:
  assumes "accepted p es"
  shows "mset (map le_rank es) = mset [0..<pn_world_size p] \<longleftrightarrow>
         (\<forall>r < pn_world_size p. r \<in> le_rank ` set es)"
proof -
  have "mset (map le_rank es) = mset [0..<pn_world_size p] \<longleftrightarrow>
        le_rank ` set es = {0..<pn_world_size p}"
    using assms set_eq_iff_mset_eq_distinct [of "map le_rank es" "[0..<pn_world_size p]"]
    by (auto simp: accepted_def)
  with assms show ?thesis by (auto simp: accepted_def)
qed

lemma slots_entry:
  assumes "accepted p es" "e \<in> set es"
  shows "map_of (map (\<lambda>e. (le_rank e, entry_for p e)) (rev es)) (le_rank e) = Some (entry_for p e)"
  using assms by (intro map_of_is_SomeI) (auto simp: accepted_def rev_map [symmetric] comp_def)

text \<open>The first missing rank, if the collection of the slots fails.\<close>

lemma collect_slots_cases:
  "case collect_outcome (\<lambda>(i, opt). ok_or (missing_endpoint i) opt) (zip [k..<k + length tmp] tmp) of
     Ok xs \<Rightarrow> tmp = map Some xs
   | Err x \<Rightarrow> \<exists>i < length tmp. tmp ! i = None \<and> (\<forall>j < i. tmp ! j \<noteq> None) \<and>
               x = missing_endpoint (k + i)
   | _ \<Rightarrow> False"
proof (induction tmp arbitrary: k)
  case Nil
  then show ?case by simp
next
  case (Cons t tmp)
  have z: "zip [k..<k + length (t # tmp)] (t # tmp) =
      (k, t) # zip [Suc k..<Suc k + length tmp] tmp"
    by (simp add: upt_rec)
  show ?case
  proof (cases t)
    case None
    then show ?thesis unfolding z by (auto intro!: exI [of _ 0])
  next
    case (Some x)
    let ?r = "collect_outcome (\<lambda>(i, opt). ok_or (missing_endpoint i) opt)
                (zip [Suc k..<Suc k + length tmp] tmp)"
    have step: "collect_outcome (\<lambda>(i, opt). ok_or (missing_endpoint i) opt)
        (zip [k..<k + length (t # tmp)] (t # tmp)) = bind_outcome ?r (\<lambda>ys. Ok (x # ys))"
      unfolding z using Some by simp
    show ?thesis
    proof (cases ?r)
      case (Ok xs)
      with Cons.IH [of "Suc k"] have "tmp = map Some xs" by simp
      then show ?thesis unfolding step Ok using Some by simp
    next
      case (Err y)
      with Cons.IH [of "Suc k"] obtain i where
        "i < length tmp" "tmp ! i = None" "\<forall>j < i. tmp ! j \<noteq> None" "y = missing_endpoint (Suc k + i)"
        by auto
      then have i: "Suc i < length (t # tmp)" "(t # tmp) ! Suc i = None"
        "\<forall>j < Suc i. (t # tmp) ! j \<noteq> None" "y = missing_endpoint (k + Suc i)"
        using Some by (auto simp: less_Suc_eq_0_disj)
      show ?thesis unfolding step Err bind_outcome_simps outcome.case by (intro exI [of _ "Suc i"] conjI i)
    qed (use Cons.IH [of "Suc k"] in simp_all)
  qed
qed

text \<open>The verdict on a collection of endpoints.\<close>

lemma gather_endpoints_filled:
  assumes "fill_slots p (replicate (pn_world_size p) None) es = Ok tmp"
  shows "accepted p es" "tmp = slots p (rev es)"
    and "i < pn_world_size p \<Longrightarrow> tmp ! i = None \<longleftrightarrow> i \<notin> le_rank ` set es"
proof -
  from assms fill_slots_cases [of p "[]" es] show a: "accepted p es" and t: "tmp = slots p (rev es)"
    by (simp_all add: slots_Nil)
  show "tmp ! i = None \<longleftrightarrow> i \<notin> le_rank ` set es" if "i < pn_world_size p"
    using slot_None_iff [of p "rev es" i] that by (simp add: t)
qed

lemma gather_endpoints_Ok:
  assumes "gather_endpoints p es = Ok r"
  shows "accepted p es" "length (re_endpoints r) = pn_world_size p"
    and "i < pn_world_size p \<Longrightarrow> i \<in> le_rank ` set es"
    and "e \<in> set es \<Longrightarrow> re_endpoints r ! le_rank e = entry_for p e"
proof -
  from assms obtain tmp xs where
    tmp: "fill_slots p (replicate (pn_world_size p) None) es = Ok tmp" and
    xs: "collect_outcome (\<lambda>(i, opt). ok_or (missing_endpoint i) opt) (zip [0..<length tmp] tmp) = Ok xs"
    "r = RemoteEndpoints xs"
    by (auto simp: gather_endpoints_def bind_outcome_eq_Ok)
  note f = gather_endpoints_filled [OF tmp]
  have some: "tmp = map Some xs" using collect_slots_cases [of tmp 0] xs(1) by simp
  show a: "accepted p es" by (rule f(1))
  show len: "length (re_endpoints r) = pn_world_size p"
    using f(2) some xs(2) by (metis length_map length_slots remote_endpoints.sel)
  have at: "tmp ! i = Some (xs ! i)" if "i < pn_world_size p" for i
    using that len xs(2) by (simp add: some)
  show "i \<in> le_rank ` set es" if "i < pn_world_size p"
    using f(3) [OF that] at [OF that] by simp
  show "re_endpoints r ! le_rank e = entry_for p e" if e: "e \<in> set es"
  proof -
    have r: "le_rank e < pn_world_size p" using a e by (simp add: accepted_def)
    from at [OF this] slots_entry [OF a e] r show ?thesis by (simp add: f(2) xs(2))
  qed
qed

lemma gather_endpoints_Err:
  assumes "gather_endpoints p es = Err x"
  shows "(\<exists>pre e post. es = pre @ e # post \<and> accepted p pre \<and>
            refusal p (le_rank ` set pre) e = Some x) \<or>
         (accepted p es \<and>
          (\<exists>i < pn_world_size p. i \<notin> le_rank ` set es \<and> (\<forall>j < i. j \<in> le_rank ` set es) \<and>
             x = missing_endpoint i))"
proof (cases "fill_slots p (replicate (pn_world_size p) None) es")
  case (Ok tmp)
  note f = gather_endpoints_filled [OF this]
  from assms Ok have "collect_outcome (\<lambda>(i, opt). ok_or (missing_endpoint i) opt)
      (zip [0..<length tmp] tmp) = Err x"
    by (cases "collect_outcome (\<lambda>(i, opt). ok_or (missing_endpoint i) opt)
      (zip [0..<length tmp] tmp)") (simp_all add: gather_endpoints_def)
  with collect_slots_cases [of tmp 0] obtain i where
    i: "i < length tmp" "tmp ! i = None" "\<forall>j < i. tmp ! j \<noteq> None" "x = missing_endpoint i" by auto
  then have "i < pn_world_size p" by (simp add: f(2))
  with i f(3) have "i \<notin> le_rank ` set es" "\<forall>j < i. j \<in> le_rank ` set es" by (metis less_trans)+
  with f(1) i(4) \<open>i < pn_world_size p\<close> show ?thesis by blast
next
  case (Err y)
  with assms fill_slots_cases [of p "[]" es] show ?thesis
    by (auto simp: slots_Nil gather_endpoints_def)
qed (use assms in \<open>simp_all add: gather_endpoints_def\<close>)

lemma gather_endpoints_returns: "gather_endpoints p es \<noteq> Panic" "gather_endpoints p es \<noteq> NoFuel"
proof -
  have "is_ok (gather_endpoints p es) \<or> (\<exists>x. gather_endpoints p es = Err x)"
  proof (cases "fill_slots p (replicate (pn_world_size p) None) es")
    case (Ok tmp)
    then show ?thesis
      using collect_slots_cases [of tmp 0]
      by (cases "collect_outcome (\<lambda>(i, opt). ok_or (missing_endpoint i) opt)
            (zip [0..<length tmp] tmp)") (simp_all add: gather_endpoints_def)
  qed (use fill_slots_cases [of p "[]" es] in \<open>simp_all add: slots_Nil gather_endpoints_def\<close>)
  then show "gather_endpoints p es \<noteq> Panic" "gather_endpoints p es \<noteq> NoFuel" by auto
qed

section \<open>Wiring\<close>

lemma gather_endpoints_complete:
  assumes "accepted p es" "\<And>i. i < pn_world_size p \<Longrightarrow> i \<in> le_rank ` set es"
  shows "\<exists>r. gather_endpoints p es = Ok r"
proof (cases "gather_endpoints p es")
  case (Err x)
  have False if "es = pre @ e # post" "refusal p (le_rank ` set pre) e = Some x" for pre e post
    using assms(1) that by (auto simp: accepted_def refusal_def split: if_splits)
  with gather_endpoints_Err [OF Err] assms(2) show ?thesis by blast
qed (use gather_endpoints_returns in simp_all)

lemma pn_endpoint_simps [simp]:
  "le_rank (pn_endpoint p) = pn_rank p"
  "length (le_endpoints (pn_endpoint p)) = length (pmc_channels (pn_multi_channel p))"
  by (simp_all add: pn_endpoint_def pmc_endpoints_def)

lemma entry_for_pn_endpoint:
  "pn_rank p < length (pmc_channels (pn_multi_channel q)) \<Longrightarrow>
     entry_for p (pn_endpoint q) =
       \<lparr>nce_qp = pch_endpoint (pmc_channels (pn_multi_channel q) ! pn_rank p),
        nce_barrier_mr = prepared_remote_mr (pn_barrier q)\<rparr>"
  by (simp add: entry_for_def pn_endpoint_def pmc_endpoints_def)

text \<open>A world of prepared nodes: node \<open>i\<close> has rank \<open>i\<close> and one channel per rank.\<close>

definition prepared_world :: "nat \<Rightarrow> (nat \<Rightarrow> prepared_node) \<Rightarrow> bool" where
  "prepared_world n P \<longleftrightarrow>
     (\<forall>i < n. pn_rank (P i) = i \<and> pn_world_size (P i) = n \<and>
        length (pmc_channels (pn_multi_channel (P i))) = n)"

lemma world_gathers:
  assumes "prepared_world n P" "mset es = mset (map (\<lambda>j. pn_endpoint (P j)) [0..<n])" "i < n"
  shows "gather_endpoints (P i) es =
           Ok (RemoteEndpoints
                 (map (\<lambda>j. \<lparr>nce_qp = pch_endpoint (pmc_channels (pn_multi_channel (P j)) ! i),
                            nce_barrier_mr = prepared_remote_mr (pn_barrier (P j))\<rparr>) [0..<n]))"
proof -
  have P: "pn_rank (P j) = j" "pn_world_size (P j) = n"
    "length (pmc_channels (pn_multi_channel (P j))) = n" if "j < n" for j
    using assms(1) that by (simp_all add: prepared_world_def)
  have es: "set es = (\<lambda>j. pn_endpoint (P j)) ` {0..<n}" using mset_eq_setD [OF assms(2)] by simp
  have "mset (map le_rank es) = mset (map (\<lambda>j. pn_rank (P j)) [0..<n])"
    using arg_cong [OF assms(2), of "image_mset le_rank"] by (simp add: mset_map [symmetric] comp_def del: mset_map)
  also have "map (\<lambda>j. pn_rank (P j)) [0..<n] = [0..<n]" by (rule nth_equalityI) (simp_all add: P)
  finally have "distinct (map le_rank es)" by (metis distinct_upt mset_eq_imp_distinct_iff)
  then have a: "accepted (P i) es" using es P assms(3) by (auto simp: accepted_def)
  have all: "j \<in> le_rank ` set es" if "j < pn_world_size (P i)" for j
    using that P [of j] assms(3) P(2) [OF assms(3)] by (auto simp: es image_image intro!: image_eqI)
  obtain r where r: "gather_endpoints (P i) es = Ok r"
    using gather_endpoints_complete [OF a all] by blast
  have entry: "re_endpoints r ! j = entry_for (P i) (pn_endpoint (P j))" if "j < n" for j
    using gather_endpoints_Ok(4) [OF r, of "pn_endpoint (P j)"] that P(1) [OF that] by (auto simp: es)
  have "re_endpoints r =
      map (\<lambda>j. \<lparr>nce_qp = pch_endpoint (pmc_channels (pn_multi_channel (P j)) ! i),
                nce_barrier_mr = prepared_remote_mr (pn_barrier (P j))\<rparr>) [0..<n]"
    using gather_endpoints_Ok(2) [OF r] P assms(3)
    by (intro nth_equalityI) (simp_all add: entry entry_for_pn_endpoint)
  with r show ?thesis by (metis remote_endpoints.collapse)
qed

section \<open>A node that came up\<close>

lemma prepared_remote_mr_eq:
  "prepared_remote_mr b = pbm_remote (pbs_mr (the_prepared b))"
  by (cases b) (simp_all add: prepared_defs)

lemma the_state_prepared_link_remote:
  "the_state (prepared_link_remote b r) =
     \<lparr>bs_rank = pbs_rank (the_prepared b), bs_mr = pbm_link_remote (pbs_mr (the_prepared b)) r,
      bs_poisoned = False\<rparr>"
  by (cases b) (simp_all add: prepared_defs)

lemma collect_s_length: "collect_s f xs s = (Ok ys, s') \<Longrightarrow> length ys = length xs"
  by (induction xs arbitrary: s ys) (auto simp: bind_s_eq_Ok ret_s_def)

lemma algorithm_instance_Ok:
  assumes "algorithm_instance a v addr pd rank world h = (Ok b, h')"
  shows "\<exists>mr. register_shared_mr v (pd_handle pd) addr (word_of_nat (flags_size * world)) h = (Ok mr, h') \<and>
              the_prepared b =
                \<lparr>pbs_rank = rank,
                 pbs_mr = \<lparr>pbm_rank = rank, pbm_addr = addr, pbm_memory = replicate world flags_new,
                           pbm_mr = mr\<rparr>\<rparr>"
  using assms
  by (cases a) (auto simp: new_centralized_def new_binary_tree_def new_dissemination_def
      prepared_defs barrier_mr_new_def bind_s_eq_Ok ret_s_def)

text \<open>\<open>ibv_reg_mr\<close> as documented: the region it returns has the address and length asked for.\<close>

definition registers_as_asked :: "'h verbs \<Rightarrow> bool" where
  "registers_as_asked v \<longleftrightarrow>
     (\<forall>pd a l f h mr h'. v_reg_mr v pd a l f h = (Some mr, h') \<longrightarrow>
        mr_addr mr = a \<and> mr_length mr = l)"

lemma register_shared_mr_Ok:
  assumes "registers_as_asked v" "register_shared_mr v pd a l h = (Ok mr, h')"
  shows "mreg_address mr = a \<and> mreg_length mr = l"
proof -
  obtain x h1 where x: "v_reg_mr v pd a l (access_code (shared_access (v_access_consts v))) h = (x, h1)"
    by (metis prod.exhaust)
  with assms(2) obtain m where m: "x = Some m" "mr = \<lparr>mreg_pd = pd, mreg_mr = m\<rparr>"
    by (auto simp: register_shared_mr_def register_mr_with_access_def split: option.splits)
  have "mr_addr m = a \<and> mr_length m = l"
    using assms(1) x m(1) unfolding registers_as_asked_def by blast
  with m(2) show ?thesis by (simp add: mreg_address_def mreg_length_def)
qed

text \<open>What the builder of node \<open>i\<close> returned.\<close>

lemma node_builder_Ok:
  assumes "node_builder v addr rank n pd pr h = (Ok p, h')" "registers_as_asked v"
  shows "pn_rank p = rank" "pn_world_size p = n" "length (pmc_channels (pn_multi_channel p)) = n"
    and "\<exists>mr. mreg_address mr = addr \<and> mreg_length mr = word_of_nat (flags_size * n) \<and>
          the_prepared (pn_barrier p) =
            \<lparr>pbs_rank = rank,
             pbs_mr = \<lparr>pbm_rank = rank, pbm_addr = addr, pbm_memory = replicate n flags_new,
                       pbm_mr = mr\<rparr>\<rparr>"
proof -
  from assms(1) obtain mc h1 b where mc: "multi_channel_builder v n pd (np_min_cq_entries pr) (np_qp pr) h = (Ok mc, h1)"
    and b: "algorithm_instance (np_barrier pr) v addr pd rank n h1 = (Ok b, h')"
    and p: "p = \<lparr>pn_rank = rank, pn_world_size = n, pn_multi_channel = mc, pn_barrier = b\<rparr>"
    by (auto simp: node_builder_def bind_s_eq_Ok ret_s_def)
  show "pn_rank p = rank" "pn_world_size p = n" by (simp_all add: p)
  show "length (pmc_channels (pn_multi_channel p)) = n"
    using mc by (auto simp: p multi_channel_builder_def bind_s_eq_Ok ret_s_def dest: collect_s_length)
  from algorithm_instance_Ok [OF b] register_shared_mr_Ok [OF assms(2)]
  show "\<exists>mr. mreg_address mr = addr \<and> mreg_length mr = word_of_nat (flags_size * n) \<and>
          the_prepared (pn_barrier p) =
            \<lparr>pbs_rank = rank,
             pbs_mr = \<lparr>pbm_rank = rank, pbm_addr = addr, pbm_memory = replicate n flags_new,
                       pbm_mr = mr\<rparr>\<rparr>"
    by (auto simp: p)
qed

text \<open>The flags of node \<open>i\<close> fit in the address space, as the allocator guarantees.\<close>

definition flags_fit :: "nat \<Rightarrow> usize \<Rightarrow> bool" where
  "flags_fit n addr \<longleftrightarrow> n < 2 ^ 58 \<and> unat addr + flags_size * n < 2 ^ 64"

lemma built_world_comes_up:
  assumes built: "\<forall>j < n. \<exists>pd pr h h'. node_builder (v j) (addr j) j n pd pr h = (Ok (P j), h')"
    and drivers: "\<forall>j < n. registers_as_asked (v j) \<and> flags_fit n (addr j)"
    and es: "mset es = mset (map (\<lambda>j. pn_endpoint (P j)) [0..<n])" and i: "i < n"
    and g: "gather_endpoints (P i) es = Ok re" and hs: "node_handshake (v i) (P i) re w = (Ok nd, w')"
  shows "node_rank nd = i" "node_world_size nd = n" "mc_num_channels (node_multi_channel nd) = n"
    and "\<not> bs_poisoned (the_state (node_barrier nd))" "bs_rank (the_state (node_barrier nd)) = i"
    and "bm_rank (bs_mr (the_state (node_barrier nd))) = i"
    and "bm_addr (bs_mr (the_state (node_barrier nd))) = addr i"
    and "bm_memory (bs_mr (the_state (node_barrier nd))) = replicate n flags_new"
    and "wf_barrier_mr (bs_mr (the_state (node_barrier nd)))"
    and "j < n \<Longrightarrow>
           rmr_addr (prmr_remote_mr (bm_remote_mrs (bs_mr (the_state (node_barrier nd))) ! j)) = addr j"
proof -
  have P: "pn_rank (P j) = j" "pn_world_size (P j) = n"
    "length (pmc_channels (pn_multi_channel (P j))) = n"
    "\<exists>mr. mreg_address mr = addr j \<and> mreg_length mr = word_of_nat (flags_size * n) \<and>
       the_prepared (pn_barrier (P j)) =
         \<lparr>pbs_rank = j, pbs_mr = \<lparr>pbm_rank = j, pbm_addr = addr j,
            pbm_memory = replicate n flags_new, pbm_mr = mr\<rparr>\<rparr>" if "j < n" for j
    using built drivers that node_builder_Ok by metis+
  have "prepared_world n P" by (simp add: prepared_world_def P)
  from world_gathers [OF this es i] g
  have re: "map nce_barrier_mr (re_endpoints re) = map (\<lambda>j. prepared_remote_mr (pn_barrier (P j))) [0..<n]"
    "length (re_endpoints re) = n"
    by (auto simp: comp_def)
  from hs obtain m where
    m: "multi_channel_handshake (v i) (pn_multi_channel (P i)) (map nce_qp (re_endpoints re)) w = (Ok m, w')"
    and nd: "nd = \<lparr>node_rank = i, node_world_size = n, node_multi_channel = m,
      node_barrier = prepared_link_remote (pn_barrier (P i))
        (map (\<lambda>j. prepared_remote_mr (pn_barrier (P j))) [0..<n])\<rparr>"
    using P(1,2) [OF i] by (auto simp: node_handshake_def bind_s_eq_Ok ret_s_def re(1))
  show "node_rank nd = i" "node_world_size nd = n" by (simp_all add: nd)
  show "mc_num_channels (node_multi_channel nd) = n"
    using m re(2) P(3) [OF i]
    by (auto simp: nd multi_channel_handshake_def bind_s_eq_Ok ret_s_def lift_s_def mc_num_channels_def
        split: if_splits dest: collect_s_length)
  let ?bm = "bs_mr (the_state (node_barrier nd))"
  from P(4) [OF i] show b: "\<not> bs_poisoned (the_state (node_barrier nd))"
    "bs_rank (the_state (node_barrier nd)) = i" "bm_rank ?bm = i" "bm_addr ?bm = addr i"
    "bm_memory ?bm = replicate n flags_new"
    by (auto simp: nd the_state_prepared_link_remote pbm_link_remote_def)
  have own: "mreg_address (bm_mr ?bm) = addr i" "mreg_length (bm_mr ?bm) = word_of_nat (flags_size * n)"
    using P(4) [OF i] by (auto simp: nd the_state_prepared_link_remote pbm_link_remote_def)
  have links: "length (bm_remote_mrs ?bm) = n"
    by (simp add: nd the_state_prepared_link_remote pbm_link_remote_def)
  have link: "prmr_peer (bm_remote_mrs ?bm ! j) = j \<and>
      rmr_addr (prmr_remote_mr (bm_remote_mrs ?bm ! j)) = addr j \<and>
      rmr_length (prmr_remote_mr (bm_remote_mrs ?bm ! j)) = word_of_nat (flags_size * n)" if "j < n" for j
    using P(4) [OF that] that
    by (auto simp: nd the_state_prepared_link_remote pbm_link_remote_def prepared_remote_mr_eq
        pbm_remote_def prmr_new_def mreg_remote_def rmr_new_def)
  show "j < n \<Longrightarrow> rmr_addr (prmr_remote_mr (bm_remote_mrs ?bm ! j)) = addr j"
    using link by blast
  have fit: "n < 2 ^ 58" "unat (addr j) + flags_size * n < 2 ^ 64" if "j < n" for j
    using drivers that by (simp_all add: flags_fit_def)
  have "unat (word_of_nat (flags_size * n) :: u64) = flags_size * n"
    using fit [OF i] by (intro unat_of_nat_u64) simp
  with fit fit [OF i] link links own b i show "wf_barrier_mr ?bm"
    by (simp add: wf_barrier_mr_def)
qed

text \<open>The handshake of node \<open>i\<close> connects its channel \<open>j\<close> to the queue pair that node \<open>j\<close> made for \<open>i\<close>.\<close>

lemma world_wired:
  assumes "prepared_world n P" "i < n"
    and "mset es = mset (map (\<lambda>j. pn_endpoint (P j)) [0..<n])"
  shows "\<exists>re. gather_endpoints (P i) es = Ok re \<and>
           node_handshake v (P i) re =
             bind_s
               (multi_channel_handshake v (pn_multi_channel (P i))
                  (map (\<lambda>j. pmc_endpoints (pn_multi_channel (P j)) ! i) [0..<n]))
               (\<lambda>m. ret_s \<lparr>node_rank = i, node_world_size = n, node_multi_channel = m,
                  node_barrier = prepared_link_remote (pn_barrier (P i))
                    (map (\<lambda>j. prepared_remote_mr (pn_barrier (P j))) [0..<n])\<rparr>)"
proof -
  have P: "pn_rank (P i) = i" "pn_world_size (P i) = n"
    "\<forall>j < n. length (pmc_channels (pn_multi_channel (P j))) = n"
    using assms(1,2) by (simp_all add: prepared_world_def)
  have e: "map (\<lambda>j. pch_endpoint (pmc_channels (pn_multi_channel (P j)) ! i)) [0..<n] =
        map (\<lambda>j. pmc_endpoints (pn_multi_channel (P j)) ! i) [0..<n]"
    using P(3) assms(2) by (simp add: pmc_endpoints_def)
  show ?thesis
    using world_gathers [OF assms(1,3,2)] P(1,2) by (simp add: node_handshake_def comp_def e)
qed

section \<open>Scopes of a node\<close>

interpretation node_view: scope_view node_multi_channel
  "\<lambda>m n. n\<lparr>node_multi_channel := m\<rparr>" "\<lambda>_. True"
  by unfold_locales simp_all

lemma node_post_mirrors:
  "node_view.mirrors (channel_post (node_selector peer) op) (channel_post (mc_selector peer) op)"
  by (rule node_view.mirrors_post) (simp_all add: node_selector_def mc_selector_def)

lemmas node_post_defs =
  node_post_send_def node_post_receive_def node_post_write_def node_post_read_def
  node_post_scatter_send_def node_post_scatter_write_def node_post_gather_receive_def
  node_post_gather_read_def node_post_multicast_send_def

lemmas mc_post_defs =
  mc_post_send_def mc_post_receive_def mc_post_write_def mc_post_read_def
  post_scatter_send_def post_scatter_write_def post_gather_receive_def post_gather_read_def
  post_multicast_send_def

lemmas channel_post_defs =
  channel_post_send_def channel_post_receive_def channel_post_write_def channel_post_read_def

text \<open>The posting operations of a node's scope are those of the multi-channel's.\<close>

lemma node_posts_mirror:
  "node_view.mirrors (node_post_send v oc sp) (mc_post_send v oc sp)"
  "node_view.mirrors (node_post_receive v oc rp) (mc_post_receive v oc rp)"
  "node_view.mirrors (node_post_write v oc wp) (mc_post_write v oc wp)"
  "node_view.mirrors (node_post_read v oc dp) (mc_post_read v oc dp)"
  by (simp_all add: node_post_defs mc_post_defs channel_post_defs node_view.mirrors_map_err
      node_post_mirrors)

lemma node_post_lists_mirror:
  "node_view.mirrors (node_post_scatter_send v oc sps) (post_scatter_send v oc sps)"
  "node_view.mirrors (node_post_scatter_write v oc wps) (post_scatter_write v oc wps)"
  "node_view.mirrors (node_post_gather_receive v oc rps) (post_gather_receive v oc rps)"
  "node_view.mirrors (node_post_gather_read v oc dps) (post_gather_read v oc dps)"
  "node_view.mirrors (node_post_multicast_send v oc peers wr) (post_multicast_send v oc peers wr)"
  unfolding node_post_scatter_send_def node_post_scatter_write_def node_post_gather_receive_def
    node_post_gather_read_def node_post_multicast_send_def post_scatter_send_def
    post_scatter_write_def post_gather_receive_def post_gather_read_def post_multicast_send_def
  by (rule node_view.mirrors_collect, rule node_posts_mirror)+

lemma post_all_and_spin_on_node:
  fixes f :: "('h node_scope, nat list, transport_error) comp"
  assumes "node_view.mirrors f g"
  shows "post_all_and_spin fuel v f = on_multi_channel (post_all_and_spin fuel v g)"
proof
  fix s :: "node \<times> 'h world"
  obtain n w where s: "s = (n, w)" by (metis prod.exhaust)
  let ?f = "\<lambda>post. bind_s post (\<lambda>wrs. collect_s (\<lambda>i. scoped_spin_poll fuel v i) wrs)"
  have "node_view.mirrors (?f f) (?f g)"
    by (intro node_view.mirrors_bind node_view.mirrors_collect node_view.mirrors_spin_poll assms)
  from node_view.manual_scope_view [OF this TrueI, of fuel v n w]
  show "post_all_and_spin fuel v f s = on_multi_channel (post_all_and_spin fuel v g) s"
    by (simp add: post_all_and_spin_def on_multi_channel_def s)
qed

lemma post_and_spin_on_node:
  fixes f :: "('h node_scope, nat, transport_error) comp"
  assumes "node_view.mirrors f g"
  shows "post_and_spin fuel v f = on_multi_channel (post_and_spin fuel v g)"
proof
  fix s :: "node \<times> 'h world"
  obtain n w where s: "s = (n, w)" by (metis prod.exhaust)
  let ?f = "\<lambda>post. bind_s post (\<lambda>i. scoped_spin_poll fuel v i)"
  have "node_view.mirrors (?f f) (?f g)"
    by (intro node_view.mirrors_bind node_view.mirrors_spin_poll assms)
  from node_view.manual_scope_view [OF this TrueI, of fuel v n w]
  show "post_and_spin fuel v f s = on_multi_channel (post_and_spin fuel v g) s"
    by (simp add: post_and_spin_def on_multi_channel_def s)
qed

text \<open>The blocking operations of the node, written over a scope of the node.\<close>

lemma node_lists_over_scope:
  "post_all_and_spin fuel v (node_post_scatter_send v oc sps) = node_scatter_send fuel v oc sps"
  "post_all_and_spin fuel v (node_post_scatter_write v oc wps) = node_scatter_write fuel v oc wps"
  "post_all_and_spin fuel v (node_post_gather_receive v oc rps) = node_gather_receive fuel v oc rps"
  "post_all_and_spin fuel v (node_post_gather_read v oc dps) = node_gather_read fuel v oc dps"
  "post_all_and_spin fuel v (node_post_multicast_send v oc peers wr) =
     node_multicast_send fuel v oc peers wr"
  by (simp_all add: post_all_and_spin_on_node node_post_lists_mirror node_scatter_send_def
      node_scatter_write_def node_gather_receive_def node_gather_read_def node_multicast_send_def
      scatter_send_def scatter_write_def gather_receive_def gather_read_def multicast_send_def)

lemmas node_list_defs =
  node_scatter_send_def node_scatter_write_def node_gather_receive_def node_gather_read_def
  node_multicast_send_def

end
