(* ===== verification/Numa.thy ===== *)
theory Numa
  imports Device_Manager
begin

text \<open>
  \<open>src/ibverbs/numa.rs\<close>: binding the calling thread to the NUMA node of a device.  \<open>libnuma\<close>, sysfs and
  \<open>errno\<close> are the record \<open>numa\<close>; the parsing of the node number is \<open>str::trim\<close> and \<open>i32::from_str\<close> of the
  standard library, on the ASCII text the kernel writes.
\<close>

section \<open>The standard library\<close>

definition is_ascii_whitespace :: "char \<Rightarrow> bool" where
  "is_ascii_whitespace c \<longleftrightarrow> of_char c \<in> {9, 10, 11, 12, 13, 32 :: nat}"

definition str_trim :: "string \<Rightarrow> string" where
  "str_trim s = rev (dropWhile is_ascii_whitespace (rev (dropWhile is_ascii_whitespace s)))"

definition digit_value :: "char \<Rightarrow> nat option" where
  "digit_value c = (let d = of_char c :: nat in if 48 \<le> d \<and> d \<le> 57 then Some (d - 48) else None)"

datatype int_error_kind = IntEmpty | IntInvalidDigit | IntPosOverflow | IntNegOverflow

text \<open>
  The loop over the digits: multiply, then the digit, then add, each checked; \<open>neg\<close> subtracts.
\<close>

fun parse_digits :: "bool \<Rightarrow> int \<Rightarrow> string \<Rightarrow> (int, int_error_kind) outcome" where
  "parse_digits neg acc [] = Ok acc"
| "parse_digits neg acc (c # cs) =
     (let overflow = (if neg then IntNegOverflow else IntPosOverflow);
          in_range = (\<lambda>x. - (2 ^ 31) \<le> x \<and> x < 2 ^ 31) in
      case digit_value c of
        None \<Rightarrow> Err IntInvalidDigit
      | Some d \<Rightarrow>
          if \<not> in_range (acc * 10) then Err overflow
          else
            let acc' = (if neg then acc * 10 - int d else acc * 10 + int d) in
            if in_range acc' then parse_digits neg acc' cs else Err overflow)"

definition parse_i32 :: "string \<Rightarrow> (int, int_error_kind) outcome" where
  "parse_i32 s =
     (case s of
        [] \<Rightarrow> Err IntEmpty
      | c # cs \<Rightarrow>
          if (c = CHR ''+'' \<or> c = CHR ''-'') \<and> cs = [] then Err IntInvalidDigit
          else if c = CHR ''+'' then parse_digits False 0 cs
          else if c = CHR ''-'' then parse_digits True 0 cs
          else parse_digits False 0 s)"

fun int_error_message :: "int_error_kind \<Rightarrow> string" where
  "int_error_message IntEmpty = ''cannot parse integer from empty string''"
| "int_error_message IntInvalidDigit = ''invalid digit found in string''"
| "int_error_message IntPosOverflow = ''number too large to fit in target type''"
| "int_error_message IntNegOverflow = ''number too small to fit in target type''"

section \<open>The system\<close>

record 'n numa =
  nm_read_to_string :: "string \<Rightarrow> 'n \<Rightarrow> (string, io_error) outcome \<times> 'n"
  nm_run_on_node :: "int \<Rightarrow> 'n \<Rightarrow> int \<times> 'n"
  nm_set_localalloc :: "'n \<Rightarrow> 'n"
  nm_set_bind_policy :: "int \<Rightarrow> 'n \<Rightarrow> 'n"
  nm_last_os_error :: "'n \<Rightarrow> io_error"

section \<open>numa.rs\<close>

definition numa_path :: "string \<Rightarrow> string" where
  "numa_path dev = ''/sys/class/infiniband/'' @ dev @ ''/device/numa_node''"

definition get_numa_node :: "'n numa \<Rightarrow> string \<Rightarrow> ('n, int, io_error) comp" where
  "get_numa_node m dev =
     bind_s (nm_read_to_string m (numa_path dev)) (\<lambda>s.
     bind_s (lift_s (map_err (\<lambda>e. IoError KindInvalidData (int_error_message e)) (parse_i32 (str_trim s))))
       (\<lambda>node.
          if node < 0
          then lift_s (Err (IoError KindNotFound (''numa node for '' @ dev @ '' not found'')))
          else ret_s node))"

definition set_numa_node :: "'n numa \<Rightarrow> int \<Rightarrow> ('n, unit, io_error) comp" where
  "set_numa_node m node h =
     (case nm_run_on_node m node h of
        (res, h') \<Rightarrow>
          if res \<noteq> 0 then (Err (nm_last_os_error m h'), h')
          else (Ok (), nm_set_localalloc m h'))"

definition set_numa_node_strict :: "'n numa \<Rightarrow> int \<Rightarrow> ('n, unit, io_error) comp" where
  "set_numa_node_strict m node h =
     (case nm_run_on_node m node h of
        (res, h') \<Rightarrow>
          if res \<noteq> 0 then (Err (nm_last_os_error m h'), h')
          else (Ok (), nm_set_localalloc m (nm_set_bind_policy m 1 h')))"

definition bind_thread_to_numa :: "'h verbs \<Rightarrow> 'n numa \<Rightarrow> nat \<Rightarrow> ('n, unit, io_error) comp" where
  "bind_thread_to_numa v m dev =
     bind_s (lift_s (ok_or (IoError KindInvalidData ''invalid device name'') (device_name v dev)))
       (\<lambda>name. bind_s (get_numa_node m name) (set_numa_node m))"

definition bind_thread_to_numa_strict :: "'h verbs \<Rightarrow> 'n numa \<Rightarrow> nat \<Rightarrow> ('n, unit, io_error) comp" where
  "bind_thread_to_numa_strict v m dev =
     bind_s (lift_s (ok_or (IoError KindInvalidData ''invalid device name'') (device_name v dev)))
       (\<lambda>name. bind_s (get_numa_node m name) (set_numa_node_strict m))"

section \<open>Lemmas\<close>

lemma of_char_digit: "d < 10 \<Longrightarrow> of_char (char_of (48 + d) :: char) = (48 + d :: nat)"
  by (simp add: of_char_of take_bit_nat_eq_self)

lemma digit_value_char: "d < 10 \<Longrightarrow> digit_value (char_of (48 + d)) = Some d"
  by (simp add: digit_value_def Let_def of_char_digit)

lemma parse_digits_append:
  "parse_digits neg acc (xs @ ys) = bind_outcome (parse_digits neg acc xs) (\<lambda>a. parse_digits neg a ys)"
  by (induction xs arbitrary: acc) (auto simp: Let_def split: option.splits)

lemma parse_show_nat: "n < 2 ^ 31 \<Longrightarrow> parse_digits False 0 (show_nat n) = Ok (int n)"
proof (induction n rule: show_nat.induct)
  case (1 n)
  show ?case
  proof (cases "n < 10")
    case True
    then show ?thesis
      by (simp add: show_nat.simps [of n] digit_value_char)
  next
    case False
    have "parse_digits False 0 (show_nat (n div 10)) = Ok (int (n div 10))"
      using 1 False by simp
    moreover have "int (n div 10) * 10 + int (n mod 10) = int n"
      by (metis div_mult_mod_eq of_nat_add of_nat_mult of_nat_numeral)
    moreover have "int n < 2 ^ 31"
      using "1.prems" by (metis of_nat_less_iff of_nat_numeral of_nat_power)
    moreover from calculation have "int (n div 10) * 10 < 2 ^ 31" by linarith
    ultimately show ?thesis
      using False "1.prems" digit_value_char [of "n mod 10"]
      by (simp add: show_nat.simps [of n] parse_digits_append)
  qed
qed

lemma show_nat_digits: "\<forall>c \<in> set (show_nat n). 48 \<le> (of_char c :: nat) \<and> (of_char c :: nat) \<le> 57"
proof (induction n rule: show_nat.induct)
  case (1 n)
  have "of_char (char_of (48 + n mod 10) :: char) = 48 + n mod 10" by (rule of_char_digit) simp
  with 1 show ?case by (auto simp: show_nat.simps [of n] of_char_digit)
qed

lemma show_nat_not_empty: "show_nat n \<noteq> []"
  by (simp add: show_nat.simps)

lemma trim_line:
  assumes "xs \<noteq> []" "\<forall>c \<in> set xs. \<not> is_ascii_whitespace c"
  shows "str_trim (xs @ [CHR 0x0A]) = xs"
proof -
  have "dropWhile is_ascii_whitespace (xs @ [CHR 0x0A]) = xs @ [CHR 0x0A]"
    using assms by (cases xs) auto
  moreover have "dropWhile is_ascii_whitespace (CHR 0x0A # rev xs) = rev xs"
    using assms by (cases "rev xs") (auto simp: is_ascii_whitespace_def)
  ultimately show ?thesis by (simp add: str_trim_def)
qed

lemma parse_printed_node:
  assumes "n < 2 ^ 31"
  shows "parse_i32 (str_trim (show_nat n @ [CHR 0x0A])) = Ok (int n)"
proof -
  have t: "str_trim (show_nat n @ [CHR 0x0A]) = show_nat n"
    using show_nat_digits [of n] show_nat_not_empty by (intro trim_line) (fastforce simp: is_ascii_whitespace_def)+
  obtain c cs where s: "show_nat n = c # cs" using show_nat_not_empty by (cases "show_nat n") auto
  with show_nat_digits [of n] have "48 \<le> (of_char c :: nat)" by auto
  then have "c \<noteq> CHR ''+''" "c \<noteq> CHR ''-''" by auto
  with s parse_show_nat [OF assms] show ?thesis
    unfolding t by (simp add: parse_i32_def del: parse_digits.simps)
qed

end
