(* ===== verification/Programs.thy ===== *)
theory Programs
  imports Public_Interface Exchanger_Lemmas Node_Lemmas Numa
begin

text \<open>
  The programs under \<open>examples/\<close>: how the layers are put together.  \<open>network.rs\<close>,
  \<open>network_barrier_test.rs\<close> and \<open>network_barrier_test_random.rs\<close> start a node from a configuration file and
  a rank, \<open>channel.rs\<close>, \<open>multi_channel.rs\<close> and \<open>multi_channel_scatter_gather.rs\<close> connect channels to
  themselves.

  A program unwraps every result, so an error of the library is a panic here; the error of a program is
  the code it exits with.  Reading the file and parsing the JSON are parameters, addresses of local
  buffers are arguments, and what is printed and the contents of the buffers are left out.
\<close>

section \<open>Unwrapping and the parts of the state\<close>

definition unwrap :: "('a, 'e) outcome \<Rightarrow> ('a, 'f) outcome" where
  "unwrap r = (case r of Ok a \<Rightarrow> Ok a | NoFuel \<Rightarrow> NoFuel | _ \<Rightarrow> Panic)"

definition unwrap_some :: "'a option \<Rightarrow> ('a, 'f) outcome" where
  "unwrap_some x = (case x of Some a \<Rightarrow> Ok a | None \<Rightarrow> Panic)"

definition unwrap_s :: "('s, 'a, 'e) comp \<Rightarrow> ('s, 'a, 'f) comp" where
  "unwrap_s m s = (case m s of (r, s') \<Rightarrow> (unwrap r, s'))"

text \<open>The state of a network program: its world and the rest of the machine (sockets, console).\<close>

definition on_world :: "('h world, 'a, 'e) comp \<Rightarrow> ('h world \<times> 'n, 'a, 'e) comp" where
  "on_world m s = (case s of (w, n) \<Rightarrow> (case m w of (r, w') \<Rightarrow> (r, (w', n))))"

definition on_net :: "('n, 'a, 'e) comp \<Rightarrow> ('h world \<times> 'n, 'a, 'e) comp" where
  "on_net m s = (case s of (w, n) \<Rightarrow> (case m n of (r, n') \<Rightarrow> (r, (w, n'))))"

text \<open>An operation of a node, which is returned changed.\<close>

definition with_node :: "('h, 'a, 'e) node_comp \<Rightarrow> node \<Rightarrow> ('h world \<times> 'n, node, 'e) comp" where
  "with_node op nd s =
     (case s of (w, n) \<Rightarrow>
        (case op (nd, w) of (r, (nd', w')) \<Rightarrow> (map_ok (\<lambda>_. nd') r, (w', n))))"

section \<open>Arguments and configuration\<close>

text \<open>\<open>str::parse::<usize>\<close>: an optional plus sign and decimal digits, whose value must fit.\<close>

fun parse_usize_digits :: "nat \<Rightarrow> string \<Rightarrow> nat option" where
  "parse_usize_digits acc [] = Some acc"
| "parse_usize_digits acc (c # cs) =
     (case digit_value c of
        None \<Rightarrow> None
      | Some d \<Rightarrow>
          if acc * 10 + d < 2 ^ 64 then parse_usize_digits (acc * 10 + d) cs else None)"

definition parse_usize :: "string \<Rightarrow> nat option" where
  "parse_usize s =
     (let digits = (case s of c # cs \<Rightarrow> if c = CHR ''+'' then cs else s | [] \<Rightarrow> s) in
      if digits = [] then None else parse_usize_digits 0 digits)"

text \<open>The arguments are the name of the program, the configuration file and the rank.\<close>

definition load_network ::
  "(string \<Rightarrow> (string, io_error) outcome) \<Rightarrow> (string \<Rightarrow> (raw_network_config, string) outcome) \<Rightarrow>
     string list \<Rightarrow> (nat \<times> network_config, nat) outcome" where
  "load_network read_to_string from_str args =
     (if length args \<noteq> 3 then Err 1
      else
        bind_outcome (unwrap_some (parse_usize (args ! 2))) (\<lambda>rank.
        bind_outcome (unwrap (read_to_string (args ! 1))) (\<lambda>json_network.
        bind_outcome (unwrap (from_str json_network)) (\<lambda>raw.
        bind_outcome (unwrap (config_build raw)) (\<lambda>network_config.
          Ok (rank, network_config))))))"

section \<open>Opening the device\<close>

definition DEVICE :: string where
  "DEVICE = ''mlx5_0''"

text \<open>
  \<open>open_device(DEVICE).unwrap()\<close> and \<open>allocate_pd().unwrap()\<close>.  A program keeps both handles until it ends,
  so from here on it is enough to have the protection domain they lead to.
\<close>

definition open_pd :: "'h verbs \<Rightarrow> string \<Rightarrow> ('h, protection_domain, nat) comp" where
  "open_pd v name h =
     (case bind_s (open_device v name) (own_allocate_pd v) (rsrc_init h) of
        (Ok a, s) \<Rightarrow> (unwrap_some (pd_of s a), rs_hw s)
      | (Err _, s) \<Rightarrow> (Panic, rs_hw s)
      | (Panic, s) \<Rightarrow> (Panic, rs_hw s)
      | (NoFuel, s) \<Rightarrow> (NoFuel, rs_hw s))"

section \<open>Starting a node\<close>

definition build_node ::
  "'h verbs \<Rightarrow> usize \<Rightarrow> node_params \<Rightarrow> protection_domain \<Rightarrow> nat \<Rightarrow> network_config \<Rightarrow>
     ('h world, prepared_node, nat) comp" where
  "build_node v addr params pd rank network_config =
     bind_s (lift_s (unwrap_some (config_get network_config rank))) (\<lambda>node_config.
       on_hw (unwrap_s
         (node_builder v addr (rankid node_config) (world_size network_config) pd params)))"

definition connect_node ::
  "nat \<Rightarrow> 'h verbs \<Rightarrow> ('n, local_endpoint) tokio \<Rightarrow> local_endpoint serde_json \<Rightarrow> nat \<Rightarrow>
     network_config \<Rightarrow> prepared_node \<Rightarrow> ('h world \<times> 'n, node, nat) comp" where
  "connect_node fuel v t j rank network_config node =
     (let endpoint = pn_endpoint node in
      bind_s (on_net (unwrap_s
          (await_exchange_all fuel t j rank network_config endpoint exchange_config_default)))
        (\<lambda>remote_endpoints.
      bind_s (lift_s (unwrap (gather_endpoints node remote_endpoints))) (\<lambda>remote_endpoints.
        on_world (unwrap_s (node_handshake v node remote_endpoints)))))"

definition start_node ::
  "nat \<Rightarrow> 'h verbs \<Rightarrow> ('n, local_endpoint) tokio \<Rightarrow> local_endpoint serde_json \<Rightarrow> usize \<Rightarrow>
     node_params \<Rightarrow> protection_domain \<Rightarrow> nat \<Rightarrow> network_config \<Rightarrow>
     ('h world \<times> 'n, node, nat) comp" where
  "start_node fuel v t j addr params pd rank network_config =
     bind_s (on_world (build_node v addr params pd rank network_config)) (\<lambda>node.
       connect_node fuel v t j rank network_config node)"

section \<open>network.rs\<close>

text \<open>
  \<open>buf\<close> is the address of the local array \<open>mem\<close>.  \<open>receive_part\<close> is one of the two receives of rank 0,
  \<open>send_all\<close> the send of ranks 1 and 2.
\<close>

definition receive_part ::
  "nat \<Rightarrow> 'h verbs \<Rightarrow> bool \<Rightarrow> bool \<Rightarrow> memory_region \<Rightarrow> nat \<Rightarrow> slice \<Rightarrow> node \<Rightarrow>
     ('h world \<times> 'n, node, nat) comp" where
  "receive_part fuel v oc dbg mr peer part node =
     bind_s (lift_s (unwrap (mr_scatter_element dbg mr part))) (\<lambda>se.
     bind_s (lift_s (unwrap (peer_receive_new peer [se]))) (\<lambda>wr.
       with_node (unwrap_s (node_receive fuel v oc wr)) node))"

definition send_all ::
  "nat \<Rightarrow> 'h verbs \<Rightarrow> bool \<Rightarrow> bool \<Rightarrow> usize \<Rightarrow> node \<Rightarrow> ('h world \<times> 'n, node, nat) comp" where
  "send_all fuel v oc dbg buf node =
     (let mem = \<lparr>sl_ptr = buf, sl_len = 4\<rparr> in
      bind_s (on_world (on_hw (unwrap_s (pd_register_local_mr_slice v (node_pd node) mem)))) (\<lambda>mr.
      bind_s (lift_s (unwrap (mr_gather_element dbg mr mem))) (\<lambda>ge.
      bind_s (lift_s (unwrap (peer_send_new 0 [ge]))) (\<lambda>wr.
        with_node (unwrap_s (node_send fuel v oc wr)) node))))"

definition network_role ::
  "nat \<Rightarrow> 'h verbs \<Rightarrow> bool \<Rightarrow> bool \<Rightarrow> usize \<Rightarrow> node \<Rightarrow> ('h world \<times> 'n, node, nat) comp" where
  "network_role fuel v oc dbg buf node =
     (if node_rank node = 0 then
        bind_s
          (on_world (on_hw (unwrap_s
             (pd_register_local_mr_slice v (node_pd node) \<lparr>sl_ptr = buf, sl_len = 8\<rparr>)))) (\<lambda>mr.
        bind_s (receive_part fuel v oc dbg mr 1 \<lparr>sl_ptr = buf, sl_len = 4\<rparr> node) (\<lambda>node.
          receive_part fuel v oc dbg mr 2 \<lparr>sl_ptr = buf + 4, sl_len = 4\<rparr> node))
      else if node_rank node = 1 then send_all fuel v oc dbg buf node
      else if node_rank node = 2 then send_all fuel v oc dbg buf node
      else ret_s node)"

section \<open>network_barrier_test.rs and network_barrier_test_random.rs\<close>

text \<open>What the two programs use of the console, the random numbers and the scheduler.\<close>

record 'n console =
  cn_read_line :: "('n, unit, io_error) comp"
  cn_read :: "('n, nat, io_error) comp"
  cn_random_range :: "nat \<Rightarrow> nat \<Rightarrow> 'n \<Rightarrow> nat \<times> 'n"
  cn_sleep :: "nat \<Rightarrow> 'n \<Rightarrow> 'n"

definition ten_seconds :: nat where
  "ten_seconds = 10000 * 1000000"

definition barrier_test_round ::
  "nat \<Rightarrow> 'h verbs \<Rightarrow> bool \<Rightarrow> 'n console \<Rightarrow> node \<Rightarrow> ('h world \<times> 'n, node, nat) comp" where
  "barrier_test_round fuel v oc cn node =
     bind_s (on_net (unwrap_s (cn_read_line cn))) (\<lambda>_.
       if node_rank node = 0 \<or> node_rank node = 1 \<or> node_rank node = 2
       then with_node (unwrap_s (node_run_barrier fuel v oc [0, 1, 2] ten_seconds)) node
       else ret_s node)"

definition random_test_round ::
  "nat \<Rightarrow> 'h verbs \<Rightarrow> bool \<Rightarrow> 'n console \<Rightarrow> nat list \<Rightarrow> node \<Rightarrow> ('h world \<times> 'n, node, nat) comp" where
  "random_test_round fuel v oc cn all_nodes node =
     bind_s
       (if node_rank node = 1
        then on_net (\<lambda>n. case cn_random_range cn 10 10000000 n of
                          (delay, n') \<Rightarrow> (Ok (), cn_sleep cn delay n'))
        else ret_s ())
       (\<lambda>_. with_node (unwrap_s (node_run_barrier fuel v oc all_nodes ten_seconds)) node)"

fun rounds :: "(node \<Rightarrow> ('s, node, nat) comp) \<Rightarrow> nat \<Rightarrow> node \<Rightarrow> ('s, node, nat) comp" where
  "rounds f 0 node = ret_s node"
| "rounds f (Suc k) node = bind_s (f node) (rounds f k)"

definition barrier_test_loop ::
  "nat \<Rightarrow> 'h verbs \<Rightarrow> bool \<Rightarrow> 'n console \<Rightarrow> node \<Rightarrow> ('h world \<times> 'n, node, nat) comp" where
  "barrier_test_loop fuel v oc cn node = rounds (barrier_test_round fuel v oc cn) 3 node"

definition random_test_loop ::
  "nat \<Rightarrow> 'h verbs \<Rightarrow> bool \<Rightarrow> 'n console \<Rightarrow> node \<Rightarrow> ('h world \<times> 'n, node, nat) comp" where
  "random_test_loop fuel v oc cn node =
     (let all_nodes = [0..<node_world_size node] in
      bind_s (on_net (unwrap_s (cn_read cn))) (\<lambda>_.
        rounds (random_test_round fuel v oc cn all_nodes) 10000 node))"

section \<open>The programs\<close>

text \<open>
  The three network programs differ in the algorithm of the barrier and in what they do once the node is
  up.  \<open>input\<close> gives the reader of files and the parser of the configuration.
\<close>

definition run_network_program ::
  "nat \<Rightarrow> 'h verbs \<Rightarrow> ('n, local_endpoint) tokio \<Rightarrow> local_endpoint serde_json \<Rightarrow>
     (string \<Rightarrow> (string, io_error) outcome) \<times> (string \<Rightarrow> (raw_network_config, string) outcome) \<Rightarrow>
     usize \<Rightarrow> node_params \<Rightarrow> string list \<Rightarrow>
     (node \<Rightarrow> ('h world \<times> 'n, node, nat) comp) \<Rightarrow> ('h world \<times> 'n, node, nat) comp" where
  "run_network_program fuel v t j input addr params args program =
     bind_s (lift_s (load_network (fst input) (snd input) args)) (\<lambda>(rank, network_config).
     bind_s (lift_s (unwrap_some (config_get network_config rank))) (\<lambda>_.
     bind_s (on_world (on_hw (open_pd v DEVICE))) (\<lambda>pd.
     bind_s (start_node fuel v t j addr params pd rank network_config) program)))"

definition network_main where
  "network_main fuel v oc dbg t j input addr buf args =
     run_network_program fuel v t j input addr (node_params_default (v_access_consts v)) args
       (network_role fuel v oc dbg buf)"

definition barrier_test_main where
  "barrier_test_main fuel v oc t j input addr cn args =
     run_network_program fuel v t j input addr
       ((node_params_default (v_access_consts v))\<lparr>np_barrier := CentralizedAlg\<rparr>) args
       (barrier_test_loop fuel v oc cn)"

definition random_test_main where
  "random_test_main fuel v oc t j input addr cn args =
     run_network_program fuel v t j input addr
       ((node_params_default (v_access_consts v))\<lparr>np_barrier := DisseminationAlg\<rparr>) args
       (random_test_loop fuel v oc cn)"

section \<open>channel.rs\<close>

definition all_access :: "access_consts \<Rightarrow> access_flags" where
  "all_access c = with_remote_write c (with_remote_read c (with_local_write c access_new))"

definition channel_closure ::
  "'h verbs \<Rightarrow> bool \<Rightarrow> memory_region \<Rightarrow> usize \<Rightarrow> ((channel, 'h) scope, unit, transport_error scope_error) comp"
where
  "channel_closure v oc mr buf =
     (let send_ge = [mr_gather_element_unchecked mr \<lparr>sl_ptr = buf, sl_len = 4\<rparr>];
          recv_se = [mr_scatter_element_unchecked mr \<lparr>sl_ptr = buf + 4, sl_len = 4\<rparr>] in
      bind_s (lift_s (unwrap (receive_wr_new recv_se))) (\<lambda>receive.
      bind_s (map_err_s ClosureError (ch_post_receive v oc receive)) (\<lambda>_.
      bind_s (lift_s (unwrap (send_wr_new send_ge))) (\<lambda>send.
      bind_s (map_err_s ClosureError (ch_post_send v oc send)) (\<lambda>_. ret_s ())))))"

definition channel_main ::
  "nat \<Rightarrow> 'h verbs \<Rightarrow> bool \<Rightarrow> usize \<Rightarrow> ('h world, unit, nat) comp" where
  "channel_main fuel v oc buf =
     bind_s (on_hw (open_pd v DEVICE)) (\<lambda>pd.
     bind_s (on_hw (unwrap_s
         (channel_builder v pd 32 (qp_params_default (all_access (v_access_consts v)))))) (\<lambda>prepared.
     bind_s (on_hw (unwrap_s
         (pd_register_local_mr_slice v pd \<lparr>sl_ptr = buf, sl_len = 8\<rparr>))) (\<lambda>mr.
     let endpoint = pch_endpoint prepared in
     bind_s (unwrap_s (channel_handshake v prepared endpoint)) (\<lambda>channel w.
       case run_scope fuel v (channel_closure v oc mr buf) (channel, w) of
         (r, (_, w')) \<Rightarrow> (unwrap r, w')))))"

section \<open>multi_channel.rs and multi_channel_scatter_gather.rs\<close>

text \<open>A multi-channel whose channels are connected to themselves.\<close>

definition loopback_multi_channel ::
  "'h verbs \<Rightarrow> nat \<Rightarrow> protection_domain \<Rightarrow> ('h world, multi_channel, nat) comp" where
  "loopback_multi_channel v num_channels pd =
     bind_s (on_hw (unwrap_s
         (multi_channel_builder v num_channels pd 32 (qp_params_default (all_access (v_access_consts v))))))
       (\<lambda>multi_channel.
          let endpoints = pmc_endpoints multi_channel in
          unwrap_s (multi_channel_handshake v multi_channel endpoints))"

text \<open>The result of the scope is printed, so it is the result here.\<close>

definition multi_channel_closure ::
  "'h verbs \<Rightarrow> bool \<Rightarrow> memory_region \<Rightarrow> usize \<Rightarrow> ('h mc_scope, unit, transport_error scope_error) comp"
where
  "multi_channel_closure v oc mr buf =
     (let send_sge = [mr_gather_element_unchecked mr \<lparr>sl_ptr = buf, sl_len = 4\<rparr>];
          recv_sge = [mr_scatter_element_unchecked mr \<lparr>sl_ptr = buf + 4, sl_len = 4\<rparr>] in
      bind_s (lift_s (unwrap (peer_receive_new 1 recv_sge))) (\<lambda>receive.
      bind_s (map_err_s ClosureError (mc_post_receive v oc receive)) (\<lambda>_.
      bind_s (lift_s (unwrap (peer_send_new 1 send_sge))) (\<lambda>send.
      bind_s (map_err_s ClosureError (mc_post_send v oc send)) (\<lambda>_. ret_s ())))))"

definition multi_channel_main ::
  "nat \<Rightarrow> 'h verbs \<Rightarrow> bool \<Rightarrow> usize \<Rightarrow>
     ('h world, (unit, transport_error scope_error scope_error) outcome, nat) comp" where
  "multi_channel_main fuel v oc buf =
     bind_s (on_hw (open_pd v DEVICE)) (\<lambda>pd.
     bind_s (loopback_multi_channel v 3 pd) (\<lambda>multi_channel.
     bind_s (on_hw (unwrap_s
         (pd_register_local_mr_slice v pd \<lparr>sl_ptr = buf, sl_len = 8\<rparr>))) (\<lambda>mr w.
       case mc_scope_run fuel v (multi_channel_closure v oc mr buf) (multi_channel, w) of
         (Panic, (_, w')) \<Rightarrow> (Panic, w')
       | (NoFuel, (_, w')) \<Rightarrow> (NoFuel, w')
       | (r, (_, w')) \<Rightarrow> (Ok r, w'))))"

text \<open>\<open>mem.chunks(1)\<close>: slices of one byte.\<close>

definition byte_chunks :: "usize \<Rightarrow> nat \<Rightarrow> slice list" where
  "byte_chunks buf n = map (\<lambda>i. \<lparr>sl_ptr = buf + word_of_nat i, sl_len = 1\<rparr>) [0..<n]"

definition enumerate_requests ::
  "(nat \<Rightarrow> 'a list \<Rightarrow> ('r, unit) outcome) \<Rightarrow> 'a list list \<Rightarrow> ('r list, 'e) outcome" where
  "enumerate_requests new sges =
     collect_outcome (\<lambda>(peer, sge). unwrap (new peer sge)) (zip [0..<length sges] sges)"

definition scatter_gather_closure ::
  "'h verbs \<Rightarrow> bool \<Rightarrow> gather_element list list \<Rightarrow> scatter_element list list \<Rightarrow>
     ('h mc_scope, unit, transport_error scope_error) comp" where
  "scatter_gather_closure v oc send_sges recv_sges =
     bind_s (lift_s (enumerate_requests peer_send_new send_sges)) (\<lambda>scatter_sends.
     bind_s (map_err_s ClosureError (post_scatter_send v oc scatter_sends)) (\<lambda>_.
     bind_s (lift_s (enumerate_requests peer_receive_new recv_sges)) (\<lambda>gather_receives.
     bind_s (map_err_s ClosureError (post_gather_receive v oc gather_receives)) (\<lambda>_. ret_s ()))))"

definition scatter_gather_main ::
  "nat \<Rightarrow> 'h verbs \<Rightarrow> bool \<Rightarrow> bool \<Rightarrow> usize \<Rightarrow>
     ('h world, (unit, transport_error scope_error scope_error) outcome, nat) comp" where
  "scatter_gather_main fuel v oc dbg buf =
     bind_s (on_hw (open_pd v DEVICE)) (\<lambda>pd.
     bind_s (loopback_multi_channel v 5 pd) (\<lambda>multi_channel.
     bind_s (on_hw (unwrap_s
         (pd_register_local_mr_slice v pd \<lparr>sl_ptr = buf, sl_len = 10\<rparr>))) (\<lambda>mr.
     bind_s (lift_s (collect_outcome (\<lambda>chunk. map_ok (\<lambda>ge. [ge]) (unwrap (mr_gather_element dbg mr chunk)))
         (byte_chunks buf 5))) (\<lambda>send_sges.
     bind_s (lift_s (collect_outcome (\<lambda>chunk. map_ok (\<lambda>se. [se]) (unwrap (mr_scatter_element dbg mr chunk)))
         (byte_chunks (buf + 5) 5))) (\<lambda>recv_sges w.
       case mc_scope_run fuel v (scatter_gather_closure v oc send_sges recv_sges) (multi_channel, w) of
         (Panic, (_, w')) \<Rightarrow> (Panic, w')
       | (NoFuel, (_, w')) \<Rightarrow> (NoFuel, w')
       | (r, (_, w')) \<Rightarrow> (Ok r, w'))))))"

section \<open>Lemmas\<close>

lemma unwrap_simps [simp]:
  "unwrap (Ok a) = Ok a" "unwrap (Err e) = Panic" "unwrap Panic = Panic" "unwrap NoFuel = NoFuel"
  by (simp_all add: unwrap_def)

lemma unwrap_eq_Ok [simp]: "unwrap r = Ok a \<longleftrightarrow> r = Ok a"
  by (cases r) auto

lemma unwrap_not_Err [simp]: "unwrap r \<noteq> Err e"
  by (cases r) auto

lemma unwrap_some_eq_Ok [simp]: "unwrap_some x = Ok a \<longleftrightarrow> x = Some a"
  by (cases x) (auto simp: unwrap_some_def)

lemma unwrap_s_Ok: "unwrap_s m s = (Ok a, s') \<longleftrightarrow> m s = (Ok a, s')"
  by (auto simp: unwrap_s_def split: prod.splits)

lemma on_world_Ok: "on_world m (w, n) = (Ok a, s') \<longleftrightarrow> (\<exists>w'. m w = (Ok a, w') \<and> s' = (w', n))"
  by (auto simp: on_world_def split: prod.splits)

lemma on_net_Ok: "on_net m (w, n) = (Ok a, s') \<longleftrightarrow> (\<exists>n'. m n = (Ok a, n') \<and> s' = (w, n'))"
  by (auto simp: on_net_def split: prod.splits)

lemma on_hw_Ok: "on_hw m w = (Ok a, w') \<longleftrightarrow> (\<exists>h. m (w_hw w) = (Ok a, h) \<and> w' = w\<lparr>w_hw := h\<rparr>)"
  by (auto simp: on_hw_def split: prod.splits)

text \<open>Reading back a printed number.\<close>

lemma parse_usize_digits_append:
  "parse_usize_digits a (xs @ ys) =
     Option.bind (parse_usize_digits a xs) (\<lambda>b. parse_usize_digits b ys)"
  by (induction xs arbitrary: a) (auto split: option.splits)

lemma parse_usize_digits_show: "n < 2 ^ 64 \<Longrightarrow> parse_usize_digits 0 (show_nat n) = Some n"
proof (induction n rule: show_nat.induct)
  case (1 n)
  show ?case
  proof (cases "n < 10")
    case True
    then show ?thesis by (simp add: show_nat.simps [of n] digit_value_char)
  next
    case False
    have "parse_usize_digits 0 (show_nat (n div 10)) = Some (n div 10)" using 1 False by simp
    with False "1.prems" digit_value_char [of "n mod 10"] show ?thesis
      by (simp add: show_nat.simps [of n] parse_usize_digits_append)
  qed
qed

lemma parse_usize_show:
  assumes "n < 2 ^ 64"
  shows "parse_usize (show_nat n) = Some n"
proof -
  obtain c cs where s: "show_nat n = c # cs" using show_nat_not_empty by (cases "show_nat n") auto
  with show_nat_digits [of n] have "c \<noteq> CHR ''+''" by auto
  with s parse_usize_digits_show [OF assms] show ?thesis
    by (simp add: parse_usize_def del: parse_usize_digits.simps)
qed

text \<open>A program that got through the configuration has a validated network.\<close>

lemma load_network_Ok:
  assumes "load_network rd js args = Ok (rank, net)"
  shows "\<exists>path text raw. args = [args ! 0, path, args ! 2] \<and> parse_usize (args ! 2) = Some rank \<and>
           rd path = Ok text \<and> js text = Ok raw \<and> config_build raw = Ok net"
proof -
  from assms have "length args = 3" by (auto simp: load_network_def split: if_splits)
  then have "args = [args ! 0, args ! 1, args ! 2]"
    by (auto simp: length_Suc_conv numeral_3_eq_3)
  moreover from assms obtain json raw where "parse_usize (args ! 2) = Some rank" "rd (args ! 1) = Ok json"
    "js json = Ok raw" "config_build raw = Ok net"
    by (auto simp: load_network_def bind_outcome_eq_Ok split: if_splits)
  ultimately show ?thesis by blast
qed

text \<open>\<open>tokio::time::timeout\<close> as documented: when the future ends in time, its result is the result.\<close>

definition timeout_runs :: "('n, 'd) tokio \<Rightarrow> bool" where
  "timeout_runs t \<longleftrightarrow> (\<forall>d m n r n'. tk_timeout t d m n = (Some r, n') \<longrightarrow> m n = (r, n'))"

lemma await_exchange_all_Ok:
  assumes "await_exchange_all fuel t j rank net dat c n = (Ok xs, n')" "timeout_runs t"
  shows "\<exists>n1. exchange_all fuel t j rank net dat c n1 = (Ok xs, n')"
proof -
  let ?f = "exchange_all fuel t j rank net dat c"
  from assms(1) obtain n1 where n1: "(case tk_timeout t (exchange_timeout c) ?f n1 of
      (Some r, n') \<Rightarrow> (r, n') | (None, n') \<Rightarrow> (Err ExchangeTimeout, n')) = (Ok xs, n')"
    by (auto simp: await_exchange_all_def bind_s_eq_Ok)
  obtain x n2 where x: "tk_timeout t (exchange_timeout c) ?f n1 = (x, n2)" by (metis prod.exhaust)
  with n1 have "x = Some (Ok xs)" "n2 = n'" by (auto split: option.splits)
  with x assms(2) show ?thesis unfolding timeout_runs_def by blast
qed

lemma connect_node_Ok:
  assumes "connect_node fuel v t j i net p s = (Ok nd, s')" "pn_endpoint p = d i" "timeout_runs t"
    and "reads_only t j (\<lambda>k x. x = d k)" "\<forall>k < length net. rankid (net ! k) = k"
  shows "\<exists>re w w'. gather_endpoints p (map d [0..<world_size net]) = Ok re \<and>
           node_handshake v p re w = (Ok nd, w')"
proof -
  obtain w n where s: "s = (w, n)" by (cases s)
  from assms(1) obtain xs n' re w' where
    x: "await_exchange_all fuel t j i net (d i) exchange_config_default n = (Ok xs, n')" and
    g: "gather_endpoints p xs = Ok re" and h: "node_handshake v p re w = (Ok nd, w')"
    by (auto simp: connect_node_def Let_def bind_s_eq_Ok s on_net_Ok on_world_Ok unwrap_s_Ok lift_s_def
        assms(2))
  from await_exchange_all_Ok [OF x assms(3)] exchange_all_honest [OF _ assms(4,5)]
  have "xs = map d [0..<world_size net]" by blast
  with g h show ?thesis by auto
qed

lemma build_node_Ok:
  assumes "build_node v addr params pd rank net w = (Ok p, w')"
    and "\<forall>k < length net. rankid (net ! k) = k"
  shows "rank < world_size net \<and>
         (\<exists>h'. node_builder v addr rank (world_size net) pd params (w_hw w) = (Ok p, h'))"
  using assms
  by (auto simp: build_node_def bind_s_eq_Ok lift_s_def config_get_def on_hw_Ok unwrap_s_Ok world_size_def
      split: if_splits)

lemma start_node_Ok:
  "start_node fuel v t j addr params pd rank net (w, n) = (Ok nd, s') \<longleftrightarrow>
     (\<exists>p w'. build_node v addr params pd rank net w = (Ok p, w') \<and>
        connect_node fuel v t j rank net p (w', n) = (Ok nd, s'))"
  by (auto simp: start_node_def bind_s_eq_Ok on_world_Ok)

text \<open>A program that ends normally got all the way: the node was started and its loop ran to the end.\<close>

lemma run_network_program_Ok:
  assumes "run_network_program fuel v t j input addr params args program (w, n) = (Ok nd', s')"
  shows "\<exists>rank net pd w1 nd s. load_network (fst input) (snd input) args = Ok (rank, net) \<and>
           start_node fuel v t j addr params pd rank net (w1, n) = (Ok nd, s) \<and>
           program nd s = (Ok nd', s')"
  using assms by (fastforce simp: run_network_program_def bind_s_eq_Ok lift_s_def on_world_Ok)

text \<open>When the loopback program on a channel ends normally, its works have completed and succeeded.\<close>

lemma channel_main_completes:
  assumes "poll_ok v" "channel_main fuel v oc buf w = (Ok (), w')"
  shows "\<exists>ch w1 mr sc2. scope_run fuel v (channel_closure v oc mr buf) (scope_new ch w1) = (Ok (), sc2) \<and>
           sc_world sc2 = w' \<and> all_complete (sc_wrs sc2) \<and> unpolled_failures (sc_wrs sc2) = []"
proof -
  from assms(2) obtain mr ch w1 where
    r: "(case run_scope fuel v (channel_closure v oc mr buf) (ch, w1) of
        (r, (_, w2)) \<Rightarrow> (unwrap r :: (unit, nat) outcome, w2)) = (Ok (), w')"
    by (auto simp: channel_main_def bind_s_eq_Ok Let_def)
  obtain c sc1 where c: "channel_closure v oc mr buf (scope_new ch w1) = (c, sc1)" by (metis prod.exhaust)
  obtain q sc2 where q: "scope_run fuel v (channel_closure v oc mr buf) (scope_new ch w1) = (q, sc2)"
    by (metis prod.exhaust)
  with r have ok: "q = Ok ()" "sc_world sc2 = w'"
    by (auto simp: run_scope_def with_scope_def)
  from scope_run_result [OF assms(1) c q] ok have "unpolled_failures (sc_wrs sc2) = []"
    by (auto split: outcome.splits if_splits)
  with scope_run_complete [OF assms(1) q] q ok show ?thesis by auto
qed

end
