(* ===== verification/Properties_Node.thy ===== *)
theory Properties_Node
  imports Example_System Programs
begin

text \<open>
  The properties of a node: which collections of endpoints it accepts, how the nodes of a world are
  wired together, that the notifications of its barrier reach the cells the peers poll, and that its
  operations are those of a scope on its multi-channel.
\<close>

section \<open>Two prepared nodes\<close>

definition example_addr :: "nat \<Rightarrow> usize" where
  "example_addr j = 4096 * word_of_nat (j + 1)"

definition example_params :: node_params where
  "example_params = node_params_default (v_access_consts example_verbs)"

definition example_node :: "nat \<Rightarrow> prepared_node" where
  "example_node j =
     (case fst (node_builder example_verbs (example_addr j) j 2 example_pd example_params dev_init) of
        Ok p \<Rightarrow> p)"

lemmas node_build_defs =
  node_builder_def multi_channel_builder_def channel_builder_def cq_create_def qp_builder_def
  query_port_def new_centralized_def new_binary_tree_def new_dissemination_def prepared_defs
  barrier_mr_new_def register_shared_mr_def register_mr_with_access_def node_params_default_def

lemma example_node_built:
  "\<exists>h'. node_builder example_verbs (example_addr j) j 2 example_pd example_params dev_init =
          (Ok (example_node j), h')"
proof -
  have "\<exists>p h'. node_builder example_verbs (example_addr j) j 2 example_pd example_params dev_init =
          (Ok p, h')"
    by (simp add: node_build_defs example_params_def bind_s_def ret_s_def upt_rec i32_max_def)
  then show ?thesis by (auto simp: example_node_def)
qed

lemma example_registers: "registers_as_asked example_verbs"
  by (auto simp: registers_as_asked_def)

lemma example_flags_fit: "j < 2 \<Longrightarrow> flags_fit 2 (example_addr j)"
  by (cases j; cases "j - 1") (auto simp: flags_fit_def example_addr_def flags_size_def)

lemma example_prepared_world: "prepared_world 2 example_node"
  using node_builder_Ok(1-3) [OF _ example_registers] example_node_built
  unfolding prepared_world_def by metis

definition example_endpoints :: "local_endpoint list" where
  "example_endpoints = [pn_endpoint (example_node 1), pn_endpoint (example_node 0)]"

lemma example_endpoints_all:
  "mset example_endpoints = mset (map (\<lambda>j. pn_endpoint (example_node j)) [0..<2])"
  by (simp add: example_endpoints_def upt_rec)

definition example_remote :: "nat \<Rightarrow> remote_endpoints" where
  "example_remote i =
     RemoteEndpoints
       (map (\<lambda>j. \<lparr>nce_qp = pch_endpoint (pmc_channels (pn_multi_channel (example_node j)) ! i),
                  nce_barrier_mr = prepared_remote_mr (pn_barrier (example_node j))\<rparr>) [0..<2])"

lemma example_gathers:
  "i < 2 \<Longrightarrow> gather_endpoints (example_node i) example_endpoints = Ok (example_remote i)"
  unfolding example_remote_def
  by (rule world_gathers [OF example_prepared_world example_endpoints_all])

lemma example_comes_up:
  assumes "i < 2"
  shows "\<exists>nd w'. node_handshake example_verbs (example_node i) (example_remote i) w =
                   (Ok nd, w')"
proof -
  have "length (pmc_channels (pn_multi_channel (example_node i))) = 2"
    using example_prepared_world assms by (simp add: prepared_world_def)
  then obtain a b where ab: "pmc_channels (pn_multi_channel (example_node i)) = [a, b]"
    by (auto simp: length_Suc_conv numeral_2_eq_2)
  show ?thesis
    by (simp add: node_handshake_def multi_channel_handshake_def ab example_remote_def upt_rec
        bind_s_def ret_s_def channel_handshake_def on_hw_def qp_handshake_def modify_qp_def Let_def)
qed

section \<open>Connecting a world\<close>

text \<open>
  C10. The collection of endpoints, in any order and of any length: it succeeds exactly on the
  collections with one endpoint per rank that all have an entry for this node, and then entry \<open>r\<close> of
  the result is what the node of rank \<open>r\<close> sent to this one; otherwise the error names the first
  endpoint that is out of bounds, duplicated or too short, or else the smallest missing rank.
\<close>

theorem gather_endpoints_outcome:
  "case gather_endpoints p es of
     Ok r \<Rightarrow>
       accepted p es \<and> le_rank ` set es = {0..<pn_world_size p} \<and>
       length (re_endpoints r) = pn_world_size p \<and>
       (\<forall>e \<in> set es. re_endpoints r ! le_rank e = le_endpoints e ! pn_rank p)
   | Err x \<Rightarrow>
       (\<exists>pre e post. es = pre @ e # post \<and> accepted p pre \<and>
          refusal p (le_rank ` set pre) e = Some x) \<or>
       (accepted p es \<and>
        (\<exists>i < pn_world_size p. i \<notin> le_rank ` set es \<and> (\<forall>j < i. j \<in> le_rank ` set es) \<and>
           x = missing_endpoint i))
   | _ \<Rightarrow> False"
proof (cases "gather_endpoints p es")
  case (Ok r)
  note g = gather_endpoints_Ok [OF Ok]
  have "le_rank ` set es = {0..<pn_world_size p}"
    using g(1,3) by (auto simp: accepted_def)
  with Ok g(1,2,4) show ?thesis by (simp add: entry_for_def)
next
  case (Err x)
  with gather_endpoints_Err [OF Err] show ?thesis by simp
qed (use gather_endpoints_returns in simp_all)

theorem gather_endpoints_outcome_witness:
  "gather_endpoints (example_node 0) [pn_endpoint (example_node 0)] = Err (missing_endpoint 1)"
proof -
  let ?p = "example_node 0" and ?es = "[pn_endpoint (example_node 0)]"
  have p: "pn_rank ?p = 0" "pn_world_size ?p = 2" "length (pmc_channels (pn_multi_channel ?p)) = 2"
    using example_prepared_world by (simp_all add: prepared_world_def)
  have r: "refusal ?p {} (pn_endpoint ?p) = None" using p by (simp add: refusal_def)
  have none: "refusal ?p (le_rank ` set pre) e = None" if "?es = pre @ e # post" for pre e post
  proof -
    from arg_cong [OF that, of length] have "pre = []" by simp
    with that r show ?thesis by simp
  qed
  note o = gather_endpoints_outcome [of ?p ?es]
  show ?thesis
  proof (cases "gather_endpoints ?p ?es")
    case (Ok r)
    have "le_rank ` set ?es = {0..<pn_world_size ?p}" using o unfolding Ok outcome.case by blast
    then have "1 \<in> le_rank ` set ?es" using p(2) by (metis atLeastLessThan_iff le0 one_less_numeral_iff semiring_norm(76))
    then have "pn_rank ?p = 1" by simp
    with p(1) show ?thesis by simp
  next
    case (Err x)
    with o have "(\<exists>pre e post. ?es = pre @ e # post \<and> accepted ?p pre \<and>
          refusal ?p (le_rank ` set pre) e = Some x) \<or>
        (\<exists>i < pn_world_size ?p. i \<notin> le_rank ` set ?es \<and> x = missing_endpoint i)"
      unfolding Err outcome.case by blast
    with none obtain i where "i < pn_world_size ?p" "i \<notin> le_rank ` set ?es" "x = missing_endpoint i"
      by (metis option.distinct(1))
    moreover from this p have "i = 1" by simp
    ultimately show ?thesis using Err by simp
  qed (use o in simp_all)
qed

text \<open>
  The wiring of a world: when every node collects the endpoints of all nodes, in whatever order, the
  handshake of node \<open>i\<close> connects its channel \<open>j\<close> to the queue pair that node \<open>j\<close> made for \<open>i\<close>, so the two
  ends of every pair of nodes are each other's remote end.
\<close>

theorem world_is_wired_in_pairs:
  assumes "prepared_world n P" "i < n"
    and "mset es = mset (map (\<lambda>j. pn_endpoint (P j)) [0..<n])"
  shows "\<exists>re. gather_endpoints (P i) es = Ok re \<and>
           node_handshake v (P i) re =
             bind_s
               (multi_channel_handshake v (pn_multi_channel (P i))
                  (map (\<lambda>j. pmc_endpoints (pn_multi_channel (P j)) ! i) [0..<n]))
               (\<lambda>m. ret_s \<lparr>node_rank = i, node_world_size = n, node_multi_channel = m,
                  node_barrier = prepared_link_remote (pn_barrier (P i))
                    (map (\<lambda>j. prepared_remote_mr (pn_barrier (P j))) [0..<n])\<rparr>)"
  by (rule world_wired [OF assms])

theorem world_is_wired_in_pairs_witness:
  "\<exists>re. gather_endpoints (example_node 1) example_endpoints = Ok re"
  using world_is_wired_in_pairs [OF example_prepared_world _ example_endpoints_all, of 1] by auto

text \<open>
  After the handshakes of nodes \<open>i\<close> and \<open>j\<close> of a world of built nodes, no barrier is poisoned and all
  epochs are 0, and the notification of \<open>j\<close> by \<open>i\<close> goes out on the channel of \<open>j\<close> and writes exactly the
  cell in the memory of \<open>j\<close> where \<open>j\<close> polls for \<open>i\<close>.
\<close>

lemma world_ready_for_barriers:
  assumes "\<forall>k < n. \<exists>pd pr h h'. node_builder (v k) (addr k) k n pd pr h = (Ok (P k), h')"
    and "\<forall>k < n. registers_as_asked (v k) \<and> flags_fit n (addr k)"
    and "mset es = mset (map (\<lambda>k. pn_endpoint (P k)) [0..<n])" "i < n" "j < n"
    and "gather_endpoints (P i) es = Ok re" "node_handshake (v i) (P i) re w = (Ok nd, w1)"
    and "gather_endpoints (P j) es = Ok re'" "node_handshake (v j) (P j) re' w' = (Ok nd', w1')"
  shows "\<not> bs_poisoned (the_state (node_barrier nd)) \<and>
         bm_memory (bs_mr (the_state (node_barrier nd))) = replicate n flags_new \<and>
         mc_num_channels (node_multi_channel nd) = n \<and>
         (\<exists>wr. notify_wr oc (bs_mr (the_state (node_barrier nd))) j = Ok wr \<and> pww_peer wr = j \<and>
            rmr_addr (wrt_remote_mr (pww_wr wr)) =
              in_epoch_addr (bs_mr (the_state (node_barrier nd'))) i)"
proof -
  note a = built_world_comes_up [OF assms(1-4,6,7)]
  note b = built_world_comes_up [OF assms(1-3,5,8,9)]
  let ?bm = "bs_mr (the_state (node_barrier nd))" and ?bm' = "bs_mr (the_state (node_barrier nd'))"
  have r: "bm_rank ?bm = i" "bm_rank ?bm' = j" "length (bm_memory ?bm) = n" "length (bm_memory ?bm') = n"
    using a(6,8) b(6,8) by simp_all
  obtain wr where wr: "notify_wr oc ?bm j = Ok wr"
    using notify_wr_eq [OF a(9), of j oc] r assms(5) by auto
  from notify_reaches_polled_cell [OF a(9) b(9), unfolded r, OF _ _ _ wr] assms(4,5) a(10) b(7) wr
  show ?thesis using a(3,4,8) by auto
qed

section \<open>Starting the nodes of a network\<close>

text \<open>The network of two nodes; what a node reads from the other is its rank, and the codec knows the rest.\<close>

definition start_host :: "nat \<Rightarrow> node_config" where
  "start_host r =
     \<lparr>hostname = ''node'', port = 10000, ibdev = ''mlx5_0'', rankid = r, comment = []\<rparr>"

definition start_network :: network_config where
  "start_network = [start_host 0, start_host 1]"

definition start_tokio :: "(u8 list, local_endpoint) tokio" where
  "start_tokio =
     \<lparr>tk_build = ret_s (), tk_timeout = (\<lambda>_ f n. case f n of (r, n') \<Rightarrow> (Some r, n')),
      tk_bind = (\<lambda>_ _. ret_s 0), tk_accept = (\<lambda>_. ret_s 0), tk_connect = (\<lambda>_ _. ret_s 1),
      tk_sleep = (\<lambda>_ n. n),
      tk_read_exact =
        (\<lambda>s k n. if k \<le> length n then (Ok (take k n), drop k n)
                 else (Err (IoError KindOther ''early eof''), n)),
      tk_write_all = (\<lambda>_ _. ret_s ())\<rparr>"

fun start_decode :: "u8 list \<Rightarrow> (local_endpoint exchange_message, string) outcome" where
  "start_decode [r] = Ok \<lparr>em_rank = unat r, em_data = pn_endpoint (example_node (unat r))\<rparr>"
| "start_decode bs = Err ''syntax''"

definition start_serde :: "local_endpoint serde_json" where
  "start_serde = \<lparr>sj_to_vec = (\<lambda>m. Ok [word_of_nat (em_rank m)]), sj_from_slice = start_decode\<rparr>"

definition start_input :: "nat \<Rightarrow> u8 list" where
  "start_input i = [0, 0, 0, 1, if i = 0 then 1 else 0]"

lemma start_network_built: "config_build start_network = Ok start_network"
  by (simp add: config_build_def check_rank_def start_network_def start_host_def upt_rec Let_def)

lemma start_honest: "reads_only start_tokio start_serde (\<lambda>k x. x = pn_endpoint (example_node k))"
proof -
  have "em_data e = pn_endpoint (example_node (em_rank e))" if "start_decode bs = Ok e" for bs e
    using that by (cases bs rule: start_decode.cases) auto
  then show ?thesis
    by (auto simp: reads_only_def read_stream_def bind_s_eq_Ok lift_s_def start_serde_def)
qed

lemma start_timeout: "timeout_runs start_tokio"
  by (auto simp: timeout_runs_def start_tokio_def split: prod.splits)

lemma start_exchange:
  assumes "i < 2"
  shows "\<exists>n'. await_exchange_all 1 start_tokio start_serde i start_network
           (pn_endpoint (example_node i)) exchange_config_default (start_input i) =
           (Ok [pn_endpoint (example_node 0), pn_endpoint (example_node 1)], n')"
proof -
  from assms consider "i = 0" | "i = 1" by linarith
  then show ?thesis
    by cases
      (simp_all add: await_exchange_all_def exchange_all_def exchange_all_serve_def
        exchange_all_connect_def exchange_serve_def exchange_connect_def read_stream_def
        write_stream_def start_tokio_def start_serde_def start_network_def start_host_def
        world_size_def config_get_def range_len_def insert_if_valid_def in_range_def start_input_def
        bind_s_def lift_s_def map_err_s_def ret_s_def Let_def from_be_bytes_def ok_or_def upt_rec)
qed

text \<open>
  C9. Starting a network: when every node of a validated configuration runs the start-up of the programs
  (build, exchange, collect, handshake) and the messages that arrive are those the peers sent, every
  node has its rank and the size of the network, its channel \<open>k\<close> is connected to the queue pair node
  \<open>k\<close> made for it, its barrier is fresh, and its notification of any node goes out on the channel of
  that node and writes exactly the cell which that node polls for it.
\<close>

theorem network_starts_up:
  assumes "config_build raw = Ok net"
    and "\<forall>k < world_size net. registers_as_asked (v k) \<and> flags_fit (world_size net) (addr k)"
    and "\<forall>k < world_size net.
           start_node (fuel k) (v k) (t k) js (addr k) (params k) (pd k) k net (w k, m k) =
             (Ok (nd k), s k) \<and>
           fst (build_node (v k) (addr k) (params k) (pd k) k net (w k)) = Ok (P k)"
    and "\<forall>k < world_size net. timeout_runs (t k) \<and>
           reads_only (t k) js (\<lambda>r x. x = pn_endpoint (P r))"
    and "i < world_size net" "j < world_size net"
  shows "node_rank (nd i) = i \<and> node_world_size (nd i) = world_size net \<and>
         (\<exists>w1 w2. multi_channel_handshake (v i) (pn_multi_channel (P i))
             (map (\<lambda>k. pmc_endpoints (pn_multi_channel (P k)) ! i) [0..<world_size net]) w1 =
             (Ok (node_multi_channel (nd i)), w2)) \<and>
         \<not> bs_poisoned (the_state (node_barrier (nd i))) \<and>
         bm_memory (bs_mr (the_state (node_barrier (nd i)))) = replicate (world_size net) flags_new \<and>
         (\<exists>wr. notify_wr oc (bs_mr (the_state (node_barrier (nd i)))) j = Ok wr \<and> pww_peer wr = j \<and>
            rmr_addr (wrt_remote_mr (pww_wr wr)) =
              in_epoch_addr (bs_mr (the_state (node_barrier (nd j)))) i)"
proof -
  let ?n = "world_size net" and ?es = "map (\<lambda>k. pn_endpoint (P k)) [0..<world_size net]"
  have ranks: "\<forall>k < length net. rankid (net ! k) = k"
    using config_build_sound [OF assms(1)] by metis
  have up: "(\<exists>h h'. node_builder (v k) (addr k) k ?n (pd k) (params k) h = (Ok (P k), h')) \<and>
      (\<exists>re w1 w2. gather_endpoints (P k) ?es = Ok re \<and> node_handshake (v k) (P k) re w1 = (Ok (nd k), w2))"
    if k: "k < ?n" for k
  proof -
    from assms(3) k obtain p w' where b: "build_node (v k) (addr k) (params k) (pd k) k net (w k) = (Ok p, w')"
      and c: "connect_node (fuel k) (v k) (t k) js k net p (w', m k) = (Ok (nd k), s k)"
      by (auto simp: start_node_Ok)
    from b assms(3) k have p: "p = P k" by auto
    from assms(4) k have "timeout_runs (t k)" "reads_only (t k) js (\<lambda>r x. x = pn_endpoint (P r))" by auto
    from connect_node_Ok [OF c [unfolded p] refl this ranks] build_node_Ok [OF b [unfolded p] ranks]
    show ?thesis by blast
  qed
  have built: "\<forall>k < ?n. \<exists>pd pr h h'. node_builder (v k) (addr k) k ?n pd pr h = (Ok (P k), h')"
    using up by blast
  obtain re w1 w2 where i: "gather_endpoints (P i) ?es = Ok re" "node_handshake (v i) (P i) re w1 = (Ok (nd i), w2)"
    using up [OF assms(5)] by blast
  obtain re' w1' w2' where j: "gather_endpoints (P j) ?es = Ok re'" "node_handshake (v j) (P j) re' w1' = (Ok (nd j), w2')"
    using up [OF assms(6)] by blast
  have world: "prepared_world ?n P"
    using node_builder_Ok(1-3) built assms(2) unfolding prepared_world_def by metis
  from world_wired [OF world assms(5) refl, of "v i"] i obtain a where
    "multi_channel_handshake (v i) (pn_multi_channel (P i))
       (map (\<lambda>k. pmc_endpoints (pn_multi_channel (P k)) ! i) [0..<?n]) w1 = (Ok a, w2)"
    "a = node_multi_channel (nd i)"
    by (auto simp: bind_s_eq_Ok ret_s_def dest: arg_cong [of _ _ node_multi_channel])
  then have "\<exists>w1 w2. multi_channel_handshake (v i) (pn_multi_channel (P i))
      (map (\<lambda>k. pmc_endpoints (pn_multi_channel (P k)) ! i) [0..<?n]) w1 = (Ok (node_multi_channel (nd i)), w2)"
    by blast
  moreover have "node_rank (nd i) = i" "node_world_size (nd i) = ?n"
    using built_world_comes_up(1,2) [OF built assms(2) refl assms(5) i] by simp_all
  ultimately show ?thesis
    using world_ready_for_barriers [OF built assms(2) refl assms(5,6) i j] by blast
qed

lemma example_start:
  assumes "k < 2"
  shows "\<exists>nd s. start_node 1 example_verbs start_tokio start_serde (example_addr k) example_params
             example_pd k start_network (example_world, start_input k) = (Ok nd, s)"
    and "fst (build_node example_verbs (example_addr k) example_params example_pd k start_network
           example_world) = Ok (example_node k)"
proof -
  obtain h' where h': "node_builder example_verbs (example_addr k) k 2 example_pd example_params dev_init =
      (Ok (example_node k), h')" using example_node_built by blast
  have g: "config_get start_network k = Some (start_host k)" "world_size start_network = 2"
    using assms by (auto simp: config_get_def start_network_def world_size_def less_2_cases_iff)
  have b: "build_node example_verbs (example_addr k) example_params example_pd k start_network example_world =
      (Ok (example_node k), example_world\<lparr>w_hw := h'\<rparr>)"
    using h' by (simp add: build_node_def g unwrap_some_def bind_s_def lift_s_def on_hw_def unwrap_s_def
        start_host_def example_world_def)
  then show "fst (build_node example_verbs (example_addr k) example_params example_pd k start_network
      example_world) = Ok (example_node k)" by simp
  obtain n' where x: "await_exchange_all 1 start_tokio start_serde k start_network
      (pn_endpoint (example_node k)) exchange_config_default (start_input k) =
      (Ok [pn_endpoint (example_node 0), pn_endpoint (example_node 1)], n')"
    using start_exchange [OF assms] by blast
  have es: "mset [pn_endpoint (example_node 0), pn_endpoint (example_node 1)] =
      mset (map (\<lambda>j. pn_endpoint (example_node j)) [0..<2])"
    by (simp add: upt_rec)
  have re: "gather_endpoints (example_node k) [pn_endpoint (example_node 0), pn_endpoint (example_node 1)] =
      Ok (example_remote k)"
    unfolding example_remote_def by (rule world_gathers [OF example_prepared_world es assms])
  obtain nd w2 where nd: "node_handshake example_verbs (example_node k) (example_remote k)
      (example_world\<lparr>w_hw := h'\<rparr>) = (Ok nd, w2)"
    using example_comes_up [OF assms] by metis
  have "connect_node 1 example_verbs start_tokio start_serde k start_network (example_node k)
      (example_world\<lparr>w_hw := h'\<rparr>, start_input k) = (Ok nd, (w2, n'))"
    using x re nd by (simp add: connect_node_def Let_def bind_s_def on_net_def on_world_def unwrap_s_def lift_s_def)
  with b show "\<exists>nd s. start_node 1 example_verbs start_tokio start_serde (example_addr k) example_params
      example_pd k start_network (example_world, start_input k) = (Ok nd, s)"
    unfolding start_node_Ok by blast
qed

theorem network_starts_up_witness:
  "\<exists>(nd :: nat \<Rightarrow> node) wr. node_rank (nd 0) = 0 \<and> node_world_size (nd 0) = 2 \<and>
     notify_wr True (bs_mr (the_state (node_barrier (nd 0)))) 1 = Ok wr \<and>
     rmr_addr (wrt_remote_mr (pww_wr wr)) = in_epoch_addr (bs_mr (the_state (node_barrier (nd 1)))) 0"
proof -
  have n: "world_size start_network = 2" by (simp add: start_network_def world_size_def)
  have drivers: "\<forall>k < world_size start_network. registers_as_asked example_verbs \<and>
      flags_fit (world_size start_network) (example_addr k)"
    unfolding n using example_registers example_flags_fit by simp
  define nd where "nd k = (case fst (start_node 1 example_verbs start_tokio start_serde (example_addr k)
      example_params example_pd k start_network (example_world, start_input k)) of Ok x \<Rightarrow> x)" for k
  define s where "s k = snd (start_node 1 example_verbs start_tokio start_serde (example_addr k)
      example_params example_pd k start_network (example_world, start_input k))" for k
  have started: "\<forall>k < world_size start_network.
      start_node 1 example_verbs start_tokio start_serde (example_addr k) example_params example_pd k
        start_network (example_world, start_input k) = (Ok (nd k), s k) \<and>
      fst (build_node example_verbs (example_addr k) example_params example_pd k start_network
        example_world) = Ok (example_node k)"
    unfolding n nd_def s_def using example_start by fastforce
  have honest: "\<forall>k < world_size start_network. timeout_runs start_tokio \<and>
      reads_only start_tokio start_serde (\<lambda>r x. x = pn_endpoint (example_node r))"
    using start_timeout start_honest by blast
  from network_starts_up [where v = "\<lambda>_. example_verbs" and addr = example_addr and fuel = "\<lambda>_. 1" and
      t = "\<lambda>_. start_tokio" and params = "\<lambda>_. example_params" and pd = "\<lambda>_. example_pd" and
      w = "\<lambda>_. example_world" and m = start_input, OF start_network_built drivers started honest,
      of 0 1 True] n show ?thesis by auto
qed

section \<open>Operations\<close>

text \<open>
  C23. A scope of a node is a scope of its multi-channel: posting requests in a manual scope of the node
  and waiting for each is, on every outcome, the blocking operation of the node, which is that of its
  multi-channel and leaves the rank, the world size and the barrier of the node alone.
\<close>

theorem node_scope_is_blocking:
  assumes "(blocking, posts, inner) \<in>
             {(node_scatter_send fuel v oc sps, node_post_scatter_send v oc sps,
               scatter_send fuel v oc sps),
              (node_scatter_write fuel v oc wps, node_post_scatter_write v oc wps,
               scatter_write fuel v oc wps),
              (node_gather_receive fuel v oc rps, node_post_gather_receive v oc rps,
               gather_receive fuel v oc rps),
              (node_gather_read fuel v oc dps, node_post_gather_read v oc dps,
               gather_read fuel v oc dps),
              (node_multicast_send fuel v oc peers wr, node_post_multicast_send v oc peers wr,
               multicast_send fuel v oc peers wr)}"
  shows "blocking = node_manual_scope fuel v
           (bind_s posts (\<lambda>ws. collect_s (\<lambda>i. scoped_spin_poll fuel v i) ws)) \<and>
         (\<forall>n w. blocking (n, w) =
            (case inner (node_multi_channel n, w) of
               (r, (m, w')) \<Rightarrow> (r, (n\<lparr>node_multi_channel := m\<rparr>, w'))))"
proof -
  have "blocking = post_all_and_spin fuel v posts" and b: "blocking = on_multi_channel inner"
    using assms by (auto simp: node_lists_over_scope node_list_defs)
  then have "blocking = node_manual_scope fuel v
      (bind_s posts (\<lambda>ws. collect_s (\<lambda>i. scoped_spin_poll fuel v i) ws))"
    by (simp add: post_all_and_spin_def node_manual_scope_def)
  moreover have "\<forall>n w. blocking (n, w) =
            (case inner (node_multi_channel n, w) of
               (r, (m, w')) \<Rightarrow> (r, (n\<lparr>node_multi_channel := m\<rparr>, w')))"
    by (simp add: b on_multi_channel_def)
  ultimately show ?thesis by blast
qed

theorem node_scope_is_blocking_witness:
  "node_scatter_send 3 example_verbs True [] =
     node_manual_scope 3 example_verbs
       (bind_s (node_post_scatter_send example_verbs True [])
          (\<lambda>ws. collect_s (\<lambda>i. scoped_spin_poll 3 example_verbs i) ws))"
proof -
  have "(node_scatter_send 3 example_verbs True [], node_post_scatter_send example_verbs True [],
         scatter_send 3 example_verbs True []) \<in>
             {(node_scatter_send 3 example_verbs True [], node_post_scatter_send example_verbs True [],
               scatter_send 3 example_verbs True []),
              (node_scatter_write 3 example_verbs True [], node_post_scatter_write example_verbs True [],
               scatter_write 3 example_verbs True []),
              (node_gather_receive 3 example_verbs True [],
               node_post_gather_receive example_verbs True [], gather_receive 3 example_verbs True []),
              (node_gather_read 3 example_verbs True [], node_post_gather_read example_verbs True [],
               gather_read 3 example_verbs True []),
              (node_multicast_send 3 example_verbs True [] wr,
               node_post_multicast_send example_verbs True [] wr,
               multicast_send 3 example_verbs True [] wr)}" for wr
    by simp
  from node_scope_is_blocking [OF this, THEN conjunct1] show ?thesis .
qed

end
