(* ===== verification/Rendezvous.thy ===== *)
theory Rendezvous
  imports Exchanger_Lemmas
begin

text \<open>
  The exchange between nodes.  First two ends of one TCP connection: frames written at one end are
  read at the other in order, and one session hands each side the data of the other.  Then all nodes
  together: a step relation whose steps are the sessions, enabled by where the code of the two nodes
  stands, with the invariant that makes the exchange end with all data everywhere.
\<close>

section \<open>One direction of a connection\<close>

text \<open>
  TCP as documented: what is written at the end \<open>a\<close> is appended to what the end \<open>b\<close> can read, reading
  at \<open>b\<close> takes it from the front, and neither touches what \<open>a\<close> can read.
\<close>

definition carries :: "('n, 'd) tokio \<Rightarrow> (nat \<Rightarrow> 'n \<Rightarrow> u8 list) \<Rightarrow> nat \<Rightarrow> nat \<Rightarrow> bool" where
  "carries t buf a b \<longleftrightarrow>
     (\<forall>bs n. \<exists>n'. tk_write_all t a bs n = (Ok (), n') \<and> buf b n' = buf b n @ bs \<and>
        buf a n' = buf a n) \<and>
     (\<forall>k n. k \<le> length (buf b n) \<longrightarrow>
        (\<exists>n'. tk_read_exact t b k n = (Ok (take k (buf b n)), n') \<and> buf b n' = drop k (buf b n) \<and>
           buf a n' = buf a n))"

text \<open>Decoding what was encoded gives the message back.\<close>

definition serde_roundtrip :: "'d serde_json \<Rightarrow> bool" where
  "serde_roundtrip j \<longleftrightarrow> (\<forall>m enc. sj_to_vec j m = Ok enc \<longrightarrow> sj_from_slice j enc = Ok m)"

definition frame :: "u8 list \<Rightarrow> u8 list" where
  "frame enc = be_bytes 4 (length enc) @ enc"

definition encodes :: "'d serde_json \<Rightarrow> 'd exchange_message \<Rightarrow> u8 list \<Rightarrow> bool" where
  "encodes j m enc \<longleftrightarrow> sj_to_vec j m = Ok enc \<and> length enc < 2 ^ 32"

lemma write_carries:
  assumes "carries t buf a b" "encodes j \<lparr>em_rank = rank, em_data = d\<rparr> enc"
  shows "\<exists>n'. write_stream t j rank d a n = (Ok (), n') \<and> buf b n' = buf b n @ frame enc \<and>
              buf a n' = buf a n"
proof -
  obtain n1 where 1: "tk_write_all t a (be_bytes 4 (length enc)) n = (Ok (), n1)"
    "buf b n1 = buf b n @ be_bytes 4 (length enc)" "buf a n1 = buf a n"
    using assms(1) unfolding carries_def by metis
  obtain n2 where 2: "tk_write_all t a enc n1 = (Ok (), n2)" "buf b n2 = buf b n1 @ enc"
    "buf a n2 = buf a n1"
    using assms(1) unfolding carries_def by metis
  from 1 2 assms(2) show ?thesis
    by (simp add: write_stream_def encodes_def frame_def bind_s_def lift_s_def map_err_s_def)
qed

lemma read_carries:
  assumes "carries t buf a b" "serde_roundtrip j" "encodes j m enc" "buf b n = frame enc @ rest"
  shows "\<exists>n'. read_stream t j b n = (Ok m, n') \<and> buf b n' = rest \<and> buf a n' = buf a n"
proof -
  have len: "from_be_bytes (be_bytes 4 (length enc)) = length enc"
    using assms(3) by (simp add: encodes_def)
  have buf: "buf b n = be_bytes 4 (length enc) @ (enc @ rest)" using assms(4) by (simp add: frame_def)
  obtain n1 where 1: "tk_read_exact t b 4 n = (Ok (be_bytes 4 (length enc)), n1)"
    "buf b n1 = enc @ rest" "buf a n1 = buf a n"
    using assms(1) buf unfolding carries_def
    by (metis append_eq_conv_conj le_add1 length_append length_be_bytes)
  obtain n2 where 2: "tk_read_exact t b (length enc) n1 = (Ok enc, n2)" "buf b n2 = rest"
    "buf a n2 = buf a n1"
    using assms(1) 1(2) unfolding carries_def
    by (metis append_eq_conv_conj le_add1 length_append)
  from assms(2,3) have "sj_from_slice j enc = Ok m" by (simp add: serde_roundtrip_def encodes_def)
  with 1 2 len show ?thesis
    by (simp add: read_stream_def bind_s_def lift_s_def map_err_s_def)
qed

lemma writes_carry:
  assumes "carries t buf a b" "list_all2 (encodes j) ms encs"
  shows "\<exists>n'. for_s (\<lambda>m. write_stream t j (em_rank m) (em_data m) a) ms n = (Ok (), n') \<and>
              buf b n' = buf b n @ concat (map frame encs) \<and> buf a n' = buf a n"
  using assms(2)
proof (induction ms encs arbitrary: n rule: list_all2_induct)
  case Nil
  then show ?case by (simp add: ret_s_def)
next
  case (Cons m ms enc encs)
  have m: "encodes j \<lparr>em_rank = em_rank m, em_data = em_data m\<rparr> enc"
    using Cons.hyps(1) by (cases m) simp
  obtain n1 where 1: "write_stream t j (em_rank m) (em_data m) a n = (Ok (), n1)"
    "buf b n1 = buf b n @ frame enc" "buf a n1 = buf a n"
    using write_carries [OF assms(1) m] by blast
  from Cons.IH [of n1] 1 show ?case by (auto simp: bind_s_def)
qed

lemma reads_carry:
  assumes "carries t buf a b" "serde_roundtrip j" "list_all2 (encodes j) ms encs"
    and "buf b n = concat (map frame encs) @ rest"
  shows "\<exists>n'. collect_s (\<lambda>_. read_stream t j b) ms n = (Ok ms, n') \<and> buf b n' = rest \<and>
              buf a n' = buf a n"
  using assms(3,4)
proof (induction ms encs arbitrary: n rule: list_all2_induct)
  case Nil
  then show ?case by (simp add: ret_s_def)
next
  case (Cons m ms enc encs)
  then have "buf b n = frame enc @ (concat (map frame encs) @ rest)" by simp
  from read_carries [OF assms(1,2) Cons.hyps(1) this] obtain n1 where
    1: "read_stream t j b n = (Ok m, n1)" "buf b n1 = concat (map frame encs) @ rest"
    "buf a n1 = buf a n" by blast
  from Cons.IH [OF 1(2)] 1 show ?case by (auto simp: bind_s_def ret_s_def)
qed

section \<open>A session\<close>

text \<open>
  \<open>exchange_serve\<close> at the end \<open>a\<close> against \<open>exchange_connect\<close> at the end \<open>b\<close>: the client reads before it
  writes, so the server's write comes first and its read last.  The result is the pair of maps.
\<close>

definition session ::
  "('n, 'd) tokio \<Rightarrow> 'd serde_json \<Rightarrow> nat \<times> 'd \<times> (nat \<times> nat) \<times> 'd hash_map \<Rightarrow> nat \<Rightarrow>
     nat \<times> 'd \<times> (nat \<times> nat) \<times> 'd hash_map \<Rightarrow> nat \<Rightarrow>
     ('n, 'd hash_map \<times> 'd hash_map, exchange_error) comp" where
  "session t j srv a cli b =
     (case srv of (srank, sdata, sranks, smap) \<Rightarrow>
      case cli of (crank, cdata, cranks, cmap) \<Rightarrow>
        bind_s (write_stream t j srank sdata a) (\<lambda>_.
        bind_s (exchange_connect t j cdata crank cranks b cmap) (\<lambda>cmap'.
        bind_s (read_stream t j a) (\<lambda>incoming.
          ret_s (snd (insert_if_valid incoming smap sranks), cmap')))))"

lemma session_result:
  assumes "carries t buf a b" "carries t buf b a" "serde_roundtrip j"
    and "encodes j \<lparr>em_rank = srank, em_data = sdata\<rparr> senc"
    and "encodes j \<lparr>em_rank = crank, em_data = cdata\<rparr> cenc"
    and "buf a n = []" "buf b n = []"
  shows "\<exists>n'. session t j (srank, sdata, sranks, smap) a (crank, cdata, cranks, cmap) b n =
           (Ok (snd (insert_if_valid \<lparr>em_rank = crank, em_data = cdata\<rparr> smap sranks),
                snd (insert_if_valid \<lparr>em_rank = srank, em_data = sdata\<rparr> cmap cranks)), n') \<and>
         buf a n' = [] \<and> buf b n' = []"
proof -
  obtain n1 where 1: "write_stream t j srank sdata a n = (Ok (), n1)" "buf b n1 = frame senc @ []"
    "buf a n1 = []"
    using write_carries [OF assms(1,4), of n] assms(6,7) by auto
  obtain n2 where 2: "read_stream t j b n1 = (Ok \<lparr>em_rank = srank, em_data = sdata\<rparr>, n2)"
    "buf b n2 = []" "buf a n2 = []"
    using read_carries [OF assms(1,3,4) 1(2)] 1(3) by auto
  obtain n3 where 3: "write_stream t j crank cdata b n2 = (Ok (), n3)" "buf a n3 = frame cenc @ []"
    "buf b n3 = []"
    using write_carries [OF assms(2,5), of n2] 2 by auto
  obtain n4 where 4: "read_stream t j a n3 = (Ok \<lparr>em_rank = crank, em_data = cdata\<rparr>, n4)"
    "buf a n4 = []" "buf b n4 = []"
    using read_carries [OF assms(2,3,5) 3(2)] 3(3) by auto
  show ?thesis
    using 1 2 3 4
    by (simp add: session_def exchange_connect_def bind_s_def ret_s_def Let_def)
qed

section \<open>All nodes together\<close>

text \<open>
  Where the code of a node stands: the map its server loop fills, the next rank it connects to, and the
  map its connections fill.  It serves until the first map is full and connects afterwards.
\<close>

record 'd xnode =
  xn_low :: "'d hash_map"
  xn_next :: nat
  xn_high :: "'d hash_map"

definition served :: "nat \<Rightarrow> 'd xnode \<Rightarrow> bool" where
  "served i x \<longleftrightarrow> range_len (0, i) \<le> length (xn_low x)"

text \<open>
  A session between the client \<open>i\<close> and the server \<open>j\<close>: the client has served and its next rank is \<open>j\<close>,
  the server's loop still runs.  Both insert what the other sent.
\<close>

inductive xstep :: "nat \<Rightarrow> (nat \<Rightarrow> 'd) \<Rightarrow> (nat \<Rightarrow> 'd xnode) \<Rightarrow> (nat \<Rightarrow> 'd xnode) \<Rightarrow> bool"
  for n dat where
  session_step:
    "i < j \<Longrightarrow> j < n \<Longrightarrow> served i (s i) \<Longrightarrow> xn_next (s i) = j \<Longrightarrow> \<not> served j (s j) \<Longrightarrow>
     xstep n dat s
       (s(i := (s i)\<lparr>xn_high := snd (insert_if_valid \<lparr>em_rank = j, em_data = dat j\<rparr>
                                     (xn_high (s i)) (i + 1, n)),
                     xn_next := j + 1\<rparr>,
          j := (s j)\<lparr>xn_low := snd (insert_if_valid \<lparr>em_rank = i, em_data = dat i\<rparr>
                                    (xn_low (s j)) (0, j))\<rparr>))"

inductive_cases xstepE: "xstep n dat s s'"

definition xinit :: "nat \<Rightarrow> 'd xnode" where
  "xinit i = \<lparr>xn_low = [], xn_next = i + 1, xn_high = []\<rparr>"

inductive xreach :: "nat \<Rightarrow> (nat \<Rightarrow> 'd) \<Rightarrow> nat \<Rightarrow> (nat \<Rightarrow> 'd xnode) \<Rightarrow> bool" for n dat where
  xreach_init: "xreach n dat 0 xinit"
| xreach_step: "xreach n dat k s \<Longrightarrow> xstep n dat s s' \<Longrightarrow> xreach n dat (Suc k) s'"

definition xdone :: "nat \<Rightarrow> nat \<Rightarrow> 'd xnode \<Rightarrow> bool" where
  "xdone n i x \<longleftrightarrow> served i x \<and> n \<le> xn_next x"

text \<open>What \<open>exchange_all\<close> returns at a node that is done.\<close>

definition xresult :: "nat \<Rightarrow> (nat \<Rightarrow> 'd) \<Rightarrow> nat \<Rightarrow> 'd xnode \<Rightarrow> ('d list, exchange_error) outcome" where
  "xresult n dat i x =
     bind_outcome (take_ranks [0..<i] (xn_low x)) (\<lambda>lower.
     bind_outcome (take_ranks [i + 1..<n] (xn_high x)) (\<lambda>greater. Ok (lower @ [dat i] @ greater)))"

text \<open>The maps hold exactly the sessions that took place: those of \<open>i\<close> with the ranks below its next.\<close>

definition xinv :: "nat \<Rightarrow> (nat \<Rightarrow> 'd) \<Rightarrow> (nat \<Rightarrow> 'd xnode) \<Rightarrow> bool" where
  "xinv n dat s \<longleftrightarrow>
     (\<forall>i < n. received_ok (0, i) (xn_low (s i)) \<and> received_ok (i + 1, n) (xn_high (s i)) \<and>
        i < xn_next (s i) \<and> xn_next (s i) \<le> n \<and>
        (\<forall>k. map_of (xn_low (s i)) k = (if k < i \<and> i < xn_next (s k) then Some (dat k) else None)) \<and>
        (\<forall>k. map_of (xn_high (s i)) k = (if i < k \<and> k < xn_next (s i) then Some (dat k) else None)))"

lemma in_keys: "map_of m k = Some d \<Longrightarrow> k \<in> fst ` set m"
  by (metis map_of_eq_None_iff option.distinct(1))

lemma xinv_init: "xinv n dat xinit"
  by (auto simp: xinv_def xinit_def)

lemma insert_map:
  "in_range r (em_rank e) \<Longrightarrow>
     map_of (snd (insert_if_valid e m r)) = (map_of m)(em_rank e \<mapsto> em_data e)"
  by (simp add: insert_if_valid_def update_conv')

lemma xinv_step:
  assumes "xinv n dat s" "xstep n dat s s'"
  shows "xinv n dat s'"
  using assms(2)
proof (cases rule: xstep.cases)
  case (session_step i j)
  have i: "i < n" using session_step by simp
  have r: "in_range (i + 1, n) j" "in_range (0, j) i"
    using session_step by (simp_all add: in_range_def)
  note inv = assms(1) [unfolded xinv_def, rule_format]
  have next': "xn_next (s' k) = (if k = i then j + 1 else xn_next (s k))" for k
    using session_step by simp
  have low: "xn_low (s' k) = (if k = j then snd (insert_if_valid \<lparr>em_rank = i, em_data = dat i\<rparr>
      (xn_low (s j)) (0, j)) else xn_low (s k))" for k
    using session_step by simp
  have high: "xn_high (s' k) = (if k = i then snd (insert_if_valid \<lparr>em_rank = j, em_data = dat j\<rparr>
      (xn_high (s i)) (i + 1, n)) else xn_high (s k))" for k
    using session_step by simp
  have "received_ok (0, k) (xn_low (s' k)) \<and> received_ok (k + 1, n) (xn_high (s' k)) \<and>
        k < xn_next (s' k) \<and> xn_next (s' k) \<le> n" if "k < n" for k
    using inv [OF that] session_step that by (auto simp: low high next' insert_keeps_ok)
  moreover have "map_of (xn_low (s' k)) l = (if l < k \<and> k < xn_next (s' l) then Some (dat l) else None)"
    if "k < n" for k l
    using inv [OF that] session_step r that by (auto simp: low next' insert_map)
  moreover have "map_of (xn_high (s' k)) l = (if k < l \<and> l < xn_next (s' k) then Some (dat l) else None)"
    if "k < n" for k l
    using inv [OF that] session_step r that by (auto simp: high next' insert_map)
  ultimately show ?thesis by (simp add: xinv_def)
qed

lemma xreach_inv: "xreach n dat k s \<Longrightarrow> xinv n dat s"
  by (induction rule: xreach.induct) (auto intro: xinv_init xinv_step)

lemma served_iff:
  assumes "xinv n dat s" "i < n"
  shows "served i (s i) \<longleftrightarrow> (\<forall>k < i. i < xn_next (s k))"
proof -
  have ok: "received_ok (0, i) (xn_low (s i))" using assms by (simp add: xinv_def)
  have keys: "k \<in> fst ` set (xn_low (s i)) \<longleftrightarrow> k < i \<and> i < xn_next (s k)" for k
  proof -
    have "map_of (xn_low (s i)) k = (if k < i \<and> i < xn_next (s k) then Some (dat k) else None)"
      using assms by (simp add: xinv_def)
    then show ?thesis using map_of_eq_None_iff [of "xn_low (s i)" k] by (auto split: if_splits)
  qed
  show ?thesis
  proof
    assume "served i (s i)"
    with full_map_covers [OF ok] have "fst ` set (xn_low (s i)) = {0..<i}" by (simp add: served_def)
    with keys show "\<forall>k < i. i < xn_next (s k)" by (metis atLeastLessThan_iff le0)
  next
    assume "\<forall>k < i. i < xn_next (s k)"
    then have "fst ` set (xn_low (s i)) = {0..<i}"
      by (intro set_eqI) (auto simp only: keys atLeastLessThan_iff)
    with card_keys [OF ok] show "served i (s i)" by (simp add: served_def range_len_def)
  qed
qed

text \<open>Without a step everybody is done: the smallest node that is not can connect.\<close>

lemma xstuck_done:
  assumes inv: "xinv n dat s" and stuck: "\<nexists>s'. xstep n dat s s'" and "i < n"
  shows "xdone n i (s i)"
  using assms(3)
proof (induction i rule: less_induct)
  case (less i)
  have lower: "n \<le> xn_next (s k)" if "k < i" for k
    using less.IH [OF that] that less.prems by (simp add: xdone_def)
  with less.prems have served: "served i (s i)"
    unfolding served_iff [OF inv less.prems] by (metis less_le_trans)
  have "n \<le> xn_next (s i)"
  proof (rule ccontr)
    assume "\<not> n \<le> xn_next (s i)"
    then have j: "xn_next (s i) < n" by simp
    moreover have "i < xn_next (s i)" using inv less.prems by (simp add: xinv_def)
    moreover have "\<not> served (xn_next (s i)) (s (xn_next (s i)))"
      unfolding served_iff [OF inv j] using calculation(2) by (metis less_irrefl)
    ultimately show False
      using stuck served session_step [of i "xn_next (s i)" n s dat] by blast
  qed
  with served show ?case by (simp add: xdone_def)
qed

text \<open>A node that is done returns the data of all ranks.\<close>

lemma xdone_result:
  assumes inv: "xinv n dat s" and i: "i < n" and fin: "xdone n i (s i)"
  shows "xresult n dat i (s i) = Ok (map dat [0..<n])"
proof -
  have next': "xn_next (s i) = n" using inv i fin by (auto simp: xinv_def xdone_def intro: antisym)
  have served: "k < i \<Longrightarrow> i < xn_next (s k)" for k
    using fin served_iff [OF inv i] by (simp add: xdone_def)
  have low: "map_of (xn_low (s i)) k = Some (dat k)" if "k < i" for k
    using inv i served [OF that] that by (simp add: xinv_def)
  have high: "map_of (xn_high (s i)) k = Some (dat k)" if "i < k" "k < n" for k
    using inv i next' that by (simp add: xinv_def)
  have "set [0..<i] \<subseteq> fst ` set (xn_low (s i))" "set [i + 1..<n] \<subseteq> fst ` set (xn_high (s i))"
    using low high by (metis atLeastLessThan_iff set_upt in_keys subsetI Suc_eq_plus1 Suc_le_lessD)+
  then have "take_ranks [0..<i] (xn_low (s i)) = Ok (map dat [0..<i])"
    and "take_ranks [i + 1..<n] (xn_high (s i)) = Ok (map dat [i + 1..<n])"
    using low high by (simp_all add: take_ranks_cases)
  moreover have "map dat [0..<i] @ [dat i] @ map dat [i + 1..<n] = map dat [0..<n]"
    using i upt_add_eq_append [of 0 i "n - i"] upt_conv_Cons [of i n] by simp
  ultimately show ?thesis by (simp add: xresult_def)
qed

text \<open>The number of sessions that took place.\<close>

definition sessions :: "nat \<Rightarrow> (nat \<Rightarrow> 'd xnode) \<Rightarrow> nat" where
  "sessions n s = (\<Sum>i < n. xn_next (s i) - (i + 1))"

lemma xreach_sessions: "xreach n dat k s \<Longrightarrow> sessions n s = k"
proof (induction rule: xreach.induct)
  case xreach_init
  then show ?case by (simp add: sessions_def xinit_def)
next
  case (xreach_step k s s')
  from xreach_step.hyps(2) show ?case
  proof (cases rule: xstep.cases)
    case (session_step i j)
    have i: "i \<in> {..<n}" using session_step by simp
    have "xn_next (s' m) - (m + 1) = (if m = i then Suc (xn_next (s m) - (m + 1))
        else xn_next (s m) - (m + 1))" for m
      using session_step by auto
    then have "sessions n s' = Suc (sessions n s)"
      using i by (simp add: sessions_def sum.remove)
    with xreach_step.IH show ?thesis by simp
  qed
qed

lemma sessions_bound:
  assumes "xinv n dat s"
  shows "sessions n s \<le> n * (n - 1) div 2"
proof -
  have "sessions n s \<le> (\<Sum>i < n. n - (i + 1))"
    unfolding sessions_def using assms by (intro sum_mono) (auto simp: xinv_def intro: diff_le_mono)
  also have "(\<Sum>i < n. n - (i + 1)) = n * (n - 1) div 2"
  proof -
    have "(\<Sum>i < n. n - (i + 1)) = (\<Sum>i < n. i)"
      by (rule sum.reindex_bij_witness [of _ "\<lambda>i. n - (i + 1)" "\<lambda>i. n - (i + 1)"]) auto
    also have "\<dots> = n * (n - 1) div 2" by (simp add: Sum_Ico_nat lessThan_atLeast0)
    finally show ?thesis .
  qed
  finally show ?thesis .
qed

end
