(* ===== verification/Owned_Refinement.thy ===== *)
theory Owned_Refinement
  imports Owned_Channels Multi_Channel
begin

text \<open>
  The builders on owners (\<open>Owned_Channels\<close>) refine the builders on values (\<open>Channel\<close>, \<open>Multi_Channel\<close>):
  they make the same calls to the device, and what they own reads back as what the others return.
\<close>

section \<open>Values persist while they are owned\<close>

text \<open>Two states of a history, the later one keeping what the earlier one holds under \<open>a\<close>.\<close>

definition later :: "arc list \<Rightarrow> arc list \<Rightarrow> 'h rsrc \<Rightarrow> 'h rsrc \<Rightarrow> bool" where
  "later hs hs' s s' \<longleftrightarrow> own_inv hs s \<and> own_inv hs' s' \<and> evolves s s'"

lemma later_content:
  assumes "later hs hs' s s'" "arc_content a s = Some x" "arc_content a s' \<noteq> None"
  shows "arc_content a s' = Some x"
proof -
  from assms(1) have l: "own_inv hs s" "evolves s s'" by (simp_all add: later_def)
  from assms(3) obtain y where y: "arc_content a s' = Some y" by blast
  with l(2) alive_below_next [OF l(1) assms(2)] assms(2) show ?thesis by (simp add: evolves_def)
qed

lemma later_field:
  assumes "later hs hs' s s'" "arc_content a s = Some x" "arc_content a s' \<noteq> None"
    and "(f, k) \<in> set (typed_fields x)"
  shows "arc_content f s' \<noteq> None"
  using own_inv_field(1) [OF _ later_content [OF assms(1-3)] assms(4)] assms(1)
  by (auto simp: later_def kind_at_def)

lemma later_context:
  assumes "later hs hs' s s'" "context_of s a = Some ctx" "arc_content a s' \<noteq> None"
  shows "context_of s' a = Some ctx"
proof -
  from assms(2) obtain x where x: "arc_content a s = Some x" by (auto simp: context_of_def split: option.splits)
  with later_content [OF assms(1) x assms(3)] assms(2) show ?thesis by (simp add: context_of_def)
qed

lemma later_pd:
  assumes "later hs hs' s s'" "pd_of s a = Some pd" "arc_content a s' \<noteq> None"
  shows "pd_of s' a = Some pd"
proof -
  from assms(2) obtain c h where x: "arc_content a s = Some (ProtectionDomainInner c h)"
    by (auto simp: pd_of_def split: option.splits inner.splits)
  have "arc_content c s' \<noteq> None" using later_field [OF assms(1) x assms(3)] by simp
  with assms(2) x later_content [OF assms(1) x assms(3)] later_context [OF assms(1), of c]
  show ?thesis by (auto simp: pd_of_def)
qed

lemma later_cq:
  assumes "later hs hs' s s'" "cq_of s a = Some cq" "arc_content a s' \<noteq> None"
  shows "cq_of s' a = Some cq"
proof -
  from assms(2) obtain c h n where x: "arc_content a s = Some (CompletionQueueInner c h n)"
    by (auto simp: cq_of_def split: option.splits inner.splits)
  have "arc_content c s' \<noteq> None" using later_field [OF assms(1) x assms(3)] by simp
  with assms(2) x later_content [OF assms(1) x assms(3)] later_context [OF assms(1), of c]
  show ?thesis by (auto simp: cq_of_def)
qed

lemma later_qp:
  assumes "later hs hs' s s'" "qp_of s a = Some qp" "arc_content a s' \<noteq> None"
  shows "qp_of s' a = Some qp"
proof -
  from assms(2) obtain p sc rc q where x: "arc_content a s = Some (OwnedQueuePair p sc rc q)"
    by (auto simp: qp_of_def split: option.splits inner.splits)
  have f: "arc_content p s' \<noteq> None" "arc_content sc s' \<noteq> None" "arc_content rc s' \<noteq> None"
    using later_field [OF assms(1) x assms(3), of p KProtectionDomain]
      later_field [OF assms(1) x assms(3), of sc KCompletionQueue]
      later_field [OF assms(1) x assms(3), of rc KCompletionQueue] by simp_all
  from assms(2) x obtain pd c1 c2 where v: "pd_of s p = Some pd" "cq_of s sc = Some c1" "cq_of s rc = Some c2"
    by (auto simp: qp_of_def split: option.splits)
  from later_pd [OF assms(1) v(1) f(1)] later_cq [OF assms(1) v(2) f(2)] later_cq [OF assms(1) v(3) f(3)]
    later_content [OF assms(1) x assms(3)] assms(2) x v
  show ?thesis by (simp add: qp_of_def)
qed

lemma later_handle: "later hs hs' s s' \<Longrightarrow> a \<in> set hs' \<Longrightarrow> arc_content a s' \<noteq> None"
  using owned_is_alive [OF owned_by.owned_handle] unfolding later_def by blast

section \<open>A channel\<close>

definition reads_channel :: "'h rsrc \<Rightarrow> owned_channel \<Rightarrow> prepared_channel \<Rightarrow> bool" where
  "reads_channel s oc c \<longleftrightarrow>
     cq_of s (fst oc) = Some (cc_cq (pch_cq c)) \<and> qp_of s (snd oc) = Some (pqp_qp (pch_qp c))"

lemma later_channel:
  assumes "later hs hs' s s'" "reads_channel s oc c" "fst oc \<in> set hs'" "snd oc \<in> set hs'"
  shows "reads_channel s' oc c"
  using assms later_cq [OF assms(1) _ later_handle [OF assms(1,3)]]
    later_qp [OF assms(1) _ later_handle [OF assms(1,4)]]
  by (simp add: reads_channel_def)

lemma channel_builder_Ok:
  "channel_builder v pd n params h = (Ok c, h') \<longleftrightarrow>
     (\<exists>cq qp h1. cq_create v (pd_context pd) n h = (Ok cq, h1) \<and>
        qp_builder v pd cq cq params h1 = (Ok qp, h') \<and> c = \<lparr>pch_cq = cached_wrap_cq cq, pch_qp = qp\<rparr>)"
  by (auto simp: channel_builder_def bind_s_eq_Ok ret_s_def)

lemma cq_create_value:
  "cq_create v ctx n h = (Ok cq, h') \<Longrightarrow>
     cq = \<lparr>cq_context = ctx, cq_handle = cq_handle cq, cq_min_capacity = cq_min_capacity cq\<rparr>"
  by (auto simp: cq_create_def split: if_splits prod.splits option.splits)

lemma own_build_channel_refines:
  assumes v: "errno_known v" and inv: "own_inv hs s" and h: "pd \<in> set hs"
    and p: "pd_of s pd = Some p" and c: "channel_builder v p n params (rs_hw s) = (Ok c, h')"
  shows "\<exists>oc s'. own_build_channel v pd n params s = (Ok oc, s') \<and> reads_channel s' oc c \<and> rs_hw s' = h'"
proof -
  from c obtain cq qp h1 where cq: "cq_create v (pd_context p) n (rs_hw s) = (Ok cq, h1)"
    and qp: "qp_builder v p cq cq params h1 = (Ok qp, h')"
    and c': "c = \<lparr>pch_cq = cached_wrap_cq cq, pch_qp = qp\<rparr>" unfolding channel_builder_Ok by blast
  from p obtain ctx ph where x: "arc_content pd s = Some (ProtectionDomainInner ctx ph)"
    and ctx: "context_of s ctx = Some (pd_context p)"
    by (auto simp: pd_of_def split: option.splits inner.splits)
  have kc: "kind_at s ctx = Some KContext" by (rule own_inv_field(1) [OF inv x]) simp
  obtain s1 where 1: "own_create_cq v ctx n s = (Ok (rs_next s), s1)" "own_inv (rs_next s # hs) s1"
    "extended (rs_next s) (CompletionQueueInner ctx (cq_handle cq) (cq_min_capacity cq)) s s1" "rs_hw s1 = h1"
    using own_create_Ok [where get = "\<lambda>s. context_of s ctx" and m = "\<lambda>ctx. cq_create v ctx n"
        and mk = "\<lambda>cq c. CompletionQueueInner c (cq_handle cq) (cq_min_capacity cq)", OF inv ctx kc _ cq]
    by (auto simp: own_create_forms)
  have sc: "cq_of s1 (rs_next s) = Some cq"
    using 1(3) context_of_extended [OF 1(3) ctx] cq_create_value [OF cq]
    by (simp add: cq_of_def extended_def)
  have p1: "pd_of s1 pd = Some p" by (rule pd_of_extended [OF 1(3) p])
  have k1: "kind_at s1 pd = Some KProtectionDomain" "kind_at s1 (rs_next s) = Some KCompletionQueue"
    using content_extended [OF 1(3) x] 1(3) by (simp_all add: kind_at_def extended_def)
  from own_build_qp_Ok [OF 1(2) k1(1) k1(2) k1(2) p1 sc sc qp [folded 1(4)]] obtain s2 where
    2: "own_build_qp v pd (rs_next s) (rs_next s) params s1 = (Ok (rs_next s1), s2)" "rs_hw s2 = h'"
    "extended (rs_next s1) (OwnedQueuePair pd (rs_next s) (rs_next s) (qp_handle (pqp_qp qp))) s1 s2" by blast
  have "qp_of s2 (rs_next s1) = Some (pqp_qp qp)"
    by (rule qp_of_extended [OF 2(3) p1 sc sc qp_builder_value [OF qp]])
  moreover have "cq_of s2 (rs_next s) = Some cq" by (rule cq_of_extended [OF 2(3) sc])
  moreover have "own_build_channel v pd n params s = (Ok (rs_next s, rs_next s1), s2)"
    using x 1(1) 2(1) by (simp add: own_build_channel_def bind_s_def deref_def)
  ultimately show ?thesis using c' 2(2) by (auto simp: reads_channel_def cached_wrap_cq_def)
qed

section \<open>A multi-channel\<close>

lemma channel_owners_member:
  "oc \<in> set acc \<Longrightarrow> fst oc \<in> set (channel_owners acc) \<and> snd oc \<in> set (channel_owners acc)"
  by (induction acc) auto

lemma same_reads:
  assumes same: "\<And>a. arc_content a s' = arc_content a s"
  shows "pd_of s' a = pd_of s a" "reads_channel s' = reads_channel s"
proof -
  have c: "context_of s' a = context_of s a" for a by (simp add: context_of_def same)
  have p: "pd_of s' a = pd_of s a" for a
    by (auto simp: pd_of_def same c split: option.splits inner.splits)
  have q: "cq_of s' a = cq_of s a" for a
    by (auto simp: cq_of_def same c split: option.splits inner.splits)
  have "qp_of s' a = qp_of s a" for a
    by (auto simp: qp_of_def same p q split: option.splits inner.splits)
  with q show "reads_channel s' = reads_channel s" by (simp add: fun_eq_iff reads_channel_def)
  show "pd_of s' a = pd_of s a" by (rule p)
qed

lemma own_collect_channels_refines:
  assumes v: "errno_known v"
  shows "own_inv (channel_owners acc @ hs) s \<Longrightarrow> holds hs s pd KProtectionDomain \<Longrightarrow>
    pd_of s pd = Some p \<Longrightarrow> list_all2 (reads_channel s) acc cs \<Longrightarrow>
    collect_s (\<lambda>_. channel_builder v p n params) xs (rs_hw s) = (Ok cs', h') \<Longrightarrow>
    \<exists>ocs s'. own_collect_channels v pd n params (length xs) acc s = (Ok ocs, s') \<and>
      list_all2 (reads_channel s') ocs (cs @ cs') \<and> rs_hw s' = h' \<and> pd_of s' pd = Some p"
proof (induction xs arbitrary: acc s cs cs')
  case Nil
  then show ?case by (simp add: ret_s_def)
next
  case (Cons x xs)
  from Cons.prems(5) obtain c h1 cs1 where c: "channel_builder v p n params (rs_hw s) = (Ok c, h1)"
    and cs1: "collect_s (\<lambda>_. channel_builder v p n params) xs h1 = (Ok cs1, h')" "cs' = c # cs1"
    by (auto simp: bind_s_eq_Ok ret_s_def)
  have pd: "pd \<in> set (channel_owners acc @ hs)" using Cons.prems(2) by (simp add: holds_def)
  from own_build_channel_refines [OF v Cons.prems(1) pd Cons.prems(3) c] obtain oc s1 where
    1: "own_build_channel v pd n params s = (Ok oc, s1)" "reads_channel s1 oc c" "rs_hw s1 = h1" by blast
  have h: "holds (channel_owners acc @ hs) s pd KProtectionDomain"
    using Cons.prems(2) by (simp add: holds_def)
  obtain a b where ab: "oc = (a, b)" by (rule prod.exhaust)
  from own_build_channel_builds [OF v Cons.prems(1) h 1(1)] ab
  have ev: "evolves s s1" and o: "own_inv (a # b # channel_owners acc @ hs) s1" by (simp_all add: builds_def)
  have inv1: "own_inv (channel_owners (acc @ [oc]) @ hs) s1"
    using own_inv_mset [of "a # b # channel_owners acc @ hs" "channel_owners (acc @ [oc]) @ hs" s1] o ab by simp
  have l: "later (channel_owners acc @ hs) (channel_owners (acc @ [oc]) @ hs) s s1"
    using Cons.prems(1) inv1 ev by (simp add: later_def)
  have "list_all2 (reads_channel s1) acc cs"
    using Cons.prems(4)
  proof (rule list.rel_mono_strong)
    fix oc' c' assume "oc' \<in> set acc" "reads_channel s oc' c'"
    with channel_owners_member [of oc' acc] show "reads_channel s1 oc' c'"
      by (intro later_channel [OF l]) simp_all
  qed
  with 1(2) have r: "list_all2 (reads_channel s1) (acc @ [oc]) (cs @ [c])"
    by (simp add: list_all2_appendI)
  have p1: "pd_of s1 pd = Some p"
    using later_pd [OF l Cons.prems(3) later_handle [OF l]] Cons.prems(2) by (simp add: holds_def)
  have h1: "holds hs s1 pd KProtectionDomain"
    using Cons.prems(2) kind_evolves [OF ev Cons.prems(1) inv1] by (simp add: holds_def)
  from Cons.IH [OF inv1 h1 p1 r] cs1 1(1,3) show ?case by simp
qed

lemma own_build_multi_channel_refines:
  assumes v: "errno_known v" and inv: "own_inv hs s" and pd: "holds hs s pd KProtectionDomain"
    and p: "pd_of s pd = Some p"
    and m: "multi_channel_builder v k p n params (rs_hw s) = (Ok mc, h')"
  shows "\<exists>ocs s'. own_build_multi_channel v pd k n params s = (Ok (ocs, pd), s') \<and>
           list_all2 (reads_channel s') ocs (pmc_channels mc) \<and> pd_of s' pd = Some (pmc_pd mc) \<and> rs_hw s' = h'"
proof -
  from m have c: "collect_s (\<lambda>_. channel_builder v p n params) [0..<k] (rs_hw s) = (Ok (pmc_channels mc), h')"
    and mp: "pmc_pd mc = p" by (auto simp: multi_channel_builder_def bind_s_eq_Ok ret_s_def)
  have "own_inv (channel_owners [] @ hs) s" using inv by simp
  from own_collect_channels_refines [OF v this pd p _ c, of "[]"] obtain ocs s1 where
    1: "own_collect_channels v pd n params k [] s = (Ok ocs, s1)"
    "list_all2 (reads_channel s1) ocs (pmc_channels mc)" "rs_hw s1 = h'" "pd_of s1 pd = Some p" by auto
  have "own_inv (channel_owners [] @ hs) s" using inv by simp
  from own_collect_channels_builds [OF v this pd 1(1)] have
    o: "own_inv (channel_owners ocs @ hs) s1" and ev: "evolves s s1" by auto
  have k: "kind_at s1 pd = Some KProtectionDomain"
    using kind_evolves [OF ev inv o] pd by (simp add: holds_def)
  from arc_clone_inv [OF o k] obtain s2 where 2: "arc_clone pd s1 = (Ok pd, s2)"
    "own_inv (pd # channel_owners ocs @ hs) s2" "same_cells s1 s2" "rs_hw s2 = rs_hw s1" by blast
  have "arc_content a s2 = arc_content a s1" for a using 2(3) by (simp add: same_cells_def)
  from same_reads [OF this] 1 2 mp show ?thesis
    by (simp add: own_build_multi_channel_def bind_s_def ret_s_def)
qed

end
