(* ===== verification/Owned_Node.thy ===== *)
theory Owned_Node
  imports Owned_Refinement Node_Lemmas
begin

text \<open>
  The owners inside a node (\<open>src/network/builder.rs\<close>, \<open>src/network/mod.rs\<close>,
  \<open>src/network/barrier/memory.rs\<close>): those of its multi-channel, the box with the epoch flags and the
  memory region registered on it.  What the builder's error paths drop, and the order in which the fields
  of a node are dropped.
\<close>

section \<open>Building a node\<close>

text \<open>
  \<open>PreparedBarrierMr::new\<close>, which the three algorithms call: the box is allocated at \<open>addr\<close>, then
  registered; a failing registration drops it.
\<close>

type_synonym owned_barrier = "arc \<times> arc"

definition own_barrier_mr_new ::
  "'h verbs \<Rightarrow> usize \<Rightarrow> arc \<Rightarrow> nat \<Rightarrow> ('h rsrc, owned_barrier, own_error) comp" where
  "own_barrier_mr_new v addr pd world =
     (let len = word_of_nat (flags_size * world) in
      bind_s (arc_new (BoxedMemory addr len)) (\<lambda>memory s.
        case own_register_mr (\<lambda>p. register_shared_mr v (pd_handle p) addr len) pd s of
          (Ok mr, s1) \<Rightarrow> (Ok (memory, mr), s1)
        | (Err e, s1) \<Rightarrow> bind_s (drop_arcs v [memory]) (\<lambda>_. lift_s (Err e)) s1
        | (Panic, s1) \<Rightarrow> (Panic, s1)
        | (NoFuel, s1) \<Rightarrow> (NoFuel, s1)))"

text \<open>\<open>Node::builder\<close>: when the barrier fails, the multi-channel that was built is dropped.\<close>

type_synonym owned_node = "(owned_channel list \<times> arc) \<times> owned_barrier"

text \<open>
  The owners of a \<open>PreparedNode\<close> in the order its fields are declared, and those of a \<open>Node\<close>: the
  handshake moves them, and a \<open>Channel\<close> has its queue pair before its completion queue (the \<open>Rc\<close> around
  which is the last one when no pending work is left).
\<close>

definition barrier_owners :: "owned_barrier \<Rightarrow> arc list" where
  "barrier_owners b = [fst b, snd b]"

definition node_owners :: "owned_node \<Rightarrow> arc list" where
  "node_owners n = multi_channel_owners (fst n) @ barrier_owners (snd n)"

definition connected_channel_owners :: "owned_channel list \<Rightarrow> arc list" where
  "connected_channel_owners chs = concat (map (\<lambda>(cq, qp). [qp, cq]) chs)"

definition connected_node_owners :: "owned_node \<Rightarrow> arc list" where
  "connected_node_owners n =
     connected_channel_owners (fst (fst n)) @ [snd (fst n)] @ barrier_owners (snd n)"

definition own_build_node ::
  "'h verbs \<Rightarrow> usize \<Rightarrow> nat \<Rightarrow> arc \<Rightarrow> node_params \<Rightarrow> ('h rsrc, owned_node, own_error) comp" where
  "own_build_node v addr world pd p =
     bind_s (own_build_multi_channel v pd world (np_min_cq_entries p) (np_qp p)) (\<lambda>multi_channel s.
       case own_barrier_mr_new v addr pd world s of
         (Ok barrier, s1) \<Rightarrow> (Ok (multi_channel, barrier), s1)
       | (Err e, s1) \<Rightarrow>
           bind_s (drop_arcs v (multi_channel_owners multi_channel)) (\<lambda>_. lift_s (Err e)) s1
       | (Panic, s1) \<Rightarrow> (Panic, s1)
       | (NoFuel, s1) \<Rightarrow> (NoFuel, s1))"

section \<open>Owners that nothing else shares\<close>

text \<open>Only contexts, protection domains and completion queues are shared.\<close>

lemma shared_kinds:
  "(f, k) \<in> set (typed_fields x) \<Longrightarrow> k \<in> {KContext, KProtectionDomain, KCompletionQueue}"
  by (cases x) auto

lemma unshared_dead:
  assumes inv: "own_inv hs s" and a: "a \<notin> set hs"
    and k: "k \<notin> {KContext, KProtectionDomain, KCompletionQueue}"
  shows "kind_at s a \<noteq> Some k"
proof
  assume "kind_at s a = Some k"
  then obtain x where x: "arc_content a s = Some x" "kind_of x = k" by (rule kind_atE)
  have "owned_by s hs a" by (rule alive_is_owned [OF inv x(1)])
  then show False
  proof cases
    case (owned_field b y)
    then obtain k' where f: "(a, k') \<in> set (typed_fields y)" by (auto simp: owned_fields_def)
    with own_inv_field(1) [OF inv _ f] owned_field x have "k' = k" by (simp add: kind_at_def)
    with shared_kinds [OF f] k show False by simp
  qed (use a in simp)
qed

lemma handle_below_next: "own_inv hs s \<Longrightarrow> a \<in> set hs \<Longrightarrow> a < rs_next s"
  using owned_is_alive [OF owned_by.owned_handle] alive_below_next by (metis not_None_eq)

section \<open>What a drop leaves in the trace\<close>

lemma drop_arcs_trace:
  "drop_arcs v as s = (Ok u, s') \<Longrightarrow>
     \<exists>es. rs_trace s' = es @ rs_trace s \<and>
       (\<forall>a x. arc_content a s = Some x \<longrightarrow> arc_content a s' = None \<longrightarrow> Destroyed a x \<in> set es)"
proof (induction v as s rule: drop_arcs.induct)
  case (1 v s)
  then show ?case by simp
next
  case (2 v b as s)
  from "2.prems" obtain n y where b: "map_of (rs_cells s) b = Some (n, y)"
    by (auto split: option.splits)
  show ?case
  proof (cases "1 < n")
    case True
    with "2.IH"(1) [OF b refl True] "2.prems" b show ?thesis by (simp add: content_update_count)
  next
    case False
    with "2.prems" b obtain h' where h: "drop_inner v y (rs_hw s) = (Ok (), h')"
      by (auto split: prod.splits outcome.splits)
    let ?s = "s\<lparr>rs_cells := AList.delete b (rs_cells s), rs_hw := h',
                rs_trace := Destroyed b y # rs_trace s\<rparr>"
    from "2.IH"(2) [OF b refl False h [symmetric] refl] "2.prems" b False h obtain es where
      es: "rs_trace s' = es @ rs_trace ?s"
      "\<forall>a x. arc_content a ?s = Some x \<longrightarrow> arc_content a s' = None \<longrightarrow> Destroyed a x \<in> set es"
      by auto
    have "Destroyed a x \<in> set (es @ [Destroyed b y])"
      if "arc_content a s = Some x" "arc_content a s' = None" for a x
      using that es(2) b by (cases "a = b") (auto simp: content_delete arc_content_def)
    moreover have "rs_trace s' = (es @ [Destroyed b y]) @ rs_trace s" using es(1) by simp
    ultimately show ?thesis by blast
  qed
qed

section \<open>What the builders make\<close>

lemma own_barrier_mr_new_makes:
  assumes v: "errno_known v" and inv: "own_inv hs s" and pd: "holds hs s pd KProtectionDomain"
    and b: "own_barrier_mr_new v addr pd world s = (r, s')"
  shows "builds barrier_owners hs s r s' \<and>
    (\<forall>bar. r = Ok bar \<longrightarrow> made KBoxedMemory s s' (fst bar) \<and> made KMemoryRegion s s' (snd bar))"
proof -
  let ?len = "word_of_nat (flags_size * world) :: usize"
  let ?reg = "\<lambda>p. register_shared_mr v (pd_handle p) addr ?len"
  have k: "kind_at s pd = Some KProtectionDomain" and h: "pd \<in> set hs" using pd by (simp_all add: holds_def)
  have "own_inv (owned_fields (BoxedMemory addr ?len) @ hs) s" using inv by simp
  from arc_new_inv [OF this] obtain s1 where
    1: "arc_new (BoxedMemory addr ?len) s = (Ok (rs_next s), s1)" "own_inv (rs_next s # hs) s1"
    "extended (rs_next s) (BoxedMemory addr ?len) s s1" by auto
  have ev: "evolves s s1" using 1(3) by (rule evolves_extended)
  have mem: "made KBoxedMemory s s1 (rs_next s)" using made_extended [OF 1(3)] by simp
  have k1: "kind_at s1 pd = Some KProtectionDomain" using kind_evolves [OF ev inv 1(2) _ k] h by simp
  obtain p where p: "pd_of s1 pd = Some p" using pd_of_kind [OF 1(2) k1] by blast
  obtain r2 s2 where 2: "own_register_mr ?reg pd s1 = (r2, s2)" by (rule prod.exhaust)
  have "creates KMemoryRegion (rs_next s # hs) s1 r2 s2"
    by (rule own_create_creates [where get = "\<lambda>s. pd_of s pd" and m = ?reg and k = KProtectionDomain
          and mk = "\<lambda>m p. OwnedMemoryRegion p (mreg_mr m)", OF 1(2) p k1])
      (use 2 constructors_answer(3) [OF v] in \<open>simp_all add: own_create_forms register_shared_mr_def\<close>)
  then show ?thesis
    unfolding creates_def
  proof (elim disjE exE conjE)
    fix x assume x: "r2 = Ok (rs_next s1)" "own_inv (rs_next s1 # rs_next s # hs) s2"
      "extended (rs_next s1) x s1 s2" "kind_of x = KMemoryRegion"
    have ev2: "evolves s1 s2" using x(3) by (rule evolves_extended)
    have "own_inv (rs_next s # rs_next s1 # hs) s2"
      using own_inv_mset [of "rs_next s1 # rs_next s # hs" "rs_next s # rs_next s1 # hs" s2] x(2) by simp
    moreover have "made KBoxedMemory s s2 (rs_next s)" by (rule made_after [OF mem ev2 1(2) x(2)]) simp
    moreover have "made KMemoryRegion s s2 (rs_next s1)"
      using made_before [OF ev made_extended [OF x(3)]] x(4) by simp
    ultimately show ?thesis using b 1(1) 2 x(1) evolves_trans [OF ev ev2]
      by (auto simp: own_barrier_mr_new_def Let_def bind_s_def builds_def barrier_owners_def)
  next
    fix e assume e: "r2 = Err (Ibv e)" "own_inv (rs_next s # hs) s2" "evolves s1 s2"
    from e(2) have "own_inv ([rs_next s] @ hs) s2" by simp
    from drop_builds [OF v this evolves_trans [OF ev e(3)]] obtain s3 where
      "drop_arcs v [rs_next s] s2 = (Ok (), s3)" "own_inv hs s3" "evolves s s3" by blast
    with b 1(1) 2 e(1) show ?thesis
      by (auto simp: own_barrier_mr_new_def Let_def bind_s_def builds_def lift_s_def simp del: drop_arcs.simps)
  qed
qed

lemma own_build_node_builds:
  assumes v: "errno_known v" and inv: "own_inv hs s" and pd: "holds hs s pd KProtectionDomain"
    and b: "own_build_node v addr world pd p s = (r, s')"
  shows "builds node_owners hs s r s' \<and> (\<forall>n. r = Ok n \<longrightarrow>
     (\<forall>ch \<in> set (fst (fst n)). made KQueuePair s s' (snd ch)) \<and>
     made KBoxedMemory s s' (fst (snd n)) \<and> made KMemoryRegion s s' (snd (snd n)) \<and>
     length (fst (fst n)) = world)"
proof -
  obtain r1 s1 where 1: "own_build_multi_channel v pd world (np_min_cq_entries p) (np_qp p) s = (r1, s1)"
    by (rule prod.exhaust)
  note m = own_build_multi_channel_builds [OF v inv pd 1]
  then have ev: "evolves s s1" by (simp add: builds_def)
  show ?thesis
  proof (cases r1)
    case (Ok mc)
    with m have inv1: "own_inv (multi_channel_owners mc @ hs) s1" by (simp add: builds_def)
    have h: "holds (multi_channel_owners mc @ hs) s1 pd KProtectionDomain"
      using pd kind_evolves [OF ev inv inv1] by (simp add: holds_def)
    obtain r2 s2 where 2: "own_barrier_mr_new v addr pd world s1 = (r2, s2)" by (rule prod.exhaust)
    note c = own_barrier_mr_new_makes [OF v inv1 h 2]
    then have ev2: "evolves s1 s2" by (simp add: builds_def)
    show ?thesis
    proof (cases r2)
      case (Ok bar)
      from c Ok have o: "own_inv (barrier_owners bar @ multi_channel_owners mc @ hs) s2"
        and mo: "made KBoxedMemory s s2 (fst bar)" "made KMemoryRegion s s2 (snd bar)"
        using made_before [OF ev] by (simp_all add: builds_def)
      have inv2: "own_inv (node_owners (mc, bar) @ hs) s2"
        using own_inv_mset [of "barrier_owners bar @ multi_channel_owners mc @ hs"
            "node_owners (mc, bar) @ hs" s2] o by (simp add: node_owners_def)
      have "made KQueuePair s s2 (snd ch)" if "ch \<in> set (fst mc)" for ch
        using own_build_multi_channel_made [OF v inv pd _ that] 1 \<open>r1 = Ok mc\<close>
          channel_owner_qp [OF that]
        by (intro made_after [OF _ ev2 inv1 inv2]) (auto simp: node_owners_def multi_channel_owners_def)
      moreover have "r = Ok (mc, bar)" "s' = s2"
        using b 1 2 \<open>r1 = Ok mc\<close> Ok by (simp_all add: own_build_node_def bind_s_def)
      ultimately show ?thesis
        using \<open>r1 = Ok mc\<close> inv2 mo m evolves_trans [OF ev ev2] by (simp add: builds_def)
    next
      case (Err e)
      with c obtain e' where e: "e = Ibv e'" "own_inv (multi_channel_owners mc @ hs) s2"
        by (auto simp: builds_def)
      from drop_builds [OF v e(2) evolves_trans [OF ev ev2]] obtain s3 where
        "drop_arcs v (multi_channel_owners mc) s2 = (Ok (), s3)" "own_inv hs s3" "evolves s s3" by blast
      with b 1 2 \<open>r1 = Ok mc\<close> Err e(1) show ?thesis
        by (auto simp: own_build_node_def bind_s_def builds_def lift_s_def)
    qed (use c in \<open>simp_all add: builds_def\<close>)
  qed (use b 1 m in \<open>auto simp: own_build_node_def bind_s_def builds_def\<close>)
qed

section \<open>The order in which a node is dropped\<close>

text \<open>The release of \<open>a\<close> precedes that of \<open>b\<close>; the trace has the latest event first.\<close>

definition released_before :: "arc \<Rightarrow> arc \<Rightarrow> res_event list \<Rightarrow> bool" where
  "released_before a b tr \<longleftrightarrow>
     (\<exists>us vs x y. tr = us @ vs \<and> Destroyed b y \<in> set us \<and> Destroyed a x \<in> set vs)"

lemma released_beforeI:
  "tr = us @ vs \<Longrightarrow> Destroyed b y \<in> set us \<Longrightarrow> Destroyed a x \<in> set vs \<Longrightarrow> released_before a b tr"
  unfolding released_before_def by blast

text \<open>A handle that nothing shares is released when it is dropped.\<close>

lemma unshared_is_released:
  assumes v: "errno_known v" and inv: "own_inv (as @ hs) s"
    and a: "a \<in> set as" "a \<notin> set hs" "kind_at s a = Some k"
    and k: "k \<notin> {KContext, KProtectionDomain, KCompletionQueue}"
    and d: "drop_arcs v as s = (Ok (), s')" and tr: "rs_trace s' = es @ rs_trace s"
  shows "\<exists>x. Destroyed a x \<in> set es"
proof -
  from drop_arcs_inv [OF v inv] d have inv': "own_inv hs s'" by auto
  from a(3) obtain x where x: "arc_content a s = Some x" "kind_of x = k" by (rule kind_atE)
  have "arc_content a s' = None"
  proof (rule ccontr)
    assume "arc_content a s' \<noteq> None"
    then obtain y where y: "arc_content a s' = Some y" by blast
    with drop_arcs_evolves [OF d] alive_below_next [OF inv x(1)] x have "kind_at s' a = Some k"
      by (auto simp: evolves_def kind_at_def)
    with unshared_dead [OF inv' a(2) k] show False by simp
  qed
  with drop_arcs_trace [OF d] x(1) tr show ?thesis by auto
qed

text \<open>
  The queue pairs of a node go first, then the box with the flags, then the region registered on it.
\<close>

lemma node_release_order:
  assumes v: "errno_known v" and inv: "own_inv ((front @ [mem, mr]) @ hs) s"
    and hs: "mem \<notin> set hs" "mr \<notin> set hs"
    and qp: "\<forall>q \<in> qs. q \<in> set front \<and> q \<notin> set hs \<and> kind_at s q = Some KQueuePair"
    and bar: "kind_at s mem = Some KBoxedMemory" "kind_at s mr = Some KMemoryRegion"
    and d: "drop_arcs v (front @ [mem, mr]) s = (Ok (), s')"
  shows "(\<forall>q \<in> qs. released_before q mem (rs_trace s')) \<and> released_before mem mr (rs_trace s')"
proof -
  have inv0: "own_inv (front @ mem # mr # hs) s" using inv by simp
  obtain s1 where 1: "drop_arcs v front s = (Ok (), s1)" "own_inv (mem # mr # hs) s1"
    using drop_arcs_inv [OF v inv0] by blast
  from 1(2) have i1: "own_inv ([mem] @ mr # hs) s1" by simp
  obtain s2 where 2: "drop_arcs v [mem] s1 = (Ok (), s2)" "own_inv (mr # hs) s2"
    using drop_arcs_inv [OF v i1] by blast
  have 3: "drop_arcs v [mr] s2 = (Ok (), s')"
    using d 1(1) 2(1) drop_arcs_more [of v front "[mem, mr]" s]
      drop_arcs_more [of v "[mem]" "[mr]" s1] by (simp add: bind_s_def del: drop_arcs.simps)
  obtain e1 e2 e3 where e: "rs_trace s1 = e1 @ rs_trace s" "rs_trace s2 = e2 @ rs_trace s1"
    "rs_trace s' = e3 @ rs_trace s2"
    using drop_arcs_trace [OF 1(1)] drop_arcs_trace [OF 2(1)] drop_arcs_trace [OF 3] by blast
  have keep: "kind_at t a = Some k"
    if "kind_at s a = Some k" "evolves s t" "own_inv hs' t" "a \<in> set hs'" for t a k hs'
    by (rule kind_evolves [OF that(2) inv that(3,4,1)])
  have ev: "evolves s s1" "evolves s s2"
    using drop_arcs_evolves [OF 1(1)] drop_arcs_evolves [OF 2(1)] by (auto intro: evolves_trans)
  have ne: "mem \<noteq> mr" using bar by auto
  obtain x where mem: "Destroyed mem x \<in> set e2"
    using unshared_is_released [OF v i1 _ _ keep [OF _ ev(1) 1(2)] _ 2(1) e(2), of mem KBoxedMemory]
      bar hs ne by auto
  obtain y where mr: "Destroyed mr y \<in> set e3"
    using unshared_is_released [OF v _ _ _ keep [OF _ ev(2) 2(2)] _ 3 e(3), of hs mr KMemoryRegion]
      2(2) bar hs by auto
  have "released_before q mem (rs_trace s')" if q: "q \<in> qs" for q
  proof -
    have "q \<notin> set (mem # mr # hs)" using q qp bar by auto
    then obtain z where "Destroyed q z \<in> set e1"
      using unshared_is_released [OF v inv0 _ _ _ _ 1(1) e(1), of q KQueuePair] q qp by fastforce
    then show ?thesis
      using mem e by (intro released_beforeI [of _ "e3 @ e2" "e1 @ rs_trace s" mem x q z]) simp_all
  qed
  moreover have "released_before mem mr (rs_trace s')"
    using mem mr e by (intro released_beforeI [of _ e3 "e2 @ rs_trace s1" mr y mem x]) simp_all
  ultimately show ?thesis by simp
qed

lemma connected_channel_owners_simps [simp]:
  "connected_channel_owners [] = []"
  "connected_channel_owners ((cq, qp) # chs) = qp # cq # connected_channel_owners chs"
  by (simp_all add: connected_channel_owners_def)

text \<open>In both orders the barrier comes last and the queue pairs before it.\<close>

lemma barrier_is_last:
  assumes "order \<in> {node_owners n, connected_node_owners n}"
  obtains front where "order = front @ [fst (snd n), snd (snd n)]" "snd ` set (fst (fst n)) \<subseteq> set front"
proof (cases "order = node_owners n")
  case True
  have "snd ` set chs \<subseteq> set (channel_owners chs)" for chs
    by (induction chs) auto
  with True show ?thesis
    using that [of "multi_channel_owners (fst n)"]
    by (fastforce simp: node_owners_def multi_channel_owners_def barrier_owners_def)
next
  case False
  with assms have "order = connected_node_owners n" by simp
  moreover have "snd ` set chs \<subseteq> set (connected_channel_owners chs)" for chs
    by (induction chs) auto
  ultimately show ?thesis
    using that [of "connected_channel_owners (fst (fst n)) @ [snd (fst n)]"]
    by (fastforce simp: connected_node_owners_def barrier_owners_def)
qed

lemma connected_mset: "mset (connected_node_owners n) = mset (node_owners n)"
proof -
  have "mset (connected_channel_owners chs) = mset (channel_owners chs)" for chs
    by (induction chs) auto
  then show ?thesis
    by (simp add: connected_node_owners_def node_owners_def multi_channel_owners_def)
qed

section \<open>Refinement\<close>

lemma register_shared_mr_value:
  "register_shared_mr v pd addr len h = (Ok m, h') \<Longrightarrow> m = \<lparr>mreg_pd = pd, mreg_mr = mreg_mr m\<rparr>"
  by (auto simp: register_shared_mr_def register_mr_with_access_def null_pointer_error_def
      split: prod.splits option.splits)

lemma own_barrier_mr_new_refines:
  assumes inv: "own_inv hs s" and pd: "kind_at s pd = Some KProtectionDomain" "pd_of s pd = Some p"
    and b: "register_shared_mr v (pd_handle p) addr (word_of_nat (flags_size * world)) (rs_hw s) = (Ok m, h')"
  shows "\<exists>mem mr s'. own_barrier_mr_new v addr pd world s = (Ok (mem, mr), s') \<and>
           mr_of s' mr = Some m \<and> rs_hw s' = h'"
proof -
  let ?len = "word_of_nat (flags_size * world) :: usize"
  let ?reg = "\<lambda>p. register_shared_mr v (pd_handle p) addr ?len"
  have "own_inv (owned_fields (BoxedMemory addr ?len) @ hs) s" using inv by simp
  from arc_new_inv [OF this] obtain s1 where
    1: "arc_new (BoxedMemory addr ?len) s = (Ok (rs_next s), s1)" "own_inv (rs_next s # hs) s1"
    "extended (rs_next s) (BoxedMemory addr ?len) s s1" "rs_hw s1 = rs_hw s" by auto
  have p1: "pd_of s1 pd = Some p" by (rule pd_of_extended [OF 1(3) pd(2)])
  obtain c q where "arc_content pd s = Some (ProtectionDomainInner c q)"
    using pd(2) by (auto simp: pd_of_def split: option.splits inner.splits)
  from content_extended [OF 1(3) this] have k1: "kind_at s1 pd = Some KProtectionDomain"
    by (simp add: kind_at_def)
  note r = b [folded 1(4)]
  from own_create_Ok [where get = "\<lambda>s. pd_of s pd" and m = ?reg and k = KProtectionDomain
      and mk = "\<lambda>m p. OwnedMemoryRegion p (mreg_mr m)", OF 1(2) p1 k1 _ r] obtain s2 where
    2: "own_register_mr ?reg pd s1 = (Ok (rs_next s1), s2)"
    "extended (rs_next s1) (OwnedMemoryRegion pd (mreg_mr m)) s1 s2" "rs_hw s2 = h'"
    by (auto simp: own_create_forms)
  have "arc_content (rs_next s1) s2 = Some (OwnedMemoryRegion pd (mreg_mr m))"
    using 2(2) by (simp add: extended_def)
  with pd_of_extended [OF 2(2) p1] register_shared_mr_value [OF r]
  have "mr_of s2 (rs_next s1) = Some m" by (simp add: mr_of_def)
  moreover have "own_barrier_mr_new v addr pd world s = (Ok (rs_next s, rs_next s1), s2)"
    using 1(1) 2(1) by (simp add: own_barrier_mr_new_def Let_def bind_s_def)
  ultimately show ?thesis using 2(3) by blast
qed

lemma own_build_node_refines:
  assumes v: "errno_known v" and inv: "own_inv hs s" and pd: "holds hs s pd KProtectionDomain"
    and p: "pd_of s pd = Some p"
    and b: "node_builder v addr rank world p params (rs_hw s) = (Ok pn, h')"
  shows "\<exists>ocs mem mr s'. own_build_node v addr world pd params s = (Ok ((ocs, pd), mem, mr), s') \<and>
           list_all2 (reads_channel s') ocs (pmc_channels (pn_multi_channel pn)) \<and>
           pd_of s' pd = Some (pmc_pd (pn_multi_channel pn)) \<and>
           mr_of s' mr = Some (pbm_mr (pbs_mr (the_prepared (pn_barrier pn)))) \<and> rs_hw s' = h'"
proof -
  from b obtain h1 where
    m: "multi_channel_builder v world p (np_min_cq_entries params) (np_qp params) (rs_hw s) =
          (Ok (pn_multi_channel pn), h1)"
    and a: "algorithm_instance (np_barrier params) v addr p rank world h1 = (Ok (pn_barrier pn), h')"
    by (auto simp: node_builder_def bind_s_eq_Ok ret_s_def)
  from own_build_multi_channel_refines [OF v inv pd p m] obtain ocs s1 where
    1: "own_build_multi_channel v pd world (np_min_cq_entries params) (np_qp params) s = (Ok (ocs, pd), s1)"
    "list_all2 (reads_channel s1) ocs (pmc_channels (pn_multi_channel pn))"
    "pd_of s1 pd = Some (pmc_pd (pn_multi_channel pn))" "rs_hw s1 = h1" by blast
  have mp: "pmc_pd (pn_multi_channel pn) = p"
    using m by (simp add: multi_channel_builder_def bind_s_eq_Ok ret_s_def) (elim exE conjE, drule sym, simp)
  from own_build_multi_channel_builds [OF v inv pd 1(1)] have
    inv1: "own_inv (multi_channel_owners (ocs, pd) @ hs) s1" and ev: "evolves s s1"
    by (simp_all add: builds_def)
  have h1: "holds (multi_channel_owners (ocs, pd) @ hs) s1 pd KProtectionDomain"
    using pd kind_evolves [OF ev inv inv1] by (simp add: holds_def)
  from algorithm_instance_Ok [OF a, folded 1(4)] obtain m where
    barrier: "register_shared_mr v (pd_handle p) addr (word_of_nat (flags_size * world)) (rs_hw s1) = (Ok m, h')"
    and m: "pbm_mr (pbs_mr (the_prepared (pn_barrier pn))) = m" by auto
  from own_barrier_mr_new_refines [OF inv1 _ 1(3) [unfolded mp] barrier] h1 m obtain mem mr s2 where
    2: "own_barrier_mr_new v addr pd world s1 = (Ok (mem, mr), s2)"
    "mr_of s2 mr = Some (pbm_mr (pbs_mr (the_prepared (pn_barrier pn))))" "rs_hw s2 = h'"
    by (auto simp: holds_def)
  have l: "later (multi_channel_owners (ocs, pd) @ hs) (barrier_owners (mem, mr) @
      multi_channel_owners (ocs, pd) @ hs) s1 s2"
    using own_barrier_mr_new_makes [OF v inv1 h1 2(1)] inv1 by (simp add: later_def builds_def)
  have "list_all2 (reads_channel s2) ocs (pmc_channels (pn_multi_channel pn))"
    using 1(2)
  proof (rule list.rel_mono_strong)
    fix oc c assume "oc \<in> set ocs" "reads_channel s1 oc c"
    with channel_owners_member [of oc ocs] show "reads_channel s2 oc c"
      by (intro later_channel [OF l]) (simp_all add: multi_channel_owners_def)
  qed
  moreover have "pd_of s2 pd = Some (pmc_pd (pn_multi_channel pn))"
    using later_pd [OF l 1(3) later_handle [OF l]] h1 by (simp add: holds_def)
  moreover have "own_build_node v addr world pd params s = (Ok ((ocs, pd), mem, mr), s2)"
    using 1(1) 2(1) by (simp add: own_build_node_def bind_s_def)
  ultimately show ?thesis using 2(2,3) by blast
qed

end
