(* ===== verification/Lifetimes.thy ===== *)
theory Lifetimes
  imports Owned_Node
begin

text \<open>
  The histories of a program that uses the library: the operations on single owners (\<open>own_step\<close>), the
  builders of channels, multi-channels and nodes, and everything else, which changes the device but not
  who owns what (posting, polling, the handshakes, the barrier; opening a device by name is \<open>OpenDevice\<close> between two
  such steps).  A structure is dropped by dropping its
  owners; the steps allow any order and any interleaving.
\<close>

section \<open>Histories\<close>

text \<open>The owners after a builder has returned.\<close>

fun built :: "('a \<Rightarrow> arc list) \<Rightarrow> ('a, own_error) outcome \<Rightarrow> arc list \<Rightarrow> arc list" where
  "built own (Ok a) hs = own a @ hs"
| "built own _ hs = hs"

inductive life_step ::
  "'h verbs \<Rightarrow> arc list \<times> 'h rsrc \<Rightarrow> arc list \<times> 'h rsrc \<Rightarrow> bool" for v where
  life_own: "own_step v c c' \<Longrightarrow> life_step v c c'"
| life_channel: "holds hs s pd KProtectionDomain \<Longrightarrow> own_build_channel v pd n params s = (r, s') \<Longrightarrow>
     life_step v (hs, s) (built (\<lambda>(cq, qp). [cq, qp]) r hs, s')"
| life_multi_channel: "holds hs s pd KProtectionDomain \<Longrightarrow>
     own_build_multi_channel v pd k n params s = (r, s') \<Longrightarrow>
     life_step v (hs, s) (built multi_channel_owners r hs, s')"
| life_node: "holds hs s pd KProtectionDomain \<Longrightarrow> own_build_node v addr world pd p s = (r, s') \<Longrightarrow>
     life_step v (hs, s) (built node_owners r hs, s')"
| life_device: "life_step v (hs, s) (hs, s\<lparr>rs_hw := h\<rparr>)"

inductive_cases life_stepE: "life_step v c c'"

inductive life_reach :: "'h verbs \<Rightarrow> arc list \<times> 'h rsrc \<Rightarrow> bool" for v where
  life_init: "life_reach v ([], rsrc_init h)"
| life_next: "life_reach v c \<Longrightarrow> life_step v c c' \<Longrightarrow> life_reach v c'"

section \<open>The invariant\<close>

lemma built_inv: "builds own hs s r s' \<Longrightarrow> own_inv (built own r hs) s'"
  by (cases r) (auto simp: builds_def)

lemma life_step_inv:
  assumes "life_step v c c'" "errno_known v" "own_inv (fst c) (snd c)"
  shows "own_inv (fst c') (snd c')"
  using assms(1)
proof cases
  case life_own
  then obtain op hs s r s' where "c = (hs, s)" "c' = (handles_after op r hs, s')" "permitted op hs s"
    "own_exec v op s = (r, s')" by (auto elim: own_step.cases)
  with exec_keeps [OF _ assms(2)] assms(3) show ?thesis by auto
next
  case (life_channel hs s pd n params r s')
  with built_inv [OF own_build_channel_builds [OF assms(2)]] assms(3) show ?thesis by auto
next
  case (life_multi_channel hs s pd k n params r s')
  with built_inv [OF own_build_multi_channel_builds [OF assms(2), THEN conjunct1]] assms(3)
  show ?thesis by auto
next
  case (life_node hs s pd addr world p r s')
  with built_inv [OF own_build_node_builds [OF assms(2), THEN conjunct1]] assms(3) show ?thesis by auto
next
  case life_device
  with assms(3) show ?thesis by auto
qed

lemma life_reach_inv:
  assumes "life_reach v c" "errno_known v"
  shows "own_inv (fst c) (snd c)"
  using assms
proof (induction rule: life_reach.induct)
  case (life_init h)
  then show ?case by (simp add: own_inv_init)
next
  case (life_next c c')
  then show ?case by (blast intro: life_step_inv)
qed

lemma own_reach_life: "own_reach v c \<Longrightarrow> life_reach v c"
  by (induction rule: own_reach.induct) (blast intro: life_reach.intros life_own)+

end
