(* ===== verification/Properties_Ownership.thy ===== *)
theory Properties_Ownership
  imports Example_System Lifetimes Numa
begin

text \<open>
  The properties of the lifetime of the device's resources, of opening a device, and of the NUMA binding,
  each with a witness where it has hypotheses.
\<close>

section \<open>Example runs\<close>

text \<open>A list of operations, each checked to be permitted, and the state it leads to.\<close>

fun own_run :: "'h verbs \<Rightarrow> own_op list \<Rightarrow> arc list \<times> 'h rsrc \<Rightarrow> (arc list \<times> 'h rsrc) option" where
  "own_run v [] c = Some c"
| "own_run v (op # ops) (hs, s) =
     (if permitted op hs s
      then (case own_exec v op s of (r, s') \<Rightarrow> own_run v ops (handles_after op r hs, s'))
      else None)"

lemma own_run_reach: "life_reach v c \<Longrightarrow> own_run v ops c = Some c' \<Longrightarrow> life_reach v c'"
proof (induction v ops c rule: own_run.induct)
  case (2 v op ops hs s)
  obtain r s' where e: "own_exec v op s = (r, s')" by (rule prod.exhaust)
  with "2.prems"(2) have p: "permitted op hs s" by (simp split: if_splits)
  from life_next [OF "2.prems"(1) life_own [OF own_step [OF p e]]] "2.IH" [OF p e [symmetric]] "2.prems"(2) p e
  show ?case by simp
qed simp

lemma example_errno: "errno_known example_verbs"
  by (simp add: errno_known_def)



definition example_own_params :: qp_params where
  "example_own_params = qp_params_default access_new"

lemmas own_run_defs =
  own_exec_def context_from_device_def own_allocate_pd_def own_create_cq_def own_build_qp_def
  arc_new_def arc_clone_def bind_s_def ret_s_def lift_s_def own_call_def deref_def rsrc_init_def holds_def
  kind_at_def arc_content_def context_of_def pd_of_def cq_of_def query_port_def pd_allocate_def
  cq_create_def qp_builder_def i32_max_def leaked_qp_def

text \<open>
  The context, the protection domain and the completion queue are dropped by the user before the queue
  pair that needs them.
\<close>

definition example_ops :: "own_op list" where
  "example_ops =
     [OpenDevice 40, AllocatePd 0, CreateCq 0 4, BuildQp 1 2 2 example_own_params, DropHandle 0, DropHandle 1,
      DropHandle 2]"

definition example_end :: "arc list \<times> dev rsrc" where
  "example_end = the (own_run example_verbs example_ops ([], rsrc_init dev_init))"

lemma example_run: "own_run example_verbs example_ops ([], rsrc_init dev_init) = Some example_end"
  "fst example_end = [3]" "map fst (rs_cells (snd example_end)) = [3, 2, 1, 0]"
  by (simp_all add: example_end_def example_ops_def own_run_defs)

text \<open>The same before the queue pair is built.\<close>

definition example_start :: "arc list \<times> dev rsrc" where
  "example_start =
     the (own_run example_verbs [OpenDevice 40, AllocatePd 0, CreateCq 0 4] ([], rsrc_init dev_init))"

lemma example_start_run:
  "own_run example_verbs [OpenDevice 40, AllocatePd 0, CreateCq 0 4] ([], rsrc_init dev_init) =
     Some example_start" "fst example_start = [2, 1, 0]"
  by (simp_all add: example_start_def own_run_defs)

lemma example_start_reach: "life_reach example_verbs ([2, 1, 0], snd example_start)"
  using own_run_reach [OF life_init example_start_run(1)] example_start_run(2) by (metis prod.collapse)

lemma example_reach: "life_reach example_verbs ([3], snd example_end)"
  using own_run_reach [OF life_init example_run(1)] example_run(2) by (metis prod.collapse)

text \<open>A node of a world of one, built on it.\<close>

lemmas own_node_run_defs =
  own_build_node_def own_build_multi_channel_def own_build_channel_def own_barrier_mr_new_def
  own_register_mr_def register_shared_mr_def register_mr_with_access_def flags_size_def

definition example_node_params :: node_params where
  "example_node_params = node_params_default (v_access_consts example_verbs)"

lemma example_owned_node:
  "own_build_node example_verbs 0x1000 1 1 example_node_params (snd example_start) =
     (Ok (([(3, 4)], 1), 5, 6),
      snd (own_build_node example_verbs 0x1000 1 1 example_node_params (snd example_start)))"
  by (simp add: example_start_def own_run_defs own_node_run_defs Let_def example_node_params_def
      node_params_default_def)

lemma example_pd_held: "holds [2, 1, 0] (snd example_start) 1 KProtectionDomain"
  by (simp add: example_start_def own_run_defs)







section \<open>Lifetimes\<close>

text \<open>
  C15. Safe code never touches a freed object: in every state of a history that opens, builds, shares and
  drops, of single objects as of channels and nodes, a permitted operation succeeds or
  returns an error of the device, never uses a freed or wrongly typed cell and never panics; every object
  that a handle owns has the fields of its type alive, and keeps its value for as long as it is owned.
\<close>

theorem owners_are_well_typed:
  assumes "life_reach v (hs, s)" "errno_known v" "permitted op hs s" "own_exec v op s = (r, s')"
  shows "(is_ok r \<or> (\<exists>e. r = Err (Ibv e))) \<and>
         (\<forall>a \<in> set hs. \<exists>x. arc_content a s = Some x \<and>
            (\<forall>(f, k) \<in> set (typed_fields x). f < a \<and> kind_at s f = Some k)) \<and>
         (\<forall>a \<in> set hs. a \<in> set (handles_after op r hs) \<longrightarrow> arc_content a s' = arc_content a s)"
proof (intro conjI ballI impI)
  have inv: "own_inv hs s" using life_reach_inv [OF assms(1,2)] by simp
  note k = exec_keeps [OF inv assms(2-4)]
  show "is_ok r \<or> (\<exists>e. r = Err (Ibv e))" using k by blast
  fix a assume a: "a \<in> set hs"
  then obtain x where x: "arc_content a s = Some x"
    using owned_is_alive [OF owned_by.owned_handle inv] by blast
  then show "\<exists>x. arc_content a s = Some x \<and>
      (\<forall>(f, k) \<in> set (typed_fields x). f < a \<and> kind_at s f = Some k)"
    using own_inv_field [OF inv x] by blast
  assume "a \<in> set (handles_after op r hs)"
  then obtain y where y: "arc_content a s' = Some y"
    using owned_is_alive [OF owned_by.owned_handle] k by blast
  with k x alive_below_next [OF inv x] show "arc_content a s' = arc_content a s"
    by (simp add: evolves_def)
qed

theorem owners_are_well_typed_witness:
  "\<exists>r s'. own_exec example_verbs (CloneLent 3) (snd example_end) = (r, s') \<and> is_ok r"
proof -
  obtain r s' where e: "own_exec example_verbs (CloneLent 3) (snd example_end) = (r, s')"
    by (rule prod.exhaust)
  have p: "permitted (CloneLent 3) [3] (snd example_end)" and r: "fst (own_exec example_verbs (CloneLent 3) (snd example_end)) = Ok (Some 1)"
    by (simp_all add: example_end_def example_ops_def own_run_defs)
  from owners_are_well_typed [OF example_reach example_errno p e] r e show ?thesis by auto
qed







text \<open>
  The values that the other operations work on are what the owners hold: building a queue pair from
  owned arguments makes the same calls as the builder on the values, and the new owner reads back as the
  value the builder returns; the same for a protection domain.
\<close>

theorem owners_hold_the_values:
  assumes "life_reach v (hs, s)" "errno_known v" "permitted (BuildQp p a b params) hs s"
  shows "\<exists>pd sc rc. pd_of s p = Some pd \<and> cq_of s a = Some sc \<and> cq_of s b = Some rc \<and>
           (case qp_builder v pd sc rc params (rs_hw s) of
              (Ok q, h') \<Rightarrow> \<exists>s'. own_build_qp v p a b params s = (Ok (rs_next s), s') \<and>
                 qp_of s' (rs_next s) = Some (pqp_qp q) \<and> rs_hw s' = h'
            | (Err e, h') \<Rightarrow> \<exists>s'. own_build_qp v p a b params s = (Err (Ibv e), s') \<and> rs_hw s' = h'
            | _ \<Rightarrow> False)"
proof -
  have inv: "own_inv hs s" using life_reach_inv [OF assms(1,2)] by simp
  have k: "kind_at s p = Some KProtectionDomain" "kind_at s a = Some KCompletionQueue"
    "kind_at s b = Some KCompletionQueue" using assms(3) by (simp_all add: holds_def)
  obtain pd sc rc where get: "pd_of s p = Some pd" "cq_of s a = Some sc" "cq_of s b = Some rc"
    using pd_of_kind [OF inv k(1)] cq_of_kind [OF inv k(2)] cq_of_kind [OF inv k(3)] by blast
  from qp_builder_answers [OF assms(2), of pd sc rc params]
  consider (ok) q h' where "qp_builder v pd sc rc params (rs_hw s) = (Ok q, h')"
    | (err) e h' where "qp_builder v pd sc rc params (rs_hw s) = (Err e, h')"
    unfolding answers_def by blast
  then show ?thesis
  proof cases
    case ok
    from own_build_qp_Ok [OF inv k get ok] obtain s' where
      s': "own_build_qp v p a b params s = (Ok (rs_next s), s')" "rs_hw s' = h'"
      and ext: "extended (rs_next s) (OwnedQueuePair p a b (qp_handle (pqp_qp q))) s s'" by blast
    have "qp_of s' (rs_next s) = Some (pqp_qp q)"
      by (rule qp_of_extended [OF ext get qp_builder_value [OF ok]])
    with get ok s' show ?thesis by auto
  next
    case err
    with get own_build_qp_Err [OF get err] show ?thesis by auto
  qed
qed

theorem owners_hold_the_values_witness:
  "\<exists>s'. own_build_qp example_verbs 1 2 2 example_own_params (snd example_start) = (Ok 3, s') \<and>
        map_option qp_handle (qp_of s' 3) = Some 2"
proof -
  have "permitted (BuildQp 1 2 2 example_own_params) [2, 1, 0] (snd example_start)"
    and n: "rs_next (snd example_start) = 3"
    and v: "pd_of (snd example_start) 1 = Some \<lparr>pd_context = \<lparr>ctx_handle = 40\<rparr>, pd_handle = 3\<rparr>"
    "cq_of (snd example_start) 2 =
       Some \<lparr>cq_context = \<lparr>ctx_handle = 40\<rparr>, cq_handle = 1, cq_min_capacity = 4\<rparr>"
    by (simp_all add: example_start_def own_run_defs)
  from owners_hold_the_values [OF example_start_reach example_errno this(1)] n v show ?thesis
    by (auto simp: qp_builder_def query_port_def bind_s_def ret_s_def)
qed

section \<open>Building\<close>

text \<open>
  Building a multi-channel either returns the requested number of channels, and dropping what it
  returned in any order leaves every object as it was, or fails, and then nothing of the channels built
  before the failure is left.
\<close>

theorem multi_channel_build_releases:
  assumes "life_reach v (hs, s)" "errno_known v" "holds hs s pd KProtectionDomain"
    and "own_build_multi_channel v pd k n params s = (r, s')"
  shows "case r of
      Ok mc \<Rightarrow> length (fst mc) = k \<and>
        (\<forall>as. mset as = mset (multi_channel_owners mc) \<longrightarrow>
           (\<exists>s''. drop_arcs v as s' = (Ok (), s'') \<and> (\<forall>a. arc_content a s'' = arc_content a s)))
    | Err e \<Rightarrow> \<forall>a. arc_content a s' = arc_content a s
    | _ \<Rightarrow> False"
proof -
  have "own_inv hs s" using life_reach_inv [OF assms(1,2)] by simp
  note b = own_build_multi_channel_builds [OF assms(2) this assms(3,4)]
  from builds_restores [OF assms(2) \<open>own_inv hs s\<close> conjunct1 [OF b]] b show ?thesis
    by (cases r) (simp_all add: restores_def)
qed

theorem multi_channel_build_releases_witness:
  "case own_build_multi_channel example_verbs 1 (Suc (Suc 0)) 4 example_own_params (snd example_start) of
     (Ok mc, s') \<Rightarrow> length (fst mc) = 2 | _ \<Rightarrow> False"
proof -
  obtain r s' where b: "own_build_multi_channel example_verbs 1 (Suc (Suc 0)) 4 example_own_params (snd example_start) = (r, s')"
    by (rule prod.exhaust)
  have h: "holds [2, 1, 0] (snd example_start) 1 KProtectionDomain"
    and ok: "is_ok (fst (own_build_multi_channel example_verbs 1 (Suc (Suc 0)) 4 example_own_params (snd example_start)))"
    by (simp_all add: example_start_def own_run_defs own_build_multi_channel_def own_build_channel_def)
  from multi_channel_build_releases [OF example_start_reach example_errno h b] ok b show ?thesis
    by (cases r) auto
qed

text \<open>
  The builders on owners refine the builders on values that the rest of the development uses: when the
  builder of a multi-channel succeeds on the values, it succeeds on the owners after the same calls to the
  device, and every queue pair and completion queue it then owns reads back as the value of that channel.
\<close>

theorem owned_build_refines:
  assumes "life_reach v (hs, s)" "errno_known v" "holds hs s pd KProtectionDomain" "pd_of s pd = Some p"
    and "multi_channel_builder v k p n params (rs_hw s) = (Ok mc, h')"
  shows "\<exists>ocs s'. own_build_multi_channel v pd k n params s = (Ok (ocs, pd), s') \<and>
           list_all2 (reads_channel s') ocs (pmc_channels mc) \<and>
           pd_of s' pd = Some (pmc_pd mc) \<and> rs_hw s' = h'"
  using own_build_multi_channel_refines [OF assms(2) _ assms(3-5)] life_reach_inv [OF assms(1,2)] by simp

theorem owned_build_refines_witness:
  "\<exists>ocs s'. own_build_multi_channel example_verbs 1 1 4 example_own_params (snd example_start) =
              (Ok (ocs, 1), s') \<and> length ocs = 1"
proof -
  let ?pd = "\<lparr>pd_context = \<lparr>ctx_handle = 40\<rparr>, pd_handle = 3\<rparr> :: protection_domain"
  have "holds [2, 1, 0] (snd example_start) 1 KProtectionDomain" "pd_of (snd example_start) 1 = Some ?pd"
    by (simp_all add: example_start_def own_run_defs)
  note h = this
  obtain mc h' where m:
    "multi_channel_builder example_verbs 1 ?pd 4 example_own_params (rs_hw (snd example_start)) = (Ok mc, h')"
    "length (pmc_channels mc) = 1"
    by (simp add: multi_channel_builder_def channel_builder_def cq_create_def i32_max_def qp_builder_def
        query_port_def bind_s_def ret_s_def)
  from owned_build_refines [OF example_start_reach example_errno h m(1)] obtain ocs s' where
    "own_build_multi_channel example_verbs 1 1 4 example_own_params (snd example_start) = (Ok (ocs, 1), s')"
    "list_all2 (reads_channel s') ocs (pmc_channels mc)" by blast
  with m(2) list_all2_lengthD show ?thesis by fastforce
qed





text \<open>
  C19. The order in which a node releases what it owns: every queue pair of the node is destroyed first, so
  that nothing of the node's own can use the flags of its barrier any more; then the box with the flags is
  freed, and only after that the memory region registered on it is deregistered.  The same for a node
  that is still to be connected and for a connected one, whose channels have their fields in another order.
\<close>

theorem node_drop_order:
  assumes "life_reach v (hs, s)" "errno_known v" "holds hs s pd KProtectionDomain"
    and "own_build_node v addr world pd params s = (Ok ((channels, pd'), flags, mr), s1)"
    and "order \<in> {node_owners ((channels, pd'), flags, mr), connected_node_owners ((channels, pd'), flags, mr)}"
  shows "\<exists>s2. drop_arcs v order s1 = (Ok (), s2) \<and>
           (\<forall>qp \<in> snd ` set channels. released_before qp flags (rs_trace s2)) \<and>
           released_before flags mr (rs_trace s2)"
proof -
  let ?n = "((channels, pd'), flags, mr)"
  have inv: "own_inv hs s" using life_reach_inv [OF assms(1,2)] by simp
  note b = own_build_node_builds [OF assms(2) inv assms(3,4)]
  then have o: "own_inv (node_owners ?n @ hs) s1"
    and qp: "\<forall>ch \<in> set channels. made KQueuePair s s1 (snd ch)"
    and bar: "made KBoxedMemory s s1 flags" "made KMemoryRegion s s1 mr"
    by (simp_all add: builds_def)
  have old: "a \<notin> set hs" if "made k s s1 a" for a k
    using that handle_below_next [OF inv, of a] by (auto simp: made_def)
  obtain front where front: "order = front @ [flags, mr]" "snd ` set channels \<subseteq> set front"
    using barrier_is_last [OF assms(5)] by auto
  have "mset order = mset (node_owners ?n)" using assms(5) connected_mset by auto
  then have o': "own_inv (order @ hs) s1" using own_inv_mset [of "order @ hs" "node_owners ?n @ hs" s1] o by simp
  from drop_arcs_inv [OF assms(2) o'] obtain s2 where d: "drop_arcs v order s1 = (Ok (), s2)" by blast
  have q: "\<forall>q \<in> snd ` set channels. q \<in> set front \<and> q \<notin> set hs \<and> kind_at s1 q = Some KQueuePair"
    using front(2) qp old by (auto simp: made_def)
  from node_release_order [OF assms(2) o' [unfolded front(1)] old [OF bar(1)] old [OF bar(2)] q _ _
      d [unfolded front(1)]] bar d show ?thesis by (simp add: made_def)
qed

theorem node_drop_order_witness:
  "\<exists>s2. drop_arcs example_verbs (node_owners (([(3, 4)], 1), 5, 6))
          (snd (own_build_node example_verbs 0x1000 1 1 example_node_params (snd example_start))) = (Ok (), s2) \<and>
        released_before 4 5 (rs_trace s2) \<and> released_before 5 6 (rs_trace s2)"
  using node_drop_order [OF example_start_reach example_errno example_pd_held example_owned_node, of
      "node_owners (([(3, 4)], 1), 5, 6)"] by simp

section \<open>Opening a device\<close>

text \<open>
  C37. Opening a device by name opens the first device of the list with that name, and reports
  \<open>NotFound\<close> when there is none; the list is freed once, after the device was opened.
\<close>

theorem open_device_outcome:
  assumes "lists_devices v" "v_get_device_list v (rs_hw s) = ((Some ds, n), h1)"
  shows "open_device v name s =
    (case find (\<lambda>d. device_name v d = Some name) ds of
       None \<Rightarrow> (Err (Ibv (NotFound (''Device '' @ [CHR 0x27] @ name @ [CHR 0x27] @ '' not found''))),
                s\<lparr>rs_hw := v_free_device_list v ds h1\<rparr>)
     | Some d \<Rightarrow>
         (case context_from_device v d (s\<lparr>rs_hw := h1\<rparr>) of
            (r, s') \<Rightarrow> (r, s'\<lparr>rs_hw := v_free_device_list v ds (rs_hw s')\<rparr>)))"
  by (rule open_device_found [OF assms])

lemma example_lists: "lists_devices example_verbs"
  by (simp add: lists_devices_def)

lemma example_names:
  "device_name example_verbs 40 = Some ''mlx5_0''" "device_name example_verbs 41 = Some ''mlx5_1''"
  by (simp_all add: device_name_def utf8_valid_ascii)

theorem open_device_outcome_witness:
  "fst (open_device example_verbs ''mlx5_1'' (rsrc_init dev_init)) = Ok 0 \<and>
   rs_cells (snd (open_device example_verbs ''mlx5_1'' (rsrc_init dev_init))) = [(0, 1, ContextInner 41)]"
  using open_device_outcome [OF example_lists, of "rsrc_init dev_init" "[40, 41]" 2 dev_init "''mlx5_1''"]
  by (simp add: example_names own_run_defs)

section \<open>NUMA\<close>

text \<open>
  C38. The node that the kernel prints for a device is the node the thread is bound to: reading back a
  printed node number gives the number, and the thread is run on that node, with local allocation only
  after it is; a device without a node (the kernel prints -1) is \<open>NotFound\<close> and nothing is bound.
\<close>

theorem numa_binding:
  assumes "device_name v dev = Some name" "node < 2 ^ 31"
    and "nm_read_to_string m (numa_path name) h = (Ok line, h1)"
  shows "(line = show_nat node @ [CHR 0x0A] \<longrightarrow>
            bind_thread_to_numa v m dev h =
              (case nm_run_on_node m (int node) h1 of
                 (res, h2) \<Rightarrow> if res = 0 then (Ok (), nm_set_localalloc m h2)
                             else (Err (nm_last_os_error m h2), h2))) \<and>
         (line = ''-1'' @ [CHR 0x0A] \<longrightarrow>
            bind_thread_to_numa v m dev h =
              (Err (IoError KindNotFound (''numa node for '' @ name @ '' not found'')), h1))"
proof -
  have "parse_i32 (str_trim (''-1'' @ [CHR 0x0A])) = Ok (- 1)"
    using trim_line [of "''-1''"]
    by (simp add: is_ascii_whitespace_def parse_i32_def digit_value_def Let_def)
  with assms parse_printed_node [OF assms(2)] show ?thesis
    by (auto simp: bind_thread_to_numa_def get_numa_node_def set_numa_node_def bind_s_def lift_s_def ret_s_def
        split: prod.splits)
qed

definition example_numa :: "int numa" where
  "example_numa =
     \<lparr>nm_read_to_string = (\<lambda>_ h. (Ok (''3'' @ [CHR 0x0A]), h)), nm_run_on_node = (\<lambda>n _. (0, n)),
      nm_set_localalloc = (\<lambda>h. h), nm_set_bind_policy = (\<lambda>_ h. h),
      nm_last_os_error = (\<lambda>_. IoError KindOther ''error'')\<rparr>"

lemma show_three: "show_nat 3 = ''3''"
  by code_simp

theorem numa_binding_witness: "bind_thread_to_numa example_verbs example_numa 40 0 = (Ok (), 3)"
  using numa_binding [of example_verbs 40 "''mlx5_0''" 3 example_numa 0 "''3'' @ [CHR 0x0A]" 0]
  by (simp add: example_names example_numa_def show_three)

end
