(* ===== verification/Messages.thy ===== *)
theory Messages
  imports Node Exchanger Numa
begin

text \<open>
  The texts of the errors (the \<open>Display\<close> implementations, most of them written as \<open>#[error(..)]\<close>
  attributes) and of a GUID.  The text of an \<open>io::Error\<close> is the standard library's, a parameter.
\<close>

section \<open>GUIDs\<close>

text \<open>\<open>{:02x}\<close>\<close>

definition hex_digit :: "nat \<Rightarrow> char" where
  "hex_digit d = (if d < 10 then char_of (48 + d) else char_of (87 + d))"

definition hex_byte :: "u8 \<Rightarrow> string" where
  "hex_byte b = [hex_digit (unat b div 16), hex_digit (unat b mod 16)]"

text \<open>\<open>Debug\<close> of \<open>Guid\<close>: indexing panics outside the eight bytes, which the type excludes.\<close>

definition guid_debug :: "guid \<Rightarrow> string" where
  "guid_debug g =
     (let b = (\<lambda>i. hex_byte (guid_raw g ! i)) in
      b 0 @ '':'' @ b 1 @ '':'' @ b 2 @ '':'' @ b 3 @ '':'' @ b 4 @ '':'' @ b 5 @ '':'' @ b 6 @ '':'' @ b 7)"

section \<open>Errors of the bindings\<close>

fun ibv_error_text :: "(int \<Rightarrow> string) \<Rightarrow> ibv_error \<Rightarrow> string" where
  "ibv_error_text os (InvalidInput s) = ''Invalid argument: '' @ s"
| "ibv_error_text os (Resource s) = ''Resource exhausted: '' @ s"
| "ibv_error_text os (Permission s) = ''Permission denied: '' @ s"
| "ibv_error_text os (NotFound s) = ''Entity not found: '' @ s"
| "ibv_error_text os (Driver n) = ''Driver/OS error: '' @ os n"

fun work_error_code_text :: "work_error_code \<Rightarrow> string" where
  "work_error_code_text LocalLengthError = ''local length error''"
| "work_error_code_text LocalQueuePairOperationError = ''local queue pair operation error''"
| "work_error_code_text LocalEecOperationError = ''local EEC operation error''"
| "work_error_code_text LocalProtectionError = ''local protection error''"
| "work_error_code_text WorkRequestFlushError = ''work request flush error''"
| "work_error_code_text MemoryWindowBindError = ''memory window bind error''"
| "work_error_code_text BadResponseError = ''bad response error''"
| "work_error_code_text LocalAccessError = ''local access error''"
| "work_error_code_text RemoteInvalidRequestError = ''remote invalid request error''"
| "work_error_code_text RemoteAccessError = ''remote access error''"
| "work_error_code_text RemoteOperationError = ''remote operation error''"
| "work_error_code_text RetryExceededError = ''retry exceeded error''"
| "work_error_code_text RnrRetryExceededError = ''RNR retry exceeded error''"
| "work_error_code_text LocalRddViolationError = ''local RDD violation error''"
| "work_error_code_text RemoteInvalidReadRequestError = ''remote invalid RD request error''"
| "work_error_code_text RemoteAbortError = ''remote abort error''"
| "work_error_code_text InvalidEecnError = ''invalid EECN error''"
| "work_error_code_text InvalidEecStateError = ''invalid EEC state error''"
| "work_error_code_text FatalError = ''fatal error''"
| "work_error_code_text ResponseTimeoutError = ''response timeout error''"
| "work_error_code_text GeneralError = ''general error''"
| "work_error_code_text TagMatchingError = ''tag matching error''"
| "work_error_code_text TagMatchingRendezvousIncomplete = ''tag matching rendezvous incomplete''"
| "work_error_code_text UnknownError = ''unknown error''"

text \<open>The derived \<open>Debug\<close> of \<open>WorkErrorClass\<close>: the names of the source.\<close>

fun work_error_class_debug :: "work_error_class \<Rightarrow> string" where
  "work_error_class_debug LocalProgrammingError = ''LocalProgrammingError''"
| "work_error_class_debug LocalResourceError = ''LocalResourceError''"
| "work_error_class_debug RemoteError = ''RemoteError''"
| "work_error_class_debug TransportErrorClass = ''TransportError''"
| "work_error_class_debug TimeoutClass = ''Timeout''"
| "work_error_class_debug Fatal = ''Fatal''"
| "work_error_class_debug Unknown = ''Unknown''"

definition work_error_text :: "work_error \<Rightarrow> string" where
  "work_error_text e =
     (let code = work_error_code_from (we_raw_status e) in
      work_error_code_text code @ '' ['' @ work_error_class_debug (error_code_class code) @
      ''] (raw_status='' @ show_nat (unat (we_raw_status e)) @ '', vendor_code='' @
      show_nat (unat (we_vendor_code e)) @ '', hint='' @ error_code_hint code @ '')'')"

fun sge_error_text :: "sge_error \<Rightarrow> string" where
  "sge_error_text SliceTooBig = ''maximum length of mr slice exceeded''"
| "sge_error_text SliceNotWithinBounds = ''slice is not within the bounds of the mr''"

section \<open>Errors of channels and networks\<close>

text \<open>\<open>#[error(transparent)]\<close>; the \<open>Debug\<close> of the list of errors is derived, a parameter.\<close>

fun transport_error_text :: "(int \<Rightarrow> string) \<Rightarrow> transport_error \<Rightarrow> string" where
  "transport_error_text os (TIbv e) = ibv_error_text os e"
| "transport_error_text os (TWork e) = work_error_text e"

fun scope_error_text :: "('e \<Rightarrow> string) \<Rightarrow> (transport_error list \<Rightarrow> string) \<Rightarrow> 'e scope_error \<Rightarrow> string" where
  "scope_error_text text debug (ClosureError e) = ''Closure error: '' @ text e"
| "scope_error_text text debug (AutoPollError es) = ''Auto poll error: '' @ debug es"

fun barrier_error_text :: "(int \<Rightarrow> string) \<Rightarrow> barrier_error \<Rightarrow> string" where
  "barrier_error_text os Poisoned = ''Barrier is poisoned from a previous error''"
| "barrier_error_text os SelfNotInGroup = ''Self not in the barrier group''"
| "barrier_error_text os UnorderedPeers = ''Peers not in ascending order in barrier group''"
| "barrier_error_text os DuplicatePeers = ''Duplicate peers in barrier group''"
| "barrier_error_text os Timeout = ''Barrier timeout''"
| "barrier_error_text os (BTransport e) = ''Transport error: '' @ transport_error_text os e"

fun network_config_error_text :: "network_config_error \<Rightarrow> string" where
  "network_config_error_text EmptyNetwork = ''Empty network''"
| "network_config_error_text FirstRankNotZero = ''First rank id is not zero''"
| "network_config_error_text (NonSequentialRanks gap_rank) =
     ''Ranks are non sequential, '' @ show_nat gap_rank @ '' is missing''"
| "network_config_error_text (DuplicatedRank dup_rank) =
     ''Rank '' @ show_nat dup_rank @ '' appears multiple times''"

text \<open>\<open>SerdeError\<close> already carries the text of the decoder's error.\<close>

fun exchange_error_text :: "(io_error \<Rightarrow> string) \<Rightarrow> exchange_error \<Rightarrow> string" where
  "exchange_error_text io (InvalidRank rank) = ''Rank '' @ show_nat rank @ '' not in network''"
| "exchange_error_text io (SerdeError s) = ''Error serializing/deserializing data ('' @ s @ '')''"
| "exchange_error_text io (ExchangeIo e) = ''Error during IO operation ('' @ io e @ '')''"
| "exchange_error_text io (MessageTooLarge n) =
     ''Encoded message size '' @ show_nat n @ '' exceeds u32::MAX and cannot be framed''"
| "exchange_error_text io ExchangeTimeout = ''Exchange timed out''"

section \<open>The texts say what they show\<close>

lemma of_char_hex_digit:
  "d < 16 \<Longrightarrow> of_char (hex_digit d) = (if d < 10 then 48 + d else 87 + d)"
  by (simp add: hex_digit_def of_char_of take_bit_nat_eq_self)

lemma hex_digit_inj: "d < 16 \<Longrightarrow> e < 16 \<Longrightarrow> hex_digit d = hex_digit e \<Longrightarrow> d = e"
proof -
  assume d: "d < 16" "e < 16" "hex_digit d = hex_digit e"
  then have "(of_char (hex_digit d) :: nat) = of_char (hex_digit e)" by simp
  with d(1,2) show "d = e" by (simp add: of_char_hex_digit split: if_splits)
qed

lemma hex_byte_inj: "hex_byte a = hex_byte b \<Longrightarrow> a = b"
proof -
  assume h: "hex_byte a = hex_byte b"
  have l: "unat a div 16 < 16" "unat b div 16 < 16"
    using unat_u8_bound [of a] unat_u8_bound [of b] by linarith+
  from h have "unat a div 16 = unat b div 16" "unat a mod 16 = unat b mod 16"
    using hex_digit_inj [OF l] hex_digit_inj [of "unat a mod 16" "unat b mod 16"]
    by (simp_all add: hex_byte_def)
  then have "unat a = unat b" by (metis div_mult_mod_eq)
  then show "a = b" by (rule unsigned_word_eqI)
qed

lemma eight_bytes:
  assumes "length (bs :: 'a list) = 8"
  shows "bs = [bs ! 0, bs ! 1, bs ! 2, bs ! 3, bs ! 4, bs ! 5, bs ! 6, bs ! 7]"
  by (rule nth_equalityI) (use assms in \<open>auto simp: less_Suc_eq numeral_eq_Suc\<close>)

text \<open>Different GUIDs are printed differently, in 23 characters.\<close>

theorem guid_debug_injective:
  assumes "length (guid_raw g) = 8" "length (guid_raw g') = 8"
  shows "length (guid_debug g) = 23 \<and> (guid_debug g = guid_debug g' \<longleftrightarrow> g = g')"
proof -
  have "guid_raw g = guid_raw g'" if "guid_debug g = guid_debug g'"
  proof -
    from that have "hex_byte (guid_raw g ! i) = hex_byte (guid_raw g' ! i)"
      if "i \<in> {0, 1, 2, 3, 4, 5, 6, 7}" for i
      using that by (auto simp: guid_debug_def Let_def hex_byte_def)
    then have "guid_raw g ! i = guid_raw g' ! i" if "i \<in> {0, 1, 2, 3, 4, 5, 6, 7}" for i
      using that hex_byte_inj by blast
    then show ?thesis using eight_bytes [OF assms(1)] eight_bytes [OF assms(2)] by simp
  qed
  then have "guid_debug g = guid_debug g' \<longleftrightarrow> g = g'" by (cases g; cases g') auto
  then show ?thesis by (simp add: guid_debug_def Let_def hex_byte_def)
qed

text \<open>A printed number can be read off the text that starts with it.\<close>

definition number_value :: "string \<Rightarrow> nat" where
  "number_value = foldl (\<lambda>n c. n * 10 + (of_char c - 48)) 0"

definition is_digit :: "char \<Rightarrow> bool" where
  "is_digit c \<longleftrightarrow> 48 \<le> (of_char c :: nat) \<and> (of_char c :: nat) \<le> 57"

lemma number_value_show: "number_value (show_nat n) = n"
proof (induction n rule: show_nat.induct)
  case (1 n)
  have "of_char (char_of (48 + n mod 10) :: char) = 48 + n mod 10" by (rule of_char_digit) simp
  with 1 show ?case by (auto simp: number_value_def show_nat.simps [of n] of_char_digit)
qed

lemma show_nat_prefix:
  assumes "show_nat a @ c # xs = show_nat b @ c # ys" "\<not> is_digit c"
  shows "a = b \<and> xs = ys"
proof -
  have t: "takeWhile is_digit (show_nat n @ c # zs) = show_nat n" for n zs
    using show_nat_digits [of n] assms(2) by (simp add: is_digit_def takeWhile_append2)
  have "show_nat a = show_nat b"
    by (rule trans [OF t [of a xs, symmetric]], subst assms(1), rule t)
  then have "a = b" by (metis number_value_show)
  with assms(1) show ?thesis by simp
qed

lemma code_text_no_bracket: "CHR ''['' \<notin> set (work_error_code_text c)"
  by (cases c) simp_all

lemma code_texts_distinct: "distinct (map work_error_code_text all_work_error_codes)"
  by code_simp

lemma all_codes: "c \<in> set all_work_error_codes"
  by (cases c) (simp_all add: all_work_error_codes_def)

lemma code_text_inj: "work_error_code_text c = work_error_code_text c' \<Longrightarrow> c = c'"
  using code_texts_distinct all_codes [of c] all_codes [of c'] by (auto simp: distinct_map inj_on_def)

text \<open>The text of a failed work determines the status and the vendor's code.\<close>

theorem work_error_text_faithful:
  assumes "work_error_text e = work_error_text e'"
  shows "we_raw_status e = we_raw_status e' \<and> we_vendor_code e = we_vendor_code e'"
proof -
  let ?c = "work_error_code_from (we_raw_status e)" and ?c' = "work_error_code_from (we_raw_status e')"
  have t: "takeWhile (\<lambda>x. x \<noteq> CHR ''['') (work_error_text w) =
      work_error_code_text (work_error_code_from (we_raw_status w)) @ '' ''" for w
    using code_text_no_bracket [of "work_error_code_from (we_raw_status w)"]
    by (auto simp: work_error_text_def Let_def takeWhile_append)
  have "work_error_code_text ?c @ '' '' = work_error_code_text ?c' @ '' ''"
    by (rule trans [OF t [symmetric]], subst assms, rule t)
  then have "work_error_code_text ?c = work_error_code_text ?c'" by simp
  then have c: "?c = ?c'" by (rule code_text_inj)
  have comma: "\<not> is_digit (CHR '','')" by (simp add: is_digit_def)
  from assms c have "show_nat (unat (we_raw_status e)) @ CHR '','' # '' vendor_code='' @
        show_nat (unat (we_vendor_code e)) @ CHR '','' # '' hint='' @ error_code_hint ?c @ '')'' =
      show_nat (unat (we_raw_status e')) @ CHR '','' # '' vendor_code='' @
        show_nat (unat (we_vendor_code e')) @ CHR '','' # '' hint='' @ error_code_hint ?c @ '')''"
    by (simp add: work_error_text_def Let_def)
  from show_nat_prefix [OF this comma] have s: "unat (we_raw_status e) = unat (we_raw_status e')"
    and r: "show_nat (unat (we_vendor_code e)) @ CHR '','' # '' hint='' @ error_code_hint ?c @ '')'' =
      show_nat (unat (we_vendor_code e')) @ CHR '','' # '' hint='' @ error_code_hint ?c @ '')''"
    by simp_all
  from show_nat_prefix [OF r comma] s show ?thesis by (auto intro: unsigned_word_eqI)
qed

end
