(* ===== verification/Tests_Verbs.thy ===== *)
theory Tests_Verbs
  imports Public_Interface
begin

text \<open>
  The unit tests of \<open>src/ibverbs/access_config.rs\<close>, \<open>error.rs\<close> and \<open>memory/remote_memory_region.rs\<close>, run
  on the model: one definition per test, true when its assertions hold, and the lemmas that they do.
  The tests fix what the development otherwise takes as parameters: the bits of the access flags and
  that the \<open>errno\<close> constants are different numbers.  The layout of the structures of the tests is that
  of \<open>repr(C)\<close> on a 64-bit target.  The test of the serialisation is left out with \<open>serde\<close>.
\<close>

section \<open>Assertions\<close>

definition some_and :: "'a option \<Rightarrow> ('a \<Rightarrow> bool) \<Rightarrow> bool" where
  "some_and x p = (case x of Some a \<Rightarrow> p a | None \<Rightarrow> False)"

definition ok_and :: "('a, 'e) outcome \<Rightarrow> ('a \<Rightarrow> bool) \<Rightarrow> bool" where
  "ok_and x p = (case x of Ok a \<Rightarrow> p a | _ \<Rightarrow> False)"

definition err_and :: "('a, 'e) outcome \<Rightarrow> ('e \<Rightarrow> bool) \<Rightarrow> bool" where
  "err_and x p = (case x of Err e \<Rightarrow> p e | _ \<Rightarrow> False)"

lemma assertion_simps [simp]:
  "some_and (Some a) p = p a" "ok_and (Ok a) p = p a" "err_and (Err e) q = q e"
  by (simp_all add: some_and_def ok_and_def err_and_def)

section \<open>access_config.rs\<close>

definition test_new_starts_empty :: bool where
  "test_new_starts_empty \<longleftrightarrow>
     access_code access_new = 0"

definition test_local_write_flag :: "access_consts \<Rightarrow> bool" where
  "test_local_write_flag c \<longleftrightarrow>
     access_code (with_local_write c access_new) = 1"

definition test_remote_write_flag :: "access_consts \<Rightarrow> bool" where
  "test_remote_write_flag c \<longleftrightarrow>
     access_code (with_remote_write c access_new) = 2"

definition test_remote_read_flag :: "access_consts \<Rightarrow> bool" where
  "test_remote_read_flag c \<longleftrightarrow>
     access_code (with_remote_read c access_new) = 4"

definition test_all_flags_combined :: "access_consts \<Rightarrow> bool" where
  "test_all_flags_combined c \<longleftrightarrow>
     access_code (with_remote_read c (with_remote_write c (with_local_write c access_new))) =
     (1 OR 2 OR 4)"

definition test_default_is_local_write :: "access_consts \<Rightarrow> bool" where
  "test_default_is_local_write c \<longleftrightarrow>
     access_code (access_default c) = access_code (with_local_write c access_new)"

definition test_applying_same_flag_twice_is_idempotent :: "access_consts \<Rightarrow> bool" where
  "test_applying_same_flag_twice_is_idempotent c \<longleftrightarrow>
     access_code (with_local_write c access_new) =
     access_code (with_local_write c (with_local_write c access_new))"

definition test_order_does_not_matter :: "access_consts \<Rightarrow> bool" where
  "test_order_does_not_matter c \<longleftrightarrow>
     access_code (with_remote_write c (with_remote_read c (with_local_write c access_new))) =
     access_code (with_remote_read c (with_local_write c (with_remote_write c access_new)))"

lemma access_tests_pass:
  assumes "access_bits_documented c"
  shows "test_new_starts_empty"
    "test_local_write_flag c"
    "test_remote_write_flag c"
    "test_remote_read_flag c"
    "test_all_flags_combined c"
    "test_default_is_local_write c"
    "test_applying_same_flag_twice_is_idempotent c"
    "test_order_does_not_matter c"
  using assms
  by (simp_all add: access_bits_documented_def access_defs test_new_starts_empty_def 
      test_local_write_flag_def
      test_remote_write_flag_def
      test_remote_read_flag_def
      test_all_flags_combined_def
      test_default_is_local_write_def
      test_applying_same_flag_twice_is_idempotent_def
      test_order_does_not_matter_def
      or.assoc or.commute or.left_commute)

section \<open>error.rs\<close>

definition test_einval_maps_to_invalid_input :: "libc_errno \<Rightarrow> bool" where
  "test_einval_maps_to_invalid_input c \<longleftrightarrow>
     class_of (from_errno_with_msg c (EINVAL c) ''test'') = CInvalidInput"

definition test_enomem_maps_to_resource :: "libc_errno \<Rightarrow> bool" where
  "test_enomem_maps_to_resource c \<longleftrightarrow>
     class_of (from_errno_with_msg c (ENOMEM c) ''test'') = CResource"

definition test_emfile_maps_to_resource :: "libc_errno \<Rightarrow> bool" where
  "test_emfile_maps_to_resource c \<longleftrightarrow>
     class_of (from_errno_with_msg c (EMFILE c) ''test'') = CResource"

definition test_eagain_maps_to_resource :: "libc_errno \<Rightarrow> bool" where
  "test_eagain_maps_to_resource c \<longleftrightarrow>
     class_of (from_errno_with_msg c (EAGAIN c) ''test'') = CResource"

definition test_eacces_maps_to_permission :: "libc_errno \<Rightarrow> bool" where
  "test_eacces_maps_to_permission c \<longleftrightarrow>
     class_of (from_errno_with_msg c (EACCES c) ''test'') = CPermission"

definition test_eperm_maps_to_permission :: "libc_errno \<Rightarrow> bool" where
  "test_eperm_maps_to_permission c \<longleftrightarrow>
     class_of (from_errno_with_msg c (EPERM c) ''test'') = CPermission"

definition test_enoent_maps_to_not_found :: "libc_errno \<Rightarrow> bool" where
  "test_enoent_maps_to_not_found c \<longleftrightarrow>
     class_of (from_errno_with_msg c (ENOENT c) ''test'') = CNotFound"

text \<open>\<open>EIO\<close> is none of the constants the classification knows.\<close>

definition test_unknown_errno_maps_to_driver :: "libc_errno \<Rightarrow> int \<Rightarrow> bool" where
  "test_unknown_errno_maps_to_driver c eio \<longleftrightarrow>
     class_of (from_errno_with_msg c eio ''test'') = CDriver"

lemma error_tests_pass:
  assumes "errno_distinct c"
    and "eio \<notin> {EINVAL c, ENOMEM c, EMFILE c, EAGAIN c, EACCES c, EPERM c, ENOENT c}"
  shows "test_einval_maps_to_invalid_input c"
    "test_enomem_maps_to_resource c"
    "test_emfile_maps_to_resource c"
    "test_eagain_maps_to_resource c"
    "test_eacces_maps_to_permission c"
    "test_eperm_maps_to_permission c"
    "test_enoent_maps_to_not_found c"
    "test_unknown_errno_maps_to_driver c eio"
  using assms
  by (simp_all add: class_from_errno test_einval_maps_to_invalid_input_def
      test_enomem_maps_to_resource_def
      test_emfile_maps_to_resource_def
      test_eagain_maps_to_resource_def
      test_eacces_maps_to_permission_def
      test_eperm_maps_to_permission_def
      test_enoent_maps_to_not_found_def
      test_unknown_errno_maps_to_driver_def)

section \<open>remote_memory_region.rs\<close>

definition test_new_stores_fields :: bool where
  "test_new_stores_fields \<longleftrightarrow>
     (let rmr = rmr_new 0x1000 4096 0xABCD in
      rmr_address rmr = 0x1000 \<and> rmr_get_length rmr = 4096 \<and> rmr_get_rkey rmr = 0xABCD)"

definition test_zero_length_region :: bool where
  "test_zero_length_region \<longleftrightarrow>
     rmr_get_length (rmr_new 0x2000 0 1) = 0"

definition test_sub_region_at_zero_offset :: bool where
  "test_sub_region_at_zero_offset \<longleftrightarrow>
     some_and (sub_region (rmr_new 0x1000 100 42) 0)
       (\<lambda>sub. rmr_address sub = 0x1000 \<and> rmr_get_length sub = 100 \<and> rmr_get_rkey sub = 42)"

definition test_sub_region_at_middle :: bool where
  "test_sub_region_at_middle \<longleftrightarrow>
     some_and (sub_region (rmr_new 0x1000 100 42) 40)
       (\<lambda>sub. rmr_address sub = 0x1028 \<and> rmr_get_length sub = 60)"

definition test_sub_region_at_exact_end :: bool where
  "test_sub_region_at_exact_end \<longleftrightarrow>
     some_and (sub_region (rmr_new 0x1000 100 42) 100)
       (\<lambda>sub. rmr_address sub = 0x1064 \<and> rmr_get_length sub = 0)"

definition test_sub_region_beyond_end_returns_none :: bool where
  "test_sub_region_beyond_end_returns_none \<longleftrightarrow>
     sub_region (rmr_new 0x1000 100 42) 101 = None"

definition test_sub_region_address_overflow_returns_none :: bool where
  "test_sub_region_address_overflow_returns_none \<longleftrightarrow>
     sub_region (rmr_new (- 1) 100 42) 1 = None"

definition test_sub_region_large_offset_returns_none :: bool where
  "test_sub_region_large_offset_returns_none \<longleftrightarrow>
     sub_region (rmr_new 0x1000 (- 1) 42) (- 1) = None"

definition test_sub_region_unchecked_at_middle :: bool where
  "test_sub_region_unchecked_at_middle \<longleftrightarrow>
     ok_and (sub_region_unchecked True (rmr_new 0x1000 100 42) 40 :: (remote_memory_region, unit) outcome)
     (\<lambda>sub. rmr_address sub = 0x1028 \<and> rmr_get_length sub = 60 \<and> rmr_get_rkey sub = 42)"

definition test_remote_array_field_index_zero :: bool where
  "test_remote_array_field_index_zero \<longleftrightarrow>
     some_and (remote_array_field (rmr_new 0x1000 80 0xABCD) 8 0)
       (\<lambda>sub. rmr_address sub = 0x1000 \<and> rmr_get_length sub = 80)"

definition test_remote_array_field_index_mid :: bool where
  "test_remote_array_field_index_mid \<longleftrightarrow>
     some_and (remote_array_field (rmr_new 0x1000 80 0xABCD) 8 4)
       (\<lambda>sub. rmr_address sub = 0x1020 \<and> rmr_get_length sub = 80 - 32)"

definition test_remote_array_field_out_of_bounds :: bool where
  "test_remote_array_field_out_of_bounds \<longleftrightarrow>
     remote_array_field (rmr_new 0x1000 16 0xABCD) 8 3 = None"

definition test_remote_array_field_index_overflow :: bool where
  "test_remote_array_field_index_overflow \<longleftrightarrow>
     remote_array_field (rmr_new 0x1000 1024 0xABCD) 8 (- 1) = None"

definition test_remote_array_field_unchecked_index_mid :: bool where
  "test_remote_array_field_unchecked_index_mid \<longleftrightarrow>
     ok_and (remote_array_field_unchecked True (rmr_new 0x1000 80 0xABCD) 8 4 :: (remote_memory_region, unit) outcome)
     (\<lambda>sub. rmr_address sub = 0x1020)"

text \<open>The offsets of the fields of \<open>TestPacket\<close> and \<open>TestNode\<close>, and the size of a \<open>TestNode\<close>.\<close>

definition packet_header :: usize where
  "packet_header = 0"

definition packet_payload :: usize where
  "packet_payload = 4"

definition test_node_data :: usize where
  "test_node_data = 8"

definition test_node_size :: usize where
  "test_node_size = 16"

definition test_remote_struct_field_header :: bool where
  "test_remote_struct_field_header \<longleftrightarrow>
     some_and (remote_struct_field (rmr_new 0x1000 1028 0xABCD) packet_header)
       (\<lambda>sub. rmr_address sub = 0x1000)"

definition test_remote_struct_field_payload :: bool where
  "test_remote_struct_field_payload \<longleftrightarrow>
     some_and (remote_struct_field (rmr_new 0x1000 1028 0xABCD) packet_payload)
       (\<lambda>sub. rmr_address sub = 0x1004)"

definition test_remote_struct_field_out_of_bounds :: bool where
  "test_remote_struct_field_out_of_bounds \<longleftrightarrow>
     remote_struct_field (rmr_new 0x1000 2 0xABCD) packet_payload = None"

definition test_remote_struct_field_unchecked_payload :: bool where
  "test_remote_struct_field_unchecked_payload \<longleftrightarrow>
     ok_and (remote_struct_field_unchecked True (rmr_new 0x1000 1028 0xABCD) packet_payload :: (remote_memory_region, unit) outcome)
     (\<lambda>sub. rmr_address sub = 0x1004)"

definition test_remote_struct_array_field_first_element :: bool where
  "test_remote_struct_array_field_first_element \<longleftrightarrow>
     some_and (remote_struct_array_field (rmr_new 0x1000 240 0xABCD) test_node_size 0 test_node_data)
      
     (\<lambda>sub. rmr_address sub = 0x1000 + test_node_data)"

definition test_remote_struct_array_field_nth_element :: bool where
  "test_remote_struct_array_field_nth_element \<longleftrightarrow>
     some_and (remote_struct_array_field (rmr_new 0x1000 240 0xABCD) test_node_size 2 test_node_data)
      
     (\<lambda>sub. rmr_address sub = 0x1000 + (2 * test_node_size + test_node_data))"

definition test_remote_struct_array_field_overflow :: bool where
  "test_remote_struct_array_field_overflow \<longleftrightarrow>
     remote_struct_array_field (rmr_new 0x1000 240 0xABCD) test_node_size (- 1) test_node_data = None"

definition test_remote_struct_array_field_unchecked_nth_element :: bool where
  "test_remote_struct_array_field_unchecked_nth_element \<longleftrightarrow>
     ok_and (remote_struct_array_field_unchecked True (rmr_new 0x1000 240 0xABCD) test_node_size 2
       test_node_data :: (remote_memory_region, unit) outcome)
     (\<lambda>sub. rmr_address sub = 0x1000 + (2 * test_node_size + test_node_data))"

lemmas region_test_defs =
  rmr_new_def rmr_address_def rmr_get_length_def rmr_get_rkey_def sub_region_def
  sub_region_unchecked_def checked_add_def checked_mul_def plain_add_def plain_sub_def plain_mul_def
  remote_array_field_def remote_array_field_unchecked_def remote_struct_field_def
  remote_struct_field_unchecked_def remote_struct_array_field_def
  remote_struct_array_field_unchecked_def packet_header_def packet_payload_def test_node_data_def
  test_node_size_def

lemma sub_region_tests_pass:
  "test_new_stores_fields"
  "test_zero_length_region"
  "test_sub_region_at_zero_offset"
  "test_sub_region_at_middle"
  "test_sub_region_at_exact_end"
  "test_sub_region_beyond_end_returns_none"
  "test_sub_region_address_overflow_returns_none"
  "test_sub_region_large_offset_returns_none"
  "test_sub_region_unchecked_at_middle"
  by (simp_all add: region_test_defs unat_max_u64
      test_new_stores_fields_def
      test_zero_length_region_def
      test_sub_region_at_zero_offset_def
      test_sub_region_at_middle_def
      test_sub_region_at_exact_end_def
      test_sub_region_beyond_end_returns_none_def
      test_sub_region_address_overflow_returns_none_def
      test_sub_region_large_offset_returns_none_def
      test_sub_region_unchecked_at_middle_def)

lemma array_field_tests_pass:
  "test_remote_array_field_index_zero"
  "test_remote_array_field_index_mid"
  "test_remote_array_field_out_of_bounds"
  "test_remote_array_field_index_overflow"
  "test_remote_array_field_unchecked_index_mid"
  by (simp_all add: region_test_defs unat_max_u64
      test_remote_array_field_index_zero_def
      test_remote_array_field_index_mid_def
      test_remote_array_field_out_of_bounds_def
      test_remote_array_field_index_overflow_def
      test_remote_array_field_unchecked_index_mid_def)

lemma struct_field_tests_pass:
  "test_remote_struct_field_header"
  "test_remote_struct_field_payload"
  "test_remote_struct_field_out_of_bounds"
  "test_remote_struct_field_unchecked_payload"
  "test_remote_struct_array_field_first_element"
  "test_remote_struct_array_field_nth_element"
  "test_remote_struct_array_field_overflow"
  "test_remote_struct_array_field_unchecked_nth_element"
  by (simp_all add: region_test_defs unat_max_u64
      test_remote_struct_field_header_def
      test_remote_struct_field_payload_def
      test_remote_struct_field_out_of_bounds_def
      test_remote_struct_field_unchecked_payload_def
      test_remote_struct_array_field_first_element_def
      test_remote_struct_array_field_nth_element_def
      test_remote_struct_array_field_overflow_def
      test_remote_struct_array_field_unchecked_nth_element_def)

end
