(* ===== verification/Tests_Network.thy ===== *)
theory Tests_Network
  imports Tests_Verbs Barrier_Instances
begin

text \<open>
  The unit tests of \<open>src/network/config.rs\<close> and \<open>src/network/barrier/\<close>, run on the model: one definition per
  test, true when its assertions hold, and the lemmas that they do.  Loops over sizes and indices are
  \<open>list_all\<close>; many of these tests are instances of what is proved for all sizes.
\<close>

section \<open>config.rs\<close>

definition test_host :: "string \<Rightarrow> u16 \<Rightarrow> string \<Rightarrow> nat \<Rightarrow> node_config" where
  "test_host name p dev rank =
     \<lparr>hostname = name, port = p, ibdev = dev, rankid = rank, comment = []\<rparr>"

definition test_valid_network_config :: bool where
  "test_valid_network_config \<longleftrightarrow>
     ok_and (config_build
       [test_host ''tdeb02'' 10000 ''mlx5_0'' 0,
        test_host ''tdeb02'' 10001 ''mlx5_0'' 1])
       (\<lambda>config. length config = 2 \<and> rankid (config ! 0) = 0 \<and> rankid (config ! 1) = 1)"

definition test_valid_network_config_out_of_order :: bool where
  "test_valid_network_config_out_of_order \<longleftrightarrow>
     ok_and (config_build
       [test_host ''node2'' 10001 ''mlx5_0'' 1,
        test_host ''node1'' 10000 ''mlx5_0'' 0,
        test_host ''node3'' 10002 ''mlx5_0'' 2])
       (\<lambda>config. rankid (config ! 0) = 0 \<and> hostname (config ! 0) = ''node1'' \<and>
         rankid (config ! 1) = 1 \<and> hostname (config ! 1) = ''node2'' \<and>
         rankid (config ! 2) = 2 \<and> hostname (config ! 2) = ''node3'')"

definition test_empty_node_config :: bool where
  "test_empty_node_config \<longleftrightarrow>
     config_build [] = Err EmptyNetwork"

definition test_single_node_config :: bool where
  "test_single_node_config \<longleftrightarrow>
     ok_and (config_build
       [test_host ''single'' 8080 ''mlx5_1'' 0])
       (\<lambda>config. length config = 1 \<and> rankid (config ! 0) = 0)"

definition test_missing_rank_zero :: bool where
  "test_missing_rank_zero \<longleftrightarrow>
     config_build
       [test_host ''node1'' 10000 ''mlx5_0'' 1,
        test_host ''node2'' 10001 ''mlx5_0'' 2] =
     Err FirstRankNotZero"

definition test_non_sequential_ranks :: bool where
  "test_non_sequential_ranks \<longleftrightarrow>
     config_build
       [test_host ''node1'' 10000 ''mlx5_0'' 0,
        test_host ''node2'' 10001 ''mlx5_0'' 2] =
     Err (NonSequentialRanks 1)"

definition test_non_sequential_ranks_before_duplicate :: bool where
  "test_non_sequential_ranks_before_duplicate \<longleftrightarrow>
     config_build
       [test_host ''node1'' 10000 ''mlx5_0'' 0,
        test_host ''node2'' 10001 ''mlx5_0'' 3,
        test_host ''node3'' 10002 ''mlx5_0'' 3] =
     Err (NonSequentialRanks 1)"

definition test_duplicate_ranks_before_non_sequential :: bool where
  "test_duplicate_ranks_before_non_sequential \<longleftrightarrow>
     config_build
       [test_host ''node1'' 10000 ''mlx5_0'' 0,
        test_host ''node2'' 10001 ''mlx5_0'' 1,
        test_host ''node3'' 10002 ''mlx5_0'' 1,
        test_host ''node4'' 10003 ''mlx5_0'' 3] =
     Err (DuplicatedRank 1)"

definition test_deref_access :: bool where
  "test_deref_access \<longleftrightarrow>
     ok_and (config_build
       [test_host ''test1'' 9000 ''mlx5_0'' 0,
        test_host ''test2'' 9001 ''mlx5_0'' 1])
       (\<lambda>config. length config = 2 \<and> hostname (config ! 0) = ''test1'' \<and>
         hostname (config ! 1) = ''test2'' \<and> port (hd config) = 9000 \<and> port (last config) = 9001 \<and>
         map hostname config = [''test1'', ''test2''])"

lemma config_tests_pass:
  "test_valid_network_config"
  "test_valid_network_config_out_of_order"
  "test_empty_node_config"
  "test_single_node_config"
  "test_missing_rank_zero"
  "test_non_sequential_ranks"
  "test_non_sequential_ranks_before_duplicate"
  "test_duplicate_ranks_before_non_sequential"
  "test_deref_access"
  by (simp_all add: config_build_def check_rank_def test_host_def upt_rec Let_def
      test_valid_network_config_def
      test_valid_network_config_out_of_order_def
      test_empty_node_config_def
      test_single_node_config_def
      test_missing_rank_zero_def
      test_non_sequential_ranks_def
      test_non_sequential_ranks_before_duplicate_def
      test_duplicate_ranks_before_non_sequential_def
      test_deref_access_def)

section \<open>barrier/mod.rs\<close>

definition test_valid_sorted_unique_peers :: bool where
  "test_valid_sorted_unique_peers \<longleftrightarrow>
     is_ok (validate_peer_list [0, 1, 2, 3])"

definition test_empty_peer_list_is_valid :: bool where
  "test_empty_peer_list_is_valid \<longleftrightarrow>
     is_ok (validate_peer_list [])"

definition test_single_peer_is_valid :: bool where
  "test_single_peer_is_valid \<longleftrightarrow>
     is_ok (validate_peer_list [5])"

definition test_non_contiguous_ranks_are_valid :: bool where
  "test_non_contiguous_ranks_are_valid \<longleftrightarrow>
     is_ok (validate_peer_list [0, 3, 7, 100])"

definition test_unsorted_peers_rejected :: bool where
  "test_unsorted_peers_rejected \<longleftrightarrow>
     validate_peer_list [2, 1, 3] = Err UnorderedPeers"

definition test_duplicate_peers_rejected :: bool where
  "test_duplicate_peers_rejected \<longleftrightarrow>
     validate_peer_list [0, 1, 1, 2] = Err DuplicatePeers"

definition test_unsorted_takes_precedence_over_duplicate :: bool where
  "test_unsorted_takes_precedence_over_duplicate \<longleftrightarrow>
     validate_peer_list [2, 1, 1] = Err UnorderedPeers"

definition test_all_same_ranks_detected_as_unsorted_or_duplicate :: bool where
  "test_all_same_ranks_detected_as_unsorted_or_duplicate \<longleftrightarrow>
     validate_peer_list [3, 3, 3] = Err DuplicatePeers"

lemma peer_list_tests_pass:
  "test_valid_sorted_unique_peers"
  "test_empty_peer_list_is_valid"
  "test_single_peer_is_valid"
  "test_non_contiguous_ranks_are_valid"
  "test_unsorted_peers_rejected"
  "test_duplicate_peers_rejected"
  "test_unsorted_takes_precedence_over_duplicate"
  "test_all_same_ranks_detected_as_unsorted_or_duplicate"
  by (simp_all add: validate_peer_list_def
      test_valid_sorted_unique_peers_def
      test_empty_peer_list_is_valid_def
      test_single_peer_is_valid_def
      test_non_contiguous_ranks_are_valid_def
      test_unsorted_peers_rejected_def
      test_duplicate_peers_rejected_def
      test_unsorted_takes_precedence_over_duplicate_def
      test_all_same_ranks_detected_as_unsorted_or_duplicate_def)

section \<open>barrier/binary_tree.rs\<close>

definition test_root_has_no_parent :: bool where
  "test_root_has_no_parent \<longleftrightarrow>
     parent_index 0 = None"

definition test_left_child_parent :: bool where
  "test_left_child_parent \<longleftrightarrow>
     parent_index 1 = Some 0"

definition test_right_child_parent :: bool where
  "test_right_child_parent \<longleftrightarrow>
     parent_index 2 = Some 0"

definition test_deeper_nodes_parent :: bool where
  "test_deeper_nodes_parent \<longleftrightarrow>
     parent_index 3 = Some 1 \<and> parent_index 4 = Some 1 \<and> parent_index 5 = Some 2 \<and> parent_index 6 = Some 2"

definition test_single_node_has_no_children :: bool where
  "test_single_node_has_no_children \<longleftrightarrow>
     child_indices 0 1 = []"

definition test_root_with_two_children :: bool where
  "test_root_with_two_children \<longleftrightarrow>
     child_indices 0 3 = [1, 2]"

definition test_root_with_only_left_child :: bool where
  "test_root_with_only_left_child \<longleftrightarrow>
     child_indices 0 2 = [1]"

definition test_leaf_has_no_children :: bool where
  "test_leaf_has_no_children \<longleftrightarrow>
     child_indices 3 7 = []"

definition test_internal_node_children :: bool where
  "test_internal_node_children \<longleftrightarrow>
     child_indices 1 7 = [3, 4]"

lemma tree_index_tests_pass:
  "test_root_has_no_parent"
  "test_left_child_parent"
  "test_right_child_parent"
  "test_deeper_nodes_parent"
  "test_single_node_has_no_children"
  "test_root_with_two_children"
  "test_root_with_only_left_child"
  "test_leaf_has_no_children"
  "test_internal_node_children"
  by (simp_all add: parent_index_def child_indices_def
      test_root_has_no_parent_def
      test_left_child_parent_def
      test_right_child_parent_def
      test_deeper_nodes_parent_def
      test_single_node_has_no_children_def
      test_root_with_two_children_def
      test_root_with_only_left_child_def
      test_leaf_has_no_children_def
      test_internal_node_children_def)

definition test_parent_of_child_is_self :: bool where
  "test_parent_of_child_is_self \<longleftrightarrow>
     list_all (\<lambda>len. list_all (\<lambda>idx.
         list_all (\<lambda>child. parent_index child = Some idx) (child_indices idx len)) [0..<len]) [2..<17]"

definition test_every_non_root_has_parent_within_bounds :: bool where
  "test_every_non_root_has_parent_within_bounds \<longleftrightarrow>
     list_all (\<lambda>len. list_all (\<lambda>idx.
         some_and (parent_index idx) (\<lambda>parent. parent < idx \<and> parent < len)) [1..<len]) [1..<17]"

text \<open>The loop \<open>while let Some(idx) = stack.pop()\<close>; the top of the stack is the head of the list.\<close>

fun visit :: "nat \<Rightarrow> nat \<Rightarrow> nat list \<Rightarrow> bool list \<Rightarrow> bool list option" where
  "visit 0 len stack visited = None"
| "visit (Suc fuel) len [] visited = Some visited"
| "visit (Suc fuel) len (idx # stack) visited =
     visit fuel len (rev (child_indices idx len) @ stack) (visited[idx := True])"

definition test_all_nodes_reachable_from_root :: bool where
  "test_all_nodes_reachable_from_root \<longleftrightarrow>
     list_all (\<lambda>len. some_and (visit (len + 1) len [0] (replicate len False)) (list_all id)) [1..<17]"

text \<open>The loop \<open>while let Some(p) = parent_index(idx)\<close> walks the ancestors; \<open>log2().floor()\<close> is exact here.\<close>

definition test_tree_depth_is_logarithmic :: bool where
  "test_tree_depth_is_logarithmic \<longleftrightarrow>
     list_all (\<lambda>len. length (ancestors (len - 1)) \<le> ilog2 len) [1..<65]"

lemma tree_shape_tests_pass:
  "test_parent_of_child_is_self"
  "test_every_non_root_has_parent_within_bounds"
  "test_tree_depth_is_logarithmic"
  using child_iff_parent ancestors_depth
  by (auto simp: test_parent_of_child_is_self_def test_every_non_root_has_parent_within_bounds_def
      test_tree_depth_is_logarithmic_def list_all_iff some_and_def parent_index_def)

lemma tree_reach_test_passes: "test_all_nodes_reachable_from_root"
  by (simp add: test_all_nodes_reachable_from_root_def upt_rec child_indices_def eval_nat_numeral)

section \<open>barrier/dissemination.rs\<close>

definition test_single_node_no_rounds :: bool where
  "test_single_node_no_rounds \<longleftrightarrow>
     round_pairs 0 1 = []"

definition test_two_nodes_one_round :: bool where
  "test_two_nodes_one_round \<longleftrightarrow>
     length (round_pairs 0 2) = 1"

definition test_round_count_is_ceil_log2 :: bool where
  "test_round_count_is_ceil_log2 \<longleftrightarrow>
     list_all (\<lambda>(len, expected_rounds). length (round_pairs 0 len) = expected_rounds)
       [(2, 1), (3, 2), (4, 2), (5, 3), (7, 3), (8, 3), (9, 4), (16, 4)]"

definition test_two_nodes_notify_each_other :: bool where
  "test_two_nodes_notify_each_other \<longleftrightarrow>
     round_pairs 0 2 = [(1, 1)] \<and> round_pairs 1 2 = [(0, 0)]"

definition test_three_nodes_round_pairs :: bool where
  "test_three_nodes_round_pairs \<longleftrightarrow>
     round_pairs 0 3 = [(1, 2), (2, 1)]"

lemma round_tests_pass:
  "test_single_node_no_rounds"
  "test_two_nodes_one_round"
  "test_round_count_is_ceil_log2"
  "test_two_nodes_notify_each_other"
  "test_three_nodes_round_pairs"
  by (simp_all add: round_pairs_def round_distances.simps
      test_single_node_no_rounds_def
      test_two_nodes_one_round_def
      test_round_count_is_ceil_log2_def
      test_two_nodes_notify_each_other_def
      test_three_nodes_round_pairs_def)

definition test_notify_and_wait_are_symmetric :: bool where
  "test_notify_and_wait_are_symmetric \<longleftrightarrow>
     list_all (\<lambda>len. list_all (\<lambda>idx. list_all (\<lambda>(round, (notify_target, _)).
         snd (round_pairs notify_target len ! round) = idx) (enumerate 0 (round_pairs idx len))) [0..<len])
       [2..<17]"

definition test_indices_within_bounds :: bool where
  "test_indices_within_bounds \<longleftrightarrow>
     list_all (\<lambda>len. list_all (\<lambda>idx. list_all (\<lambda>(right, left).
         right < len \<and> left < len) (round_pairs idx len)) [0..<len]) [1..<33]"

definition test_never_notifies_self :: bool where
  "test_never_notifies_self \<longleftrightarrow>
     list_all (\<lambda>len. list_all (\<lambda>idx. list_all (\<lambda>(right, left).
         right \<noteq> idx \<and> left \<noteq> idx) (round_pairs idx len)) [0..<len]) [2..<17]"

lemma round_shape_tests_pass:
  "test_notify_and_wait_are_symmetric" "test_indices_within_bounds" "test_never_notifies_self"
proof -
  have small: "len \<le> 2 ^ 63" if "len < 40" for len :: nat using that by simp
  have "snd (round_pairs (fst p) len ! r) = idx"
    if "(r, p) \<in> set (enumerate 0 (round_pairs idx len))" "idx < len" "len < 40" for r p idx len
    using that round_symmetric(1) [OF small]
    by (auto simp: in_set_enumerate_eq length_round_pairs)
  then show "test_notify_and_wait_are_symmetric"
    by (fastforce simp: test_notify_and_wait_are_symmetric_def list_all_iff)
  have "fst p \<noteq> idx \<and> snd p \<noteq> idx" if "p \<in> set (round_pairs idx len)" "idx < len" "len < 40" for p idx len
    using that round_never_self [OF small] by (auto simp: in_set_conv_nth length_round_pairs)
  then show "test_never_notifies_self"
    by (fastforce simp: test_never_notifies_self_def list_all_iff)
  show "test_indices_within_bounds"
    by (auto simp: test_indices_within_bounds_def list_all_iff round_pairs_def)
qed

text \<open>The graph of direct communication and its closure by the loops of Floyd and Warshall, in place.\<close>

definition direct :: "nat \<Rightarrow> nat \<Rightarrow> nat \<Rightarrow> bool" where
  "direct len i j \<longleftrightarrow>
     j = i \<or> list_ex (\<lambda>(notify_target, wait_source). j = notify_target \<or> j = wait_source) (round_pairs i len)"

definition relax :: "nat \<Rightarrow> nat \<Rightarrow> nat \<Rightarrow> (nat \<Rightarrow> nat \<Rightarrow> bool) \<Rightarrow> nat \<Rightarrow> nat \<Rightarrow> bool" where
  "relax k i j connected =
     (if connected i k \<and> connected k j then connected(i := (connected i)(j := True)) else connected)"

definition closure_step :: "nat \<Rightarrow> nat \<Rightarrow> (nat \<Rightarrow> nat \<Rightarrow> bool) \<Rightarrow> nat \<Rightarrow> nat \<Rightarrow> bool" where
  "closure_step len k = fold (\<lambda>i. fold (\<lambda>j. relax k i j) [0..<len]) [0..<len]"

definition test_all_pairs_communicate_transitively :: bool where
  "test_all_pairs_communicate_transitively \<longleftrightarrow>
     list_all (\<lambda>len.
       let connected = fold (closure_step len) [0..<len] (direct len) in
       list_all (\<lambda>i. list_all (connected i) [0..<len]) [0..<len]) [2..<17]"

text \<open>Updates only add edges, and every update of the loops takes place.\<close>

lemma fold_grows:
  fixes g :: "'x \<Rightarrow> ('a :: order) \<Rightarrow> 'a"
  assumes "\<And>x M. M \<le> g x M"
  shows "M \<le> fold g xs M"
  using assms by (induction xs arbitrary: M) (auto intro: order_trans)

lemma fold_reaches:
  fixes g :: "'x \<Rightarrow> ('a :: order) \<Rightarrow> 'a"
  assumes "\<And>x M. M \<le> g x M" "x \<in> set xs" "\<And>M'. M \<le> M' \<Longrightarrow> P (g x M')"
    and "\<And>M M'. P M \<Longrightarrow> M \<le> M' \<Longrightarrow> P M'"
  shows "P (fold g xs M)"
  using assms(2,3)
proof (induction xs arbitrary: M)
  case (Cons y ys)
  show ?case
  proof (cases "y = x")
    case True
    with Cons.prems(2) have "P (g y M)" by simp
    with assms(4) fold_grows [of g, OF assms(1)] show ?thesis by (metis fold_simps(2))
  next
    case False
    with Cons.prems have "x \<in> set ys" "\<And>M'. g y M \<le> M' \<Longrightarrow> P (g x M')"
      using assms(1) [of M y] by (auto intro: order_trans)
    with Cons.IH show ?thesis by simp
  qed
qed simp

lemma relax_grows: "M \<le> relax k i j M"
  by (auto simp: relax_def le_fun_def)

lemma closure_step_grows: "M \<le> closure_step len k M"
  unfolding closure_step_def by (intro fold_grows relax_grows)

lemma closure_step_reaches:
  assumes "M i k" "M k j" "i < len" "j < len"
  shows "closure_step len k M i j"
  unfolding closure_step_def
proof (rule fold_reaches [where x = i and P = "\<lambda>M. M i j"])
  show "M \<le> fold (\<lambda>j. relax k x j) [0..<len] M" for x M by (intro fold_grows relax_grows)
  fix M' assume "M \<le> M'"
  then have ge: "M' i k" "M' k j" using assms(1,2) by (auto simp: le_fun_def)
  show "fold (\<lambda>j. relax k i j) [0..<len] M' i j"
    by (rule fold_reaches [where x = j and P = "\<lambda>M. M i j"])
      (use assms(4) ge relax_grows in \<open>auto simp: relax_def le_fun_def\<close>)
qed (use assms(3) in \<open>auto simp: le_fun_def\<close>)

lemma direct_neighbours:
  assumes "2 \<le> len" "len \<le> 2 ^ 63" "i + 1 < len"
  shows "direct len i (i + 1)" "direct len (i + 1) i" "direct len i i"
proof -
  have r: "0 < num_rounds len" using round_distances_powers(2) [OF assms(2)] assms(1) by (cases "num_rounds len") auto
  have p: "((k + 1) mod len, (k + len - 1) mod len) \<in> set (round_pairs k len)" for k
    using round_pairs_nth [OF assms(2) r, of k] nth_mem [of 0 "round_pairs k len"] r
    by (simp add: length_round_pairs)
  show "direct len i (i + 1)"
    using p [of i] assms(3) by (fastforce simp: direct_def list_ex_iff)
  have "(i + 1 + len - 1) mod len = i" using assms(3) by simp
  then show "direct len (i + 1) i"
    using p [of "i + 1"] by (fastforce simp: direct_def list_ex_iff)
  show "direct len i i" by (simp add: direct_def)
qed

text \<open>After the steps up to \<open>m\<close>, the nodes up to \<open>m\<close> are connected, through the ring.\<close>

lemma closure_connects:
  assumes "2 \<le> len" "len \<le> 2 ^ 63" "m < len"
  shows "\<forall>i \<le> m. \<forall>j \<le> m. fold (closure_step len) [0..<m] (direct len) i j"
  using assms(3)
proof (induction m)
  case 0
  then show ?case by (simp add: direct_def)
next
  case (Suc m)
  let ?M = "fold (closure_step len) [0..<m] (direct len)"
  have IH: "?M i j" if "i \<le> m" "j \<le> m" for i j using Suc that by simp
  have "direct len \<le> ?M" by (intro fold_grows closure_step_grows)
  then have e: "?M m (Suc m)" "?M (Suc m) m" "?M (Suc m) (Suc m)"
    using direct_neighbours [OF assms(1,2), of m] Suc.prems by (auto simp: le_fun_def direct_def)
  have step: "closure_step len m ?M i j" if "?M i j \<or> ?M i m \<and> ?M m j" "i \<le> Suc m" "j \<le> Suc m" for i j
    using that closure_step_grows [of ?M len m] closure_step_reaches [of ?M i m j len] Suc.prems
    by (auto simp: le_fun_def)
  have "?M i j \<or> ?M i m \<and> ?M m j" if "i \<le> Suc m" "j \<le> Suc m" for i j
    using that IH e by (metis le_Suc_eq order_refl)
  with step show ?case by simp
qed

lemma transitive_test_passes: "test_all_pairs_communicate_transitively"
proof -
  have "fold (closure_step len) [0..<len] (direct len) i j" if "len \<in> {2..<17}" "i < len" "j < len" for len i j
  proof -
    have s: "[0..<len] = [0..<len - 1] @ [len - 1]" using that(1) by (cases len) auto
    have "fold (closure_step len) [0..<len - 1] (direct len) i j"
      using closure_connects [of len "len - 1"] that by auto
    then show ?thesis
      unfolding s fold_append using closure_step_grows by (force simp: le_fun_def)
  qed
  then show ?thesis by (simp add: test_all_pairs_communicate_transitively_def list_all_iff Let_def)
qed

end
