(* ===== verification/Tests_Exchange.thy ===== *)
theory Tests_Exchange
  imports Tests_Verbs Rendezvous
begin

text \<open>
  The unit tests of \<open>src/network/tcp_exchanger.rs\<close>, run on the model: one definition per test, true when its
  assertions hold, and the lemmas that they do.  The pipes of \<open>tokio\<close> that the tests use are parameters
  with the contract of a connection; the exchanges between threads are runs of the nodes' sessions.
\<close>

section \<open>Streams\<close>

definition round_trip ::
  "('n, 'd) tokio \<Rightarrow> 'd serde_json \<Rightarrow> nat \<Rightarrow> nat \<Rightarrow> nat \<Rightarrow> 'd \<Rightarrow> 'n \<Rightarrow> bool" where
  "round_trip t j writer reader rank dat n =
     (case write_stream t j rank dat writer n of
        (Ok _, n1) \<Rightarrow>
          ok_and (fst (read_stream t j reader n1)) (\<lambda>msg. em_rank msg = rank \<and> em_data msg = dat)
      | _ \<Rightarrow> False)"

definition test_write_read_round_trip_string ::
  "('n, string) tokio \<Rightarrow> string serde_json \<Rightarrow> nat \<Rightarrow> nat \<Rightarrow> 'n \<Rightarrow> bool" where
  "test_write_read_round_trip_string t j writer reader n = round_trip t j writer reader 7 ''test data'' n"

record test_endpoint =
  te_lid :: u16
  te_qpn :: u32
  te_psn :: u32

definition test_write_read_round_trip_struct ::
  "('n, test_endpoint) tokio \<Rightarrow> test_endpoint serde_json \<Rightarrow> nat \<Rightarrow> nat \<Rightarrow> 'n \<Rightarrow> bool" where
  "test_write_read_round_trip_struct t j writer reader n =
     round_trip t j writer reader 3 \<lparr>te_lid = 1, te_qpn = 0x1234, te_psn = 0xABCD\<rparr> n"

definition test_write_read_round_trip_vec ::
  "('n, u64 list) tokio \<Rightarrow> u64 list serde_json \<Rightarrow> nat \<Rightarrow> nat \<Rightarrow> 'n \<Rightarrow> bool" where
  "test_write_read_round_trip_vec t j writer reader n = round_trip t j writer reader 0 [1, 2, 3, 4, 5] n"

lemma round_trip_passes:
  assumes "carries t buf writer reader" "serde_roundtrip j" "buf reader n = []"
    and "encodes j \<lparr>em_rank = rank, em_data = dat\<rparr> enc"
  shows "round_trip t j writer reader rank dat n"
proof -
  obtain n1 where 1: "write_stream t j rank dat writer n = (Ok (), n1)" "buf reader n1 = frame enc @ []"
    using write_carries [OF assms(1,4), of n] assms(3) by auto
  from read_carries [OF assms(1,2,4) 1(2)] 1(1) show ?thesis by (auto simp: round_trip_def)
qed

lemma round_trip_tests_pass:
  "carries t buf w r \<Longrightarrow> serde_roundtrip j \<Longrightarrow> buf r n = [] \<Longrightarrow>
     encodes j \<lparr>em_rank = 7, em_data = ''test data''\<rparr> enc \<Longrightarrow>
     test_write_read_round_trip_string t j w r n"
  "carries t' buf' w r \<Longrightarrow> serde_roundtrip j' \<Longrightarrow> buf' r n' = [] \<Longrightarrow>
     encodes j' \<lparr>em_rank = 3, em_data = \<lparr>te_lid = 1, te_qpn = 0x1234, te_psn = 0xABCD\<rparr>\<rparr> enc \<Longrightarrow>
     test_write_read_round_trip_struct t' j' w r n'"
  "carries t'' buf'' w r \<Longrightarrow> serde_roundtrip j'' \<Longrightarrow> buf'' r n'' = [] \<Longrightarrow>
     encodes j'' \<lparr>em_rank = 0, em_data = [1, 2, 3, 4, 5]\<rparr> enc \<Longrightarrow>
     test_write_read_round_trip_vec t'' j'' w r n''"
  unfolding test_write_read_round_trip_string_def test_write_read_round_trip_struct_def
    test_write_read_round_trip_vec_def
  by (rule round_trip_passes; assumption)+

text \<open>
  A reader on a byte slice: \<open>read_exact\<close> fails when fewer bytes are left than it asks for.
\<close>

definition ends_early :: "('n, 'd) tokio \<Rightarrow> (nat \<Rightarrow> 'n \<Rightarrow> u8 list) \<Rightarrow> nat \<Rightarrow> bool" where
  "ends_early t buf reader \<longleftrightarrow>
     (\<forall>k n. if k \<le> length (buf reader n)
            then \<exists>n'. tk_read_exact t reader k n = (Ok (take k (buf reader n)), n') \<and>
                   buf reader n' = drop k (buf reader n)
            else \<exists>e n'. tk_read_exact t reader k n = (Err e, n'))"

definition rejects ::
  "('n, 'd) tokio \<Rightarrow> 'd serde_json \<Rightarrow> (nat \<Rightarrow> 'n \<Rightarrow> u8 list) \<Rightarrow> nat \<Rightarrow> 'n \<Rightarrow> u8 list \<Rightarrow> bool" where
  "rejects t j buf reader n bytes \<longleftrightarrow>
     (buf reader n = bytes \<longrightarrow> err_and (fst (read_stream t j reader n)) (\<lambda>_. True))"

definition test_read_stream_rejects_truncated_length ::
  "('n, string) tokio \<Rightarrow> string serde_json \<Rightarrow> (nat \<Rightarrow> 'n \<Rightarrow> u8 list) \<Rightarrow> nat \<Rightarrow> 'n \<Rightarrow> bool" where
  "test_read_stream_rejects_truncated_length t j buf reader n = rejects t j buf reader n [0, 1]"

definition test_read_stream_rejects_truncated_body ::
  "('n, string) tokio \<Rightarrow> string serde_json \<Rightarrow> (nat \<Rightarrow> 'n \<Rightarrow> u8 list) \<Rightarrow> nat \<Rightarrow> 'n \<Rightarrow> bool" where
  "test_read_stream_rejects_truncated_body t j buf reader n =
     rejects t j buf reader n (be_bytes 4 100 @ [0, 1])"

text \<open>More generally, whatever the length announced, a frame cut short is an error.\<close>

lemma read_stream_truncated:
  assumes "ends_early t buf reader" "length bytes < 4 + from_be_bytes (take 4 bytes)"
  shows "rejects t j buf reader n bytes"
proof -
  have "err_and (fst (read_stream t j reader n)) (\<lambda>_. True)" if b: "buf reader n = bytes"
  proof (cases "4 \<le> length bytes")
    case True
    with assms(1) b obtain n1 where
      1: "tk_read_exact t reader 4 n = (Ok (take 4 bytes), n1)" "buf reader n1 = drop 4 bytes"
      unfolding ends_early_def by metis
    then have "\<not> from_be_bytes (take 4 bytes) \<le> length (buf reader n1)" using assms(2) True by simp
    with assms(1) obtain e n2 where "tk_read_exact t reader (from_be_bytes (take 4 bytes)) n1 = (Err e, n2)"
      unfolding ends_early_def by metis
    with 1 show ?thesis by (simp add: read_stream_def bind_s_def map_err_s_def)
  next
    case False
    with assms(1) b obtain e n2 where "tk_read_exact t reader 4 n = (Err e, n2)"
      unfolding ends_early_def by metis
    then show ?thesis by (simp add: read_stream_def bind_s_def map_err_s_def)
  qed
  then show ?thesis by (simp add: rejects_def)
qed

lemma truncation_tests_pass:
  assumes "ends_early t buf reader"
  shows "test_read_stream_rejects_truncated_length t j buf reader n"
    "test_read_stream_rejects_truncated_body t j buf reader n"
  unfolding test_read_stream_rejects_truncated_length_def test_read_stream_rejects_truncated_body_def
  by (rule read_stream_truncated [OF assms], simp)+

section \<open>The map of received data\<close>

definition hello :: "nat \<Rightarrow> string exchange_message" where
  "hello rank = \<lparr>em_rank = rank, em_data = ''hello''\<rparr>"

definition test_insert_if_valid_accepts_valid_rank :: bool where
  "test_insert_if_valid_accepts_valid_rank \<longleftrightarrow>
     (case insert_if_valid (hello 2) [] (0, 5) of
        (inserted, received) \<Rightarrow> inserted \<and> map_of received 2 = Some ''hello'')"

definition test_insert_if_valid_rejects_out_of_range :: bool where
  "test_insert_if_valid_rejects_out_of_range \<longleftrightarrow>
     (case insert_if_valid (hello 10) [] (0, 5) of
        (inserted, received) \<Rightarrow> \<not> inserted \<and> received = [])"

definition test_insert_if_valid_overwrites_duplicate :: bool where
  "test_insert_if_valid_overwrites_duplicate \<longleftrightarrow>
     (case insert_if_valid \<lparr>em_rank = 2, em_data = ''second''\<rparr> [(2, ''first'')] (0, 5) of
        (inserted, received) \<Rightarrow> inserted \<and> map_of received 2 = Some ''second'')"

lemma insert_tests_pass:
  "test_insert_if_valid_accepts_valid_rank"
  "test_insert_if_valid_rejects_out_of_range"
  "test_insert_if_valid_overwrites_duplicate"
  by (simp_all add: insert_if_valid_def in_range_def hello_def
      test_insert_if_valid_accepts_valid_rank_def test_insert_if_valid_rejects_out_of_range_def
      test_insert_if_valid_overwrites_duplicate_def)

section \<open>Exchanges\<close>

text \<open>\<open>None\<close> is the panic of the final \<open>unwrap\<close>.\<close>

definition make_network :: "u16 list \<Rightarrow> network_config option" where
  "make_network ports =
     (case config_build (fold
        (\<lambda>(i, p) builder. add_node builder
           \<lparr>hostname = ''127.0.0.1'', port = p, ibdev = ''test0'', rankid = i, comment = []\<rparr>)
        (enumerate 0 ports) raw_config_builder) of
        Ok network \<Rightarrow> Some network
      | _ \<Rightarrow> None)"

definition from_rank :: "nat \<Rightarrow> string" where
  "from_rank rank = ''from_'' @ show_nat rank"

text \<open>The assertions on the results of the threads.\<close>

definition test_two_node_exchange :: "(string list, exchange_error) outcome list \<Rightarrow> bool" where
  "test_two_node_exchange results =
     list_all (\<lambda>r. ok_and r (\<lambda>xs. xs = [''from_0'', ''from_1''])) results"

definition test_three_node_exchange :: "(string list, exchange_error) outcome list \<Rightarrow> bool" where
  "test_three_node_exchange results =
     list_all (\<lambda>r. ok_and r (\<lambda>xs. xs = map from_rank [0..<3])) results"

lemma make_network_simps:
  "make_network [41100, 41101] \<noteq> None" "make_network [41200, 41201, 41202] \<noteq> None"
  by (simp_all add: make_network_def add_node_def raw_config_builder_def config_build_def check_rank_def
      upt_rec Let_def)

lemma exchange_results:
  assumes "xreach n dat k s" "\<nexists>s'. xstep n dat s s'" "i < n"
  shows "xresult n dat i (s i) = Ok (map dat [0..<n])"
  using xreach_inv [OF assms(1)] xstuck_done xdone_result assms(2,3) by metis

lemma from_ranks: "map from_rank [0..<2] = [''from_0'', ''from_1'']"
  by code_simp

lemma exchange_tests_pass:
  "xreach 2 from_rank k s \<Longrightarrow> \<nexists>s'. xstep 2 from_rank s s' \<Longrightarrow>
     test_two_node_exchange (map (\<lambda>i. xresult 2 from_rank i (s i)) [0..<2])"
  "xreach 3 from_rank k s \<Longrightarrow> \<nexists>s'. xstep 3 from_rank s s' \<Longrightarrow>
     test_three_node_exchange (map (\<lambda>i. xresult 3 from_rank i (s i)) [0..<3])"
  using exchange_results [of 2 from_rank k s] exchange_results [of 3 from_rank k s] from_ranks
  by (auto simp: test_two_node_exchange_def test_three_node_exchange_def list_all_iff)

end
